(* ===== verification/Go_Prelude.thy ===== *)
theory Go_Prelude
  imports Main "HOL-Library.Word" "HOL-Library.Finite_Map"
begin

text \<open>
  The part of the Go language and of its standard library that every component of the
  proxy uses, as executable HOL functions: strings (package \<^verbatim>\<open>strings\<close>), decimal numbers
  (\<^verbatim>\<open>strconv\<close>, \<^verbatim>\<open>fmt\<close>), fixed-width integer conversions, maps and time.

  A Go string is a byte sequence, here a \<^typ>\<open>string\<close> (a list of 8-bit characters). Case
  mapping and white space are those of ASCII: on a byte above 127 \<open>ToLower\<close>,
  \<open>EqualFold\<close> and \<open>TrimSpace\<close> act as the identity, so the model is exact for ASCII
  text and leaves Go's Unicode tables out. A Go map is a finite map of
  \<^verbatim>\<open>HOL-Library.Finite_Map\<close>. A point in time and a duration are integers, in nanoseconds.
\<close>

unbundle bit_operations_syntax

named_theorems go_defs \<open>definitions of the string library, for evaluation on concrete strings\<close>

type_synonym ('k, 'v) gomap = "('k, 'v) fmap"
type_synonym time = int
type_synonym byte = "8 word"
type_synonym uint64 = "64 word"

section \<open>Errors\<close>

text \<open>
  The errors of \<^verbatim>\<open>admin.go\<close> that callers compare with \<^verbatim>\<open>errors.Is\<close> are constructors of
  their own; every other error is its message.
\<close>

datatype error = ErrLastAdmin | ErrDuplicateName | ErrMsg string

fun error_message :: "error \<Rightarrow> string" where
  "error_message ErrLastAdmin = ''last enabled admin would be removed''"
| "error_message ErrDuplicateName = ''username already exists''"
| "error_message (ErrMsg m) = m"

section \<open>Characters and strings\<close>

definition byte_of :: "char \<Rightarrow> nat" where
  "byte_of c = of_char c"

definition lower_char :: "char \<Rightarrow> char" where
  "lower_char c = (if 65 \<le> byte_of c \<and> byte_of c \<le> 90 then char_of (byte_of c + 32) else c)"

definition ToLower :: "string \<Rightarrow> string" where
  "ToLower s = map lower_char s"

definition EqualFold :: "string \<Rightarrow> string \<Rightarrow> bool" where
  "EqualFold s t \<longleftrightarrow> ToLower s = ToLower t"

definition is_space :: "char \<Rightarrow> bool" where
  "is_space c \<longleftrightarrow> byte_of c = 32 \<or> (9 \<le> byte_of c \<and> byte_of c \<le> 13)"

definition TrimSpace :: "string \<Rightarrow> string" where
  "TrimSpace s = rev (dropWhile is_space (rev (dropWhile is_space s)))"

definition HasPrefix :: "string \<Rightarrow> string \<Rightarrow> bool" where
  "HasPrefix s p \<longleftrightarrow> take (length p) s = p"

definition TrimPrefix :: "string \<Rightarrow> string \<Rightarrow> string" where
  "TrimPrefix s p = (if HasPrefix s p then drop (length p) s else s)"

definition HasSuffix :: "string \<Rightarrow> string \<Rightarrow> bool" where
  "HasSuffix s p \<longleftrightarrow> HasPrefix (rev s) (rev p)"

definition newline :: char where
  "newline = char_of (10 :: nat)"

text \<open>
  The runes of a string (\<open>for _, c := range s\<close>): UTF-8 decoded, without overlong forms and
  surrogates; a byte that starts no valid encoding is the replacement character, of width one.
\<close>

definition in_bytes :: "nat \<Rightarrow> nat \<Rightarrow> char \<Rightarrow> bool" where
  "in_bytes lo hi c \<longleftrightarrow> lo \<le> byte_of c \<and> byte_of c \<le> hi"

definition low6 :: "char \<Rightarrow> nat" where
  "low6 c = byte_of c mod 64"

definition rune_error :: nat where
  "rune_error = 65533"

fun DecodeRune :: "string \<Rightarrow> nat \<times> nat" where
  "DecodeRune [] = (rune_error, 0)"
| "DecodeRune (a # r) =
     (if byte_of a < 128 then (byte_of a, 1)
      else case r of
        b # r1 \<Rightarrow>
          if in_bytes 194 223 a \<and> in_bytes 128 191 b then ((byte_of a mod 32) * 64 + low6 b, 2)
          else (case r1 of
            c # r2 \<Rightarrow>
              if in_bytes 224 239 a \<and> in_bytes 128 191 c
                 \<and> in_bytes (if byte_of a = 224 then 160 else 128) (if byte_of a = 237 then 159 else 191) b
              then (((byte_of a mod 16) * 64 + low6 b) * 64 + low6 c, 3)
              else (case r2 of
                d # _ \<Rightarrow>
                  if in_bytes 240 244 a \<and> in_bytes 128 191 c \<and> in_bytes 128 191 d
                     \<and> in_bytes (if byte_of a = 240 then 144 else 128) (if byte_of a = 244 then 143 else 191) b
                  then ((((byte_of a mod 8) * 64 + low6 b) * 64 + low6 c) * 64 + low6 d, 4)
                  else (rune_error, 1)
              | [] \<Rightarrow> (rune_error, 1))
          | [] \<Rightarrow> (rune_error, 1))
      | [] \<Rightarrow> (rune_error, 1))"

function runes :: "string \<Rightarrow> nat list" where
  "runes [] = []"
| "runes (a # r) = fst (DecodeRune (a # r)) # runes (drop (snd (DecodeRune (a # r)) - 1) r)"
  by pat_completeness auto
termination
  by (relation "measure length") auto

lemma runes_ascii: "list_all (\<lambda>c. byte_of c < 128) s \<Longrightarrow> runes s = map byte_of s"
  by (induction s) simp_all

text \<open>\<open>IndexByte\<close> and \<open>LastIndexByte\<close> return \<^const>\<open>None\<close> where Go returns \<open>-1\<close>.\<close>

fun IndexByte :: "string \<Rightarrow> char \<Rightarrow> nat option" where
  "IndexByte [] c = None"
| "IndexByte (x # xs) c = (if x = c then Some 0 else map_option Suc (IndexByte xs c))"

fun LastIndexByte :: "string \<Rightarrow> char \<Rightarrow> nat option" where
  "LastIndexByte [] c = None"
| "LastIndexByte (x # xs) c =
     (case LastIndexByte xs c of Some i \<Rightarrow> Some (Suc i)
      | None \<Rightarrow> if x = c then Some 0 else None)"

fun Contains :: "string \<Rightarrow> string \<Rightarrow> bool" where
  "Contains [] t = (t = [])"
| "Contains (x # xs) t = (HasPrefix (x # xs) t \<or> Contains xs t)"

text \<open>\<^verbatim>\<open>strings.Split\<close> at a one-byte separator: always at least one part.\<close>

fun SplitByte :: "string \<Rightarrow> char \<Rightarrow> string list" where
  "SplitByte [] c = [[]]"
| "SplitByte (x # xs) c =
     (if x = c then [] # SplitByte xs c
      else (case SplitByte xs c of [] \<Rightarrow> [[x]] | p # ps \<Rightarrow> (x # p) # ps))"

fun JoinBy :: "string \<Rightarrow> string list \<Rightarrow> string" where
  "JoinBy sep [] = []"
| "JoinBy sep [p] = p"
| "JoinBy sep (p # q # ps) = p @ sep @ JoinBy sep (q # ps)"

section \<open>Decimal numbers\<close>

definition is_digit :: "char \<Rightarrow> bool" where
  "is_digit c \<longleftrightarrow> 48 \<le> byte_of c \<and> byte_of c \<le> 57"

definition digit_val :: "char \<Rightarrow> int" where
  "digit_val c = int (byte_of c) - 48"

definition digit_char :: "int \<Rightarrow> char" where
  "digit_char d = char_of (48 + nat d)"

fun dec_val :: "int \<Rightarrow> string \<Rightarrow> int" where
  "dec_val acc [] = acc"
| "dec_val acc (c # cs) = dec_val (10 * acc + digit_val c) cs"

function pos_dec :: "int \<Rightarrow> string" where
  "pos_dec n = (if n < 10 then [digit_char n] else pos_dec (n div 10) @ [digit_char (n mod 10)])"
  by pat_completeness auto
termination
  by (relation "measure nat") auto

declare pos_dec.simps [simp del]

text \<open>The verb \<^verbatim>\<open>%d\<close> on an integer.\<close>

definition int_dec :: "int \<Rightarrow> string" where
  "int_dec i = (if i < 0 then CHR ''-'' # pos_dec (- i) else pos_dec i)"

definition in_int64 :: "int \<Rightarrow> bool" where
  "in_int64 i \<longleftrightarrow> - (2 ^ 63) \<le> i \<and> i < 2 ^ 63"

text \<open>\<^verbatim>\<open>strconv.Atoi\<close>: an optional sign, at least one digit, the value in range.\<close>

definition Atoi :: "string \<Rightarrow> int option" where
  "Atoi s =
     (let neg = HasPrefix s ''-'';
          ds = (if neg \<or> HasPrefix s ''+'' then tl s else s);
          v = (if neg then - dec_val 0 ds else dec_val 0 ds)
      in if ds = [] \<or> \<not> list_all is_digit ds \<or> \<not> in_int64 v then None else Some v)"

text \<open>
  \<open>fmt.Sscanf(s, "%d", &n)\<close>: blanks (but no newline) are skipped, then an optional sign and the
  longest run of digits is read; what follows is ignored. \<^const>\<open>None\<close> leaves \<open>n\<close> as it was.
\<close>

fun scan_skip :: "string \<Rightarrow> string option" where
  "scan_skip [] = Some []"
| "scan_skip (c # cs) =
     (if byte_of c = 10 then None
      else if is_space c then scan_skip cs else Some (c # cs))"

definition Sscanf_d :: "string \<Rightarrow> int option" where
  "Sscanf_d s =
     (case scan_skip s of None \<Rightarrow> None
      | Some r \<Rightarrow>
         (let neg = HasPrefix r ''-'';
              ds = takeWhile is_digit (if neg \<or> HasPrefix r ''+'' then tl r else r);
              v = (if neg then - dec_val 0 ds else dec_val 0 ds)
          in if ds = [] \<or> \<not> in_int64 v then None else Some v))"

section \<open>The verb \<^verbatim>\<open>%q\<close>\<close>

definition hex_digit :: "nat \<Rightarrow> char" where
  "hex_digit d = (if d < 10 then char_of (48 + d) else char_of (87 + d))"

text \<open>\<^verbatim>\<open>strconv.Quote\<close> on ASCII text.\<close>

definition quote_char :: "char \<Rightarrow> string" where
  "quote_char c =
     (let n = byte_of c in
      if n = 34 \<or> n = 92 then [char_of (92::nat), c]
      else if n = 7 then [char_of (92::nat), CHR ''a'']
      else if n = 8 then [char_of (92::nat), CHR ''b'']
      else if n = 12 then [char_of (92::nat), CHR ''f'']
      else if n = 10 then [char_of (92::nat), CHR ''n'']
      else if n = 13 then [char_of (92::nat), CHR ''r'']
      else if n = 9 then [char_of (92::nat), CHR ''t'']
      else if n = 11 then [char_of (92::nat), CHR ''v'']
      else if n < 32 \<or> n = 127
        then [char_of (92::nat), CHR ''x'', hex_digit (n div 16), hex_digit (n mod 16)]
      else [c])"

definition quote :: "string \<Rightarrow> string" where
  "quote s = char_of (34::nat) # concat (map quote_char s) @ [char_of (34::nat)]"

section \<open>Fixed-width integers, durations, maps\<close>

text \<open>The value of an \<open>int64\<close> expression: the low 64 bits, read as two's complement.\<close>

definition int64 :: "int \<Rightarrow> int" where
  "int64 x = signed_take_bit 63 x"

text \<open>The conversion \<open>int32(x)\<close>: the low 32 bits, read as two's complement.\<close>

definition int32 :: "int \<Rightarrow> int" where
  "int32 x = signed_take_bit 31 x"

text \<open>\<open>n++\<close> on a 64-bit \<open>int\<close>.\<close>

definition inc_int :: "int \<Rightarrow> int" where
  "inc_int n = signed_take_bit 63 (n + 1)"

definition second :: time where "second = 1000000000"
definition minute :: time where "minute = 60 * second"
definition hour :: time where "hour = 60 * minute"

text \<open>Deleting, in one pass over a map, the entries whose value satisfies a condition.\<close>

definition fmdelete_if :: "('v \<Rightarrow> bool) \<Rightarrow> ('k, 'v) gomap \<Rightarrow> ('k, 'v) gomap" where
  "fmdelete_if P m = fmfilter (\<lambda>k. \<not> (case fmlookup m k of None \<Rightarrow> False | Some v \<Rightarrow> P v)) m"

text \<open>Reading a missing key yields the zero value: \<open>m[k] += d\<close> on a map of counters.\<close>

definition fm_add :: "'k \<Rightarrow> uint64 \<Rightarrow> ('k, uint64) gomap \<Rightarrow> ('k, uint64) gomap" where
  "fm_add k d m = fmupd k ((case fmlookup m k of None \<Rightarrow> 0 | Some v \<Rightarrow> v) + d) m"

section \<open>Lemmas on characters and numbers\<close>

lemma byte_of_char_of [simp]: "byte_of (char_of n) = n mod 256" for n :: nat
  by (simp add: byte_of_def take_bit_eq_mod)

lemma byte_of_eq_iff: "byte_of c = byte_of d \<longleftrightarrow> c = d"
  by (simp add: byte_of_def)

lemma length_tl_dropWhile: "dropWhile P s \<noteq> [] \<Longrightarrow> length (tl (dropWhile P s)) < length s"
  using length_dropWhile_le [of P s] by (cases "dropWhile P s") (auto simp del: dropWhile_eq_Nil_conv)

lemma digit_char_digit:
  assumes "0 \<le> d" "d < 10"
  shows "is_digit (digit_char d)" "digit_val (digit_char d) = d"
  using assms by (auto simp: is_digit_def digit_val_def digit_char_def)

lemma dec_val_append [simp]: "dec_val acc (xs @ ys) = dec_val (dec_val acc xs) ys"
  by (induction xs arbitrary: acc) auto

lemma list_all_digit_pos_dec [simp]: "0 \<le> n \<Longrightarrow> list_all is_digit (pos_dec n)"
proof (induction n rule: pos_dec.induct)
  case (1 n)
  then show ?case
    by (cases "n < 10") (auto simp: pos_dec.simps [of n] digit_char_digit)
qed

lemma dec_val_pos_dec [simp]: "0 \<le> n \<Longrightarrow> dec_val 0 (pos_dec n) = n"
proof (induction n rule: pos_dec.induct)
  case (1 n)
  then show ?case
    by (cases "n < 10") (auto simp: pos_dec.simps [of n] digit_char_digit)
qed

lemma pos_dec_nonempty [simp]: "pos_dec n \<noteq> []"
  by (subst pos_dec.simps) simp

lemma pos_dec_hd: "0 < n \<Longrightarrow> hd (pos_dec n) \<noteq> CHR ''0''"
proof (induction n rule: pos_dec.induct)
  case (1 n)
  have z: "CHR ''0'' = digit_char 0" by code_simp
  show ?case
  proof (cases "n < 10")
    case True
    then show ?thesis using 1 digit_char_digit(2) [of n] digit_char_digit(2) [of 0]
      by (auto simp: pos_dec.simps [of n] z)
  next
    case False
    then show ?thesis using 1 by (simp add: pos_dec.simps [of n])
  qed
qed

text \<open>Splitting undoes joining when no part holds the separator.\<close>

lemma SplitByte_no_sep: "c \<notin> set s \<Longrightarrow> SplitByte s c = [s]"
  by (induction s) auto

lemma SplitByte_append: "c \<notin> set s \<Longrightarrow> SplitByte (s @ c # t) c = s # SplitByte t c"
  by (induction s) auto

lemma SplitByte_JoinBy:
  "ps \<noteq> [] \<Longrightarrow> \<forall>p \<in> set ps. c \<notin> set p \<Longrightarrow> SplitByte (JoinBy [c] ps) c = ps"
  by (induction "[c]" ps rule: JoinBy.induct) (auto simp: SplitByte_no_sep SplitByte_append)

lemma foldl_invariant:
  "P a \<Longrightarrow> (\<And>s x. x \<in> set xs \<Longrightarrow> P s \<Longrightarrow> P (f s x)) \<Longrightarrow> P (foldl f a xs)"
  by (induction xs arbitrary: a) auto

lemma SplitByte_char: "x \<in> set s \<Longrightarrow> x \<noteq> c \<Longrightarrow> \<exists>p \<in> set (SplitByte s c). x \<in> set p"
  by (induction s) (fastforce split: list.splits)+

lemma digit_val_digit:
  assumes "is_digit c"
  shows "0 \<le> digit_val c" "digit_val c < 10" "digit_char (digit_val c) = c"
    "c \<noteq> CHR ''0'' \<Longrightarrow> 0 < digit_val c"
proof -
  have "byte_of (CHR ''0'') = 48" by code_simp
  then have "byte_of c \<noteq> 48" if "c \<noteq> CHR ''0''" using that byte_of_eq_iff by metis
  then show "c \<noteq> CHR ''0'' \<Longrightarrow> 0 < digit_val c"
    using assms by (fastforce simp: is_digit_def digit_val_def)
  show "0 \<le> digit_val c" "digit_val c < 10" using assms by (auto simp: is_digit_def digit_val_def)
  have "48 + nat (int (byte_of c) - 48) = byte_of c" using assms by (auto simp: is_digit_def)
  then show "digit_char (digit_val c) = c" by (simp add: digit_char_def digit_val_def byte_of_def)
qed

lemma JoinBy_SplitByte: "JoinBy [c] (SplitByte s c) = s"
proof (induction s)
  case (Cons x s)
  have "SplitByte s c \<noteq> []" by (cases s) (auto split: list.splits)
  then obtain p ps where sp: "SplitByte s c = p # ps" by (cases "SplitByte s c") auto
  with Cons show ?case by (cases ps) auto
qed simp

lemma TrimSpace_id: "list_all (\<lambda>c. \<not> is_space c) s \<Longrightarrow> TrimSpace s = s"
proof -
  have dw: "dropWhile is_space t = t" if "list_all (\<lambda>c. \<not> is_space c) t" for t
    using that by (cases t) auto
  assume "list_all (\<lambda>c. \<not> is_space c) s"
  then show ?thesis by (simp add: TrimSpace_def dw)
qed

lemma LastIndexByte_append: "c \<notin> set t \<Longrightarrow> LastIndexByte (s @ c # t) c = Some (length s)"
proof (induction s)
  case Nil
  have "LastIndexByte t c = None" using Nil by (induction t) auto
  then show ?case by simp
qed simp

lemma LastIndexByte_None: "c \<notin> set t \<Longrightarrow> LastIndexByte t c = None"
  by (induction t) auto

lemma IndexByte_None: "c \<notin> set t \<Longrightarrow> IndexByte t c = None"
  by (induction t) auto

lemma Contains_char: "Contains s [c] \<longleftrightarrow> c \<in> set s"
  by (induction s) (auto simp: HasPrefix_def)

lemma pos_dec_dec_val:
  "f \<noteq> [] \<Longrightarrow> list_all is_digit f \<Longrightarrow> (1 < length f \<longrightarrow> hd f \<noteq> CHR ''0'') \<Longrightarrow>
     pos_dec (dec_val 0 f) = f \<and> 0 \<le> dec_val 0 f \<and> (hd f \<noteq> CHR ''0'' \<longrightarrow> 0 < dec_val 0 f)"
proof (induction f rule: rev_induct)
  case (snoc c g)
  have c: "0 \<le> digit_val c" "digit_val c < 10" "digit_char (digit_val c) = c"
    "c \<noteq> CHR ''0'' \<Longrightarrow> 0 < digit_val c"
    using snoc.prems(2) digit_val_digit [of c] by auto
  show ?case
  proof (cases "g = []")
    case True
    with c show ?thesis by (simp add: pos_dec.simps [of "digit_val c"])
  next
    case False
    with snoc have ih: "pos_dec (dec_val 0 g) = g" "0 < dec_val 0 g" by (auto simp: hd_append)
    with c have "pos_dec (10 * dec_val 0 g + digit_val c) = g @ [c]"
      by (simp add: pos_dec.simps [of "10 * dec_val 0 g + digit_val c"])
    with ih c False show ?thesis by simp
  qed
qed simp

lemma byte_of_consts [simp]:
  "byte_of (CHR ''.'') = 46" "byte_of (CHR '':'') = 58" "byte_of (CHR ''-'') = 45"
  "byte_of (CHR ''_'') = 95" "byte_of (CHR ''['') = 91" "byte_of (CHR '']'') = 93"
  "byte_of (CHR ''*'') = 42" "byte_of (CHR ''?'') = 63" "byte_of (CHR ''/'') = 47" "byte_of (CHR ''%'') = 37"
  by code_simp+

lemma lower_char_id: "\<not> (65 \<le> byte_of c \<and> byte_of c \<le> 90) \<Longrightarrow> lower_char c = c"
  by (auto simp: lower_char_def)

lemma ToLower_idem [simp]: "ToLower (ToLower s) = ToLower s"
proof -
  have "lower_char (lower_char c) = lower_char c" for c
    by (auto simp: lower_char_def)
  then show ?thesis by (simp add: ToLower_def)
qed

lemma ToLower_port: "list_all is_digit p \<Longrightarrow> ToLower p = p"
  by (induction p) (auto simp: ToLower_def is_digit_def lower_char_id)

lemma digit_not:
  assumes "is_digit c"
  shows "c \<noteq> CHR '':''" "c \<noteq> CHR ''[''" "c \<noteq> CHR '']''" "c \<noteq> CHR ''.''" "\<not> is_space c"
  using assms by (auto simp: is_space_def is_digit_def)

lemma digits_no_char:
  assumes "list_all is_digit p"
  shows "CHR '':'' \<notin> set p" "CHR ''['' \<notin> set p" "CHR '']'' \<notin> set p"
  using assms by (auto simp: list_all_iff is_digit_def dest!: bspec)

section \<open>Lists changed at a position\<close>

lemma list_ex_update: "k < length xs \<Longrightarrow> \<not> P v \<Longrightarrow> \<not> P (xs ! k) \<Longrightarrow> list_ex P (xs[k := v]) = list_ex P xs"
  by (induction xs arbitrary: k) (auto split: nat.splits)

lemma distinct_map_delete_at: "distinct (map f xs) \<Longrightarrow> distinct (map f (take k xs @ drop (Suc k) xs))"
  by (simp add: set_take_disj_set_drop_if_distinct del: set_map flip: take_map drop_map set_map)

lemma set_delete_at: "k < length xs \<Longrightarrow> set xs = insert (xs ! k) (set (take k xs @ drop (Suc k) xs))"
  using arg_cong [OF id_take_nth_drop [of k xs], of set] by auto

lemma inc_int_neq: "inc_int n \<noteq> n"
proof
  assume "inc_int n = n"
  then have "take_bit 64 (signed_take_bit 63 (n + 1)) = take_bit 64 n" by (simp add: inc_int_def)
  then have "take_bit 64 (n + 1) = take_bit 64 n" by (simp add: take_bit_signed_take_bit)
  then have "2 ^ 64 dvd (n + 1) - n" unfolding take_bit_eq_mod mod_eq_dvd_iff .
  then show False by simp
qed

lemma Atoi_in_int64: "Atoi s = Some n \<Longrightarrow> in_int64 n"
  by (auto simp: Atoi_def Let_def split: if_splits)

lemma in_int64_inc_int [simp]: "in_int64 (inc_int n)"
  unfolding inc_int_def in_int64_def using signed_take_bit_int_greater_eq_minus_exp [of 63 "n + 1"] signed_take_bit_int_less_exp [of 63 "n + 1"] by simp

end
