(* ===== verification/Net_Addr.thy ===== *)
theory Net_Addr
  imports Go_Prelude
begin

text \<open>
  Package \<^verbatim>\<open>net\<close>, as far as the proxy calls it: \<open>ParseIP\<close>, \<open>IP.String\<close>,
  \<open>ParseCIDR\<close>, \<open>IPNet.Contains\<close>, \<open>IP.Equal\<close> and \<open>SplitHostPort\<close>. An
  address is the byte slice Go keeps: 16 bytes (an IPv4 address behind the prefix
  \<open>::ffff:0:0/96\<close>), or 4 bytes for the network of an IPv4 CIDR. The main result is that the
  printed form of an address parses back to it, which is what makes \<open>IP.String\<close> a canonical
  form that rules can be compared on.
\<close>

type_synonym ip = "byte list"

record ipnet =
  net_ip :: ip
  net_mask :: "byte list"

definition v4InV6Prefix :: "byte list" where
  "v4InV6Prefix = [0, 0, 0, 0, 0, 0, 0, 0, 0, 0, 255, 255]"

datatype addr = Addr4 "byte list" | Addr6 "byte list"

fun As16 :: "addr \<Rightarrow> ip" where
  "As16 (Addr4 b) = v4InV6Prefix @ b"
| "As16 (Addr6 b) = b"

fun BitLen :: "addr \<Rightarrow> int" where
  "BitLen (Addr4 b) = 32"
| "BitLen (Addr6 b) = 128"

section \<open>Parsing addresses\<close>

definition ipv4_field :: "string \<Rightarrow> byte option" where
  "ipv4_field f =
     (if f = [] \<or> \<not> list_all is_digit f \<or> (1 < length f \<and> hd f = CHR ''0'') \<or> 255 < dec_val 0 f
      then None else Some (word_of_int (dec_val 0 f)))"

definition parseIPv4Fields :: "string \<Rightarrow> byte list option" where
  "parseIPv4Fields s =
     (case map ipv4_field (SplitByte s CHR ''.'') of
        [Some a, Some b, Some c, Some d] \<Rightarrow> Some [a, b, c, d]
      | _ \<Rightarrow> None)"

definition hex_val :: "char \<Rightarrow> int option" where
  "hex_val c =
     (let n = int (byte_of c) in
      if 48 \<le> n \<and> n \<le> 57 then Some (n - 48)
      else if 97 \<le> n \<and> n \<le> 102 then Some (n - 87)
      else if 65 \<le> n \<and> n \<le> 70 then Some (n - 55)
      else None)"

definition is_hex :: "char \<Rightarrow> bool" where
  "is_hex c \<longleftrightarrow> hex_val c \<noteq> None"

fun hex_acc :: "int \<Rightarrow> string \<Rightarrow> int" where
  "hex_acc acc [] = acc"
| "hex_acc acc (c # cs) =
     hex_acc (16 * acc + (case hex_val c of None \<Rightarrow> 0 | Some v \<Rightarrow> v)) cs"

definition group_bytes :: "int \<Rightarrow> byte list" where
  "group_bytes v = [word_of_int (v div 256), word_of_int v]"

text \<open>
  The loop of \<open>parseIPv6\<close>: \<open>acc\<close> holds the bytes read so far and \<open>ell\<close> the
  position of the ellipsis. It ends with the whole string consumed, or fails.
\<close>

function v6_loop :: "string \<Rightarrow> byte list \<Rightarrow> nat option \<Rightarrow> (byte list \<times> nat option) option" where
  "v6_loop s acc ell =
     (if 16 \<le> length acc then (if s = [] then Some (acc, ell) else None)
      else let h = takeWhile is_hex s; r = dropWhile is_hex s; acc' = acc @ group_bytes (hex_acc 0 h)
      in if h = [] \<or> 4 < length h then None
      else if r = [] then Some (acc', ell)
      else if hd r = CHR ''.'' then
        (if ell = None \<and> length acc \<noteq> 12 then None
         else if 16 < length acc + 4 then None
         else map_option (\<lambda>b. (acc @ b, ell)) (parseIPv4Fields s))
      else if hd r \<noteq> CHR '':'' then None
      else if tl r = [] then None
      else if hd (tl r) = CHR '':'' then
        (if ell \<noteq> None then None
         else if tl (tl r) = [] then Some (acc', Some (length acc'))
         else v6_loop (tl (tl r)) acc' (Some (length acc')))
      else v6_loop (tl r) acc' ell)"
  by pat_completeness auto
termination
proof (relation "measure (\<lambda>(s, acc, ell). length s)", goal_cases)
  case 1
  show ?case by simp
next
  case (2 s acc ell h r acc')
  then have "length (tl r) < length s" by (simp add: length_tl_dropWhile del: length_tl)
  then show ?case by simp
next
  case (3 s acc ell h r acc')
  then show ?case by (simp add: length_tl_dropWhile del: length_tl)
qed

declare v6_loop.simps [simp del]

definition expand_ellipsis :: "byte list \<times> nat option \<Rightarrow> byte list option" where
  "expand_ellipsis r =
     (case r of (acc, ell) \<Rightarrow>
        if length acc < 16 then
          map_option (\<lambda>e. take e acc @ replicate (16 - length acc) 0 @ drop e acc) ell
        else if ell \<noteq> None then None else Some acc)"

text \<open>An address with a zone (\<open>%eth0\<close>) is refused by every caller in \<^verbatim>\<open>net\<close>, so it fails here.\<close>

definition parseIPv6 :: "string \<Rightarrow> byte list option" where
  "parseIPv6 s =
     (if CHR ''%'' \<in> set s then None
      else if s = ''::'' then Some (replicate 16 0)
      else Option.bind
        (if HasPrefix s ''::'' then v6_loop (drop 2 s) [] (Some 0) else v6_loop s [] None)
        expand_ellipsis)"

fun addr_kind :: "string \<Rightarrow> char option" where
  "addr_kind [] = None"
| "addr_kind (c # cs) =
     (if c = CHR ''.'' \<or> c = CHR '':'' \<or> c = CHR ''%'' then Some c else addr_kind cs)"

definition ParseAddr :: "string \<Rightarrow> addr option" where
  "ParseAddr s =
     (if addr_kind s = Some (CHR ''.'') then map_option Addr4 (parseIPv4Fields s)
      else if addr_kind s = Some (CHR '':'') then map_option Addr6 (parseIPv6 s)
      else None)"

definition ParseIP :: "string \<Rightarrow> ip option" where
  "ParseIP s = map_option As16 (ParseAddr s)"

section \<open>Printing addresses\<close>

definition To4 :: "ip \<Rightarrow> byte list option" where
  "To4 ip =
     (if length ip = 4 then Some ip
      else if length ip = 16 \<and> take 12 ip = v4InV6Prefix then Some (drop 12 ip)
      else None)"

definition string4 :: "byte list \<Rightarrow> string" where
  "string4 b = JoinBy ''.'' (map (\<lambda>x. pos_dec (uint x)) b)"

fun v6_groups :: "byte list \<Rightarrow> int list" where
  "v6_groups (a # b # rest) = (256 * uint a + uint b) # v6_groups rest"
| "v6_groups _ = []"

function appendHex :: "int \<Rightarrow> string" where
  "appendHex n =
     (if n < 16 then [hex_digit (nat n)] else appendHex (n div 16) @ [hex_digit (nat (n mod 16))])"
  by pat_completeness auto
termination
  by (relation "measure nat") auto

declare appendHex.simps [simp del]

text \<open>The first longest run of at least two zero groups, or \<open>(255, 255)\<close>.\<close>

definition zero_run :: "int list \<Rightarrow> nat \<times> nat" where
  "zero_run gs =
     foldl (\<lambda>(st, en) i.
        let j = i + length (takeWhile (\<lambda>g. g = 0) (drop i gs))
        in if 2 \<le> j - i \<and> en - st < j - i then (i, j) else (st, en)) (255, 255) [0..<8]"

definition join6 :: "int list \<Rightarrow> string" where
  "join6 gs = JoinBy '':'' (map appendHex gs)"

definition string6 :: "byte list \<Rightarrow> string" where
  "string6 b =
     (let gs = v6_groups b in
      case zero_run gs of (st, en) \<Rightarrow>
        if st = 255 then join6 gs else join6 (take st gs) @ ''::'' @ join6 (drop en gs))"

definition IP_String :: "ip \<Rightarrow> string" where
  "IP_String ip = (case To4 ip of Some b \<Rightarrow> string4 b | None \<Rightarrow> string6 ip)"

section \<open>Networks\<close>

definition mask_byte :: "int \<Rightarrow> byte" where
  "mask_byte k = (if 8 \<le> k then 255 else if k \<le> 0 then 0 else word_of_int (256 - 2 ^ nat (8 - k)))"

definition CIDRMask :: "int \<Rightarrow> int \<Rightarrow> byte list" where
  "CIDRMask ones bits = map (\<lambda>i. mask_byte (ones - 8 * int i)) [0..<nat (bits div 8)]"

definition mask_ip :: "ip \<Rightarrow> byte list \<Rightarrow> ip" where
  "mask_ip ip m =
     (let i = (if length m = 4 \<and> length ip = 16 \<and> take 12 ip = v4InV6Prefix then drop 12 ip else ip)
      in map2 (AND) i m)"

text \<open>\<open>dtoi\<close> gives up at \<open>0xFFFFFF\<close>; the callers bound the value by 128, so only the digits matter.\<close>

definition parse_prefix_len :: "string \<Rightarrow> int option" where
  "parse_prefix_len s =
     (if s = [] \<or> \<not> list_all is_digit s \<or> 16777215 \<le> dec_val 0 s then None else Some (dec_val 0 s))"

definition ParseCIDR :: "string \<Rightarrow> ipnet option" where
  "ParseCIDR s =
     (case IndexByte s CHR ''/'' of None \<Rightarrow> None
      | Some i \<Rightarrow>
         (case ParseAddr (take i s) of None \<Rightarrow> None
          | Some a \<Rightarrow>
             (case parse_prefix_len (drop (Suc i) s) of None \<Rightarrow> None
              | Some n \<Rightarrow>
                 if BitLen a < n then None
                 else let m = CIDRMask n (BitLen a)
                      in Some \<lparr>net_ip = mask_ip (As16 a) m, net_mask = m\<rparr>)))"

definition networkNumberAndMask :: "ipnet \<Rightarrow> (ip \<times> byte list) option" where
  "networkNumberAndMask n =
     (let ip = (case To4 (net_ip n) of Some b \<Rightarrow> b | None \<Rightarrow> net_ip n); m = net_mask n
      in if length ip \<noteq> 4 \<and> length ip \<noteq> 16 then None
         else if length m = 4 then (if length ip \<noteq> 4 then None else Some (ip, m))
         else if length m = 16 then Some (ip, if length ip = 4 then drop 12 m else m)
         else None)"

definition NetContains :: "ipnet \<Rightarrow> ip \<Rightarrow> bool" where
  "NetContains n ip =
     (case networkNumberAndMask n of None \<Rightarrow> False
      | Some (nn, m) \<Rightarrow>
         (let i = (case To4 ip of Some b \<Rightarrow> b | None \<Rightarrow> ip)
          in length i = length nn \<and> map2 (AND) nn m = map2 (AND) i m))"

section \<open>Host and port\<close>

definition SplitHostPort :: "string \<Rightarrow> (string \<times> string) option" where
  "SplitHostPort hp =
     (case LastIndexByte hp CHR '':'' of None \<Rightarrow> None
      | Some i \<Rightarrow>
         if HasPrefix hp ''['' then
           (case IndexByte hp CHR '']'' of None \<Rightarrow> None
            | Some e \<Rightarrow>
               if Suc e \<noteq> i then None
               else if CHR ''['' \<in> set (drop 1 hp) \<or> CHR '']'' \<in> set (drop (Suc e) hp) then None
               else Some (drop 1 (take e hp), drop (Suc i) hp))
         else if CHR '':'' \<in> set (take i hp) then None
         else if CHR ''['' \<in> set hp \<or> CHR '']'' \<in> set hp then None
         else Some (take i hp, drop (Suc i) hp))"

section \<open>Groups of an IPv6 address, for the proofs below\<close>

definition group_range :: "int list \<Rightarrow> bool" where
  "group_range gs \<longleftrightarrow> (\<forall>g \<in> set gs. 0 \<le> g \<and> g < 65536)"

definition groups_bytes :: "int list \<Rightarrow> byte list" where
  "groups_bytes gs = concat (map group_bytes gs)"

section \<open>Printing and parsing back: dotted decimal\<close>

lemma pos_dec_no_char:
  assumes "0 \<le> n" "\<not> is_digit c"
  shows "c \<notin> set (pos_dec n)"
  using list_all_digit_pos_dec [OF assms(1)] assms(2) by (auto simp: list_all_iff)

lemma ipv4_field_pos_dec: "ipv4_field (pos_dec (uint (b :: byte))) = Some b"
proof -
  have u: "0 \<le> uint b" "uint b < 256" using uint_lt2p [of b] by auto
  have "\<not> (1 < length (pos_dec (uint b)) \<and> hd (pos_dec (uint b)) = CHR ''0'')"
  proof (cases "uint b = 0")
    case True
    then show ?thesis by (simp add: pos_dec.simps [of 0])
  next
    case False
    then show ?thesis using pos_dec_hd [of "uint b"] u by simp
  qed
  with u show ?thesis by (simp add: ipv4_field_def)
qed

lemma parse_string4: "length b = 4 \<Longrightarrow> parseIPv4Fields (string4 b) = Some b"
proof -
  assume l: "length b = 4"
  have "\<not> is_digit (CHR ''.'')" by code_simp
  then have "\<forall>p \<in> set (map (\<lambda>x. pos_dec (uint x)) b). CHR ''.'' \<notin> set p"
    by (auto dest: pos_dec_no_char [rotated])
  with l have "SplitByte (string4 b) (CHR ''.'') = map (\<lambda>x. pos_dec (uint x)) b"
    unfolding string4_def by (intro SplitByte_JoinBy) auto
  with l show ?thesis
    by (auto simp: parseIPv4Fields_def ipv4_field_pos_dec numeral_eq_Suc length_Suc_conv)
qed

lemma addr_kind_append: "(\<forall>c \<in> set s. c \<noteq> CHR ''.'' \<and> c \<noteq> CHR '':'' \<and> c \<noteq> CHR ''%'') \<Longrightarrow> addr_kind (s @ t) = addr_kind t"
  by (induction s) auto

lemma addr_kind_pos_dec: "0 \<le> n \<Longrightarrow> addr_kind (pos_dec n @ t) = addr_kind t"
proof (rule addr_kind_append)
  assume n: "0 \<le> n"
  have "\<not> is_digit (CHR ''.'')" "\<not> is_digit (CHR '':'')" "\<not> is_digit (CHR ''%'')" by code_simp+
  with n show "\<forall>c \<in> set (pos_dec n). c \<noteq> CHR ''.'' \<and> c \<noteq> CHR '':'' \<and> c \<noteq> CHR ''%''"
    by (metis pos_dec_no_char)
qed

lemma ParseIP_string4: "length b = 4 \<Longrightarrow> ParseIP (string4 b) = Some (v4InV6Prefix @ b)"
proof -
  assume l: "length b = 4"
  then have "addr_kind (string4 b) = Some (CHR ''.'')"
    by (auto simp: string4_def numeral_eq_Suc length_Suc_conv addr_kind_pos_dec)
  with l show ?thesis by (simp add: ParseIP_def ParseAddr_def parse_string4)
qed

lemma hex_digit_hex:
  assumes "d < 16"
  shows "is_hex (hex_digit d)" "hex_val (hex_digit d) = Some (int d)"
  using assms by (auto simp: is_hex_def hex_val_def hex_digit_def Let_def)

lemma hex_acc_append [simp]: "hex_acc acc (xs @ ys) = hex_acc (hex_acc acc xs) ys"
  by (induction xs arbitrary: acc) auto

lemma appendHex_hex: "0 \<le> n \<Longrightarrow> list_all is_hex (appendHex n)"
proof (induction n rule: appendHex.induct)
  case (1 n)
  then show ?case by (cases "n < 16") (auto simp: appendHex.simps [of n] hex_digit_hex nat_less_iff)
qed

lemma hex_acc_appendHex: "0 \<le> n \<Longrightarrow> hex_acc 0 (appendHex n) = n"
proof (induction n rule: appendHex.induct)
  case (1 n)
  then show ?case by (cases "n < 16") (auto simp: appendHex.simps [of n] hex_digit_hex nat_less_iff)
qed

lemma appendHex_nonempty [simp]: "appendHex n \<noteq> []"
  by (subst appendHex.simps) simp

lemma length_appendHex: "n < 16 ^ Suc k \<Longrightarrow> length (appendHex n) \<le> Suc k"
proof (induction k arbitrary: n)
  case 0
  then show ?case by (simp add: appendHex.simps [of n])
next
  case (Suc k)
  then have "n div 16 < 16 ^ Suc k" by auto
  with Suc.IH [of "n div 16"] show ?case by (simp add: appendHex.simps [of n])
qed
section \<open>Printing and parsing back: IPv6\<close>

lemma groups_bytes_simps [simp]:
  "groups_bytes [] = []"
  "groups_bytes (g # gs) = group_bytes g @ groups_bytes gs"
  "groups_bytes (gs @ hs) = groups_bytes gs @ groups_bytes hs"
  by (simp_all add: groups_bytes_def)

lemma length_group_bytes [simp]: "length (group_bytes g) = 2"
  by (simp add: group_bytes_def)

lemma length_groups_bytes [simp]: "length (groups_bytes gs) = 2 * length gs"
  by (induction gs) auto

lemma groups_bytes_zeros: "groups_bytes (replicate n 0) = replicate (2 * n) 0"
  by (induction n) (auto simp: group_bytes_def)

lemma group_bytes_combine: "group_bytes (256 * uint a + uint b) = [a, b]" for a b :: byte
proof -
  have b: "0 \<le> uint b" "uint b < 256" using uint_lt2p [of b] by auto
  then have "(256 * uint a + uint b) div 256 = uint a" by simp
  moreover have "(word_of_int (256 * uint a + uint b) :: byte) = b"
  proof -
    have z: "(256 :: byte) = 0" by simp
    have "256 * a = 0" unfolding z by simp
    then show ?thesis by simp
  qed
  ultimately show ?thesis by (simp add: group_bytes_def)
qed

lemma groups_bytes_v6_groups: "even (length b) \<Longrightarrow> groups_bytes (v6_groups b) = b"
  by (induction b rule: v6_groups.induct) (auto simp: group_bytes_combine)

lemma length_v6_groups: "length (v6_groups b) = length b div 2"
  by (induction b rule: v6_groups.induct) auto

lemma group_range_v6_groups: "group_range (v6_groups b)"
proof (induction b rule: v6_groups.induct)
  case (1 a b rest)
  have "uint a < 256" "uint b < 256" using uint_lt2p [of a] uint_lt2p [of b] by auto
  with 1 show ?case by (auto simp: group_range_def)
qed (auto simp: group_range_def)

lemma not_hex_colon [simp]: "\<not> is_hex (CHR '':'')" "\<not> is_hex (CHR ''.'')" "\<not> is_hex (CHR ''%'')"
  by code_simp+

lemma takeWhile_appendHex:
  "0 \<le> g \<Longrightarrow> takeWhile is_hex (appendHex g) = appendHex g"
  "0 \<le> g \<Longrightarrow> dropWhile is_hex (appendHex g) = []"
  "0 \<le> g \<Longrightarrow> takeWhile is_hex (appendHex g @ CHR '':'' # t) = appendHex g"
  "0 \<le> g \<Longrightarrow> dropWhile is_hex (appendHex g @ CHR '':'' # t) = CHR '':'' # t"
  using appendHex_hex [of g] by (auto simp: list_all_iff takeWhile_append dropWhile_append)

lemma length_appendHex_group: "g < 65536 \<Longrightarrow> length (appendHex g) \<le> 4"
  using length_appendHex [of g 3] by simp

lemma v6_loop_last:
  assumes "0 \<le> g" "g < 65536" "length acc < 16"
  shows "v6_loop (appendHex g) acc ell = Some (acc @ group_bytes g, ell)"
  using assms length_appendHex_group [of g]
  by (subst v6_loop.simps) (simp add: takeWhile_appendHex hex_acc_appendHex Let_def)

lemma v6_loop_colon:
  assumes "0 \<le> g" "g < 65536" "length acc < 16" "t \<noteq> []" "hd t \<noteq> CHR '':''"
  shows "v6_loop (appendHex g @ CHR '':'' # t) acc ell = v6_loop t (acc @ group_bytes g) ell"
  using assms length_appendHex_group [of g]
  by (subst v6_loop.simps) (simp add: takeWhile_appendHex hex_acc_appendHex Let_def)

lemma v6_loop_ellipsis:
  assumes "0 \<le> g" "g < 65536" "length acc < 16"
  shows "v6_loop (appendHex g @ CHR '':'' # CHR '':'' # t) acc None =
    (if t = [] then Some (acc @ group_bytes g, Some (length acc + 2))
     else v6_loop t (acc @ group_bytes g) (Some (length acc + 2)))"
  using assms length_appendHex_group [of g]
  by (subst v6_loop.simps) (simp add: takeWhile_appendHex hex_acc_appendHex Let_def)

lemma hd_appendHex: "0 \<le> g \<Longrightarrow> hd (appendHex g) \<noteq> CHR '':''"
  using appendHex_hex [of g] not_hex_colon(1) by (cases "appendHex g") auto

lemma join6_Cons: "gs \<noteq> [] \<Longrightarrow> join6 (g # gs) = appendHex g @ CHR '':'' # join6 gs"
  by (cases gs) (auto simp: join6_def)

lemma join6_simps [simp]: "join6 [] = []" "join6 [g] = appendHex g"
  by (auto simp: join6_def)

lemma join6_nonempty: "gs \<noteq> [] \<Longrightarrow> join6 gs \<noteq> []"
  by (cases gs; cases "tl gs") (auto simp: join6_def)

lemma hd_join6: "gs \<noteq> [] \<Longrightarrow> group_range gs \<Longrightarrow> hd (join6 gs @ t) \<noteq> CHR '':''"
  by (cases gs; cases "tl gs") (auto simp: join6_Cons hd_appendHex group_range_def)

lemma v6_loop_groups:
  assumes "gs \<noteq> []" "group_range gs" "length acc + 2 * length gs \<le> 16"
  shows "v6_loop (join6 gs) acc ell = Some (acc @ groups_bytes gs, ell)"
  using assms
proof (induction gs arbitrary: acc)
  case Nil
  then show ?case by simp
next
  case (Cons g gs)
  show ?case
  proof (cases "gs = []")
    case True
    with Cons.prems show ?thesis by (simp add: v6_loop_last group_range_def)
  next
    case False
    with Cons.prems Cons.IH [of "acc @ group_bytes g"] hd_join6 [of gs "[]"] show ?thesis
      by (simp add: v6_loop_colon group_range_def join6_Cons join6_nonempty)
  qed
qed

lemma v6_loop_groups_ellipsis:
  assumes "gs \<noteq> []" "group_range gs" "length acc + 2 * length gs \<le> 16"
  shows "v6_loop (join6 gs @ CHR '':'' # CHR '':'' # t) acc None =
    (if t = [] then Some (acc @ groups_bytes gs, Some (length acc + 2 * length gs))
     else v6_loop t (acc @ groups_bytes gs) (Some (length acc + 2 * length gs)))"
  using assms
proof (induction gs arbitrary: acc)
  case Nil
  then show ?case by simp
next
  case (Cons g gs)
  show ?case
  proof (cases "gs = []")
    case True
    with Cons.prems show ?thesis by (simp add: v6_loop_ellipsis group_range_def)
  next
    case False
    with Cons.prems Cons.IH [of "acc @ group_bytes g"] hd_join6 [of gs "CHR '':'' # CHR '':'' # t"] show ?thesis
      by (simp add: v6_loop_colon group_range_def join6_Cons join6_nonempty)
  qed
qed

lemma takeWhile_zero_split:
  "drop i gs = replicate (length (takeWhile (\<lambda>g. g = 0) (drop i gs))) 0
     @ drop (i + length (takeWhile (\<lambda>g. g = (0::int)) (drop i gs))) gs"
proof -
  let ?t = "takeWhile (\<lambda>g. g = 0) (drop i gs)"
  have "?t = replicate (length ?t) 0"
    by (rule replicate_eqI) (auto dest: set_takeWhileD)
  moreover have "drop i gs = ?t @ drop (length ?t) (drop i gs)"
    by (metis dropWhile_eq_drop takeWhile_dropWhile_id)
  ultimately show ?thesis by (metis add.commute drop_drop)
qed

lemma zero_run_spec:
  assumes "length gs = 8" "zero_run gs = (st, en)"
  shows "st = 255 \<or> st + 2 \<le> en \<and> en \<le> 8 \<and> gs = take st gs @ replicate (en - st) 0 @ drop en gs"
proof -
  let ?P = "\<lambda>(st, en). st = 255 \<or> st + 2 \<le> en \<and> en \<le> 8 \<and> gs = take st gs @ replicate (en - st) 0 @ drop en gs"
  have "?P (zero_run gs)"
    unfolding zero_run_def
  proof (rule foldl_invariant)
    fix s :: "nat \<times> nat" and i
    assume i: "i \<in> set [0..<8]" and P: "?P s"
    let ?n = "length (takeWhile (\<lambda>g. g = 0) (drop i gs))"
    have "?n \<le> length (drop i gs)" by (rule length_takeWhile_le)
    with i assms(1) have "i + ?n \<le> 8" by auto
    moreover have "gs = take i gs @ replicate ?n 0 @ drop (i + ?n) gs"
      using takeWhile_zero_split [of i gs] by (metis append_take_drop_id)
    ultimately have "2 \<le> ?n \<Longrightarrow> ?P (i, i + ?n)" by simp
    with P show "?P ((\<lambda>(st, en) i. let j = i + length (takeWhile (\<lambda>g. g = 0) (drop i gs))
        in if 2 \<le> j - i \<and> en - st < j - i then (i, j) else (st, en)) s i)"
      by (cases s) (simp add: Let_def)
  qed simp
  with assms(2) show ?thesis by simp
qed

lemma join6_chars: "group_range gs \<Longrightarrow> c \<in> set (join6 gs) \<Longrightarrow> is_hex c \<or> c = CHR '':''"
proof (induction gs)
  case (Cons g gs)
  then show ?case
    using appendHex_hex [of g]
    by (cases "gs = []") (auto simp: join6_Cons group_range_def list_all_iff)
qed simp

lemma addr_kind_appendHex: "0 \<le> g \<Longrightarrow> addr_kind (appendHex g @ CHR '':'' # t) = Some (CHR '':'')"
  using appendHex_hex [of g] by (subst addr_kind_append) (auto simp: list_all_iff)

lemma addr_kind_join6:
  assumes "group_range gs" "gs \<noteq> []"
  shows "addr_kind (join6 gs @ CHR '':'' # t) = Some (CHR '':'')"
  using assms
  by (cases gs; cases "tl gs = []") (auto simp: join6_Cons addr_kind_appendHex group_range_def)

lemma group_range_split:
  "group_range gs \<Longrightarrow> group_range (take n gs)" "group_range gs \<Longrightarrow> group_range (drop n gs)"
  by (auto simp: group_range_def dest: in_set_takeD in_set_dropD)

lemma HasPrefix_colons_join6:
  "gs \<noteq> [] \<Longrightarrow> group_range gs \<Longrightarrow> \<not> HasPrefix (join6 gs @ t) ''::''"
  using hd_join6 [of gs t] join6_nonempty [of gs]
  by (cases "join6 gs @ t") (auto simp: HasPrefix_def)

lemma parseIPv6_join6:
  assumes "length gs = 8" "group_range gs"
  shows "parseIPv6 (join6 gs) = Some (groups_bytes gs)"
proof -
  have ne: "gs \<noteq> []" using assms(1) by auto
  have "CHR ''%'' \<notin> set (join6 gs)" using join6_chars [OF assms(2), of "CHR ''%''"] by auto
  moreover have "join6 gs \<noteq> ''::''" using hd_join6 [OF ne assms(2), of "[]"] by (intro notI) simp
  moreover have "\<not> HasPrefix (join6 gs) ''::''" using HasPrefix_colons_join6 [OF ne assms(2), of "[]"] by simp
  ultimately show ?thesis
    using assms ne by (simp add: parseIPv6_def v6_loop_groups expand_ellipsis_def)
qed

lemma parseIPv6_compressed:
  assumes "length ps + length qs < 8" "group_range ps" "group_range qs"
  shows "parseIPv6 (join6 ps @ CHR '':'' # CHR '':'' # join6 qs) =
    Some (groups_bytes ps @ replicate (16 - 2 * (length ps + length qs)) 0 @ groups_bytes qs)"
proof -
  let ?s = "join6 ps @ CHR '':'' # CHR '':'' # join6 qs"
  have p: "CHR ''%'' \<notin> set ?s"
    using join6_chars [OF assms(2), of "CHR ''%''"] join6_chars [OF assms(3), of "CHR ''%''"] by auto
  show ?thesis
  proof (cases "ps = []")
    case True
    then show ?thesis
      using p assms by (cases "qs = []") (auto simp: parseIPv6_def HasPrefix_def v6_loop_groups
          join6_nonempty expand_ellipsis_def)
  next
    case False
    then have np: "\<not> HasPrefix ?s ''::''"
      using HasPrefix_colons_join6 [OF False assms(2)] by blast
    moreover have "HasPrefix ''::'' ''::''" by (simp add: HasPrefix_def)
    ultimately have "?s \<noteq> ''::''" by metis
    with np p False assms show ?thesis
      by (cases "qs = []") (auto simp: parseIPv6_def v6_loop_groups v6_loop_groups_ellipsis
          join6_nonempty expand_ellipsis_def)
  qed
qed

lemma ParseIP_string6:
  assumes "length b = 16"
  shows "ParseIP (string6 b) = Some b"
proof -
  let ?gs = "v6_groups b"
  obtain st en where z: "zero_run ?gs = (st, en)" by fastforce
  have l: "length ?gs = 8" and r: "group_range ?gs" and gb: "groups_bytes ?gs = b"
    using assms by (simp_all add: length_v6_groups group_range_v6_groups groups_bytes_v6_groups)
  show ?thesis
  proof (cases "st = 255")
    case True
    obtain g hs where gs: "?gs = g # hs" "hs \<noteq> []"
      using l by (cases ?gs; cases "tl ?gs") auto
    have "addr_kind (join6 ?gs) = Some (CHR '':'')"
      using gs r by (simp add: join6_Cons addr_kind_appendHex group_range_def)
    with True z l r gb show ?thesis
      by (simp add: string6_def ParseIP_def ParseAddr_def parseIPv6_join6)
  next
    case False
    let ?ps = "take st ?gs" and ?qs = "drop en ?gs"
    have e: "st + 2 \<le> en" "en \<le> 8" "?gs = ?ps @ replicate (en - st) 0 @ ?qs"
      using zero_run_spec [OF l z] False by auto
    have "addr_kind (join6 ?ps @ ''::'' @ join6 ?qs) = Some (CHR '':'')"
      using group_range_split(1) [OF r, of st] addr_kind_join6 [of ?ps "CHR '':'' # join6 ?qs"]
      by (cases "?ps = []") (auto simp del: take_eq_Nil)
    moreover have "length ?ps + length ?qs < 8" "16 - 2 * (length ?ps + length ?qs) = 2 * (en - st)"
      using e l by auto
    ultimately have "ParseIP (string6 b) =
        Some (groups_bytes ?ps @ replicate (2 * (en - st)) 0 @ groups_bytes ?qs)"
      using False z group_range_split [OF r]
      by (simp add: string6_def ParseIP_def ParseAddr_def parseIPv6_compressed Let_def del: length_take length_drop)
    also have "\<dots> = Some (groups_bytes (?ps @ replicate (en - st) 0 @ ?qs))"
      by (simp add: groups_bytes_zeros)
    finally show ?thesis using e(3) gb by simp
  qed
qed

lemma ParseIP_IP_String: "length ip = 16 \<Longrightarrow> ParseIP (IP_String ip) = Some ip"
proof -
  assume l: "length ip = 16"
  show ?thesis
  proof (cases "take 12 ip = v4InV6Prefix")
    case True
    with l have "ParseIP (IP_String ip) = Some (take 12 ip @ drop 12 ip)"
      by (simp add: IP_String_def To4_def ParseIP_string4 del: append_take_drop_id)
    then show ?thesis by simp
  next
    case False
    with l show ?thesis by (simp add: IP_String_def To4_def ParseIP_string6)
  qed
qed
section \<open>What parses\<close>

lemma is_digit_is_hex: "is_digit c \<Longrightarrow> is_hex c"
  by (auto simp: is_digit_def is_hex_def hex_val_def Let_def)

lemma ipv4_field_canonical: "ipv4_field f = Some x \<Longrightarrow> pos_dec (uint x) = f \<and> list_all is_digit f"
proof -
  assume a: "ipv4_field f = Some x"
  then have f: "f \<noteq> []" "list_all is_digit f" "1 < length f \<longrightarrow> hd f \<noteq> CHR ''0''" "dec_val 0 f \<le> 255"
    and x: "x = word_of_int (dec_val 0 f)"
    by (auto simp: ipv4_field_def split: if_splits)
  note d = pos_dec_dec_val [OF f(1-3)]
  with f(4) have "uint x = dec_val 0 f"
    unfolding x by (simp add: uint_word_of_int)
  with d f show ?thesis by simp
qed

lemma ipv4_fields_canonical:
  "map ipv4_field fs = map Some b \<Longrightarrow>
     fs = map (\<lambda>x. pos_dec (uint x)) b \<and> (\<forall>f \<in> set fs. list_all is_digit f)"
  by (induction fs arbitrary: b) (auto dest: ipv4_field_canonical simp: map_eq_Cons_conv Cons_eq_map_conv)

lemma parseIPv4Fields_canonical:
  assumes "parseIPv4Fields s = Some b"
  shows "string4 b = s" "length b = 4" "\<forall>c \<in> set s. is_digit c \<or> c = CHR ''.''"
proof -
  let ?fs = "SplitByte s (CHR ''.'')"
  have "map ipv4_field ?fs = map Some b" "length b = 4"
    using assms by (auto simp: parseIPv4Fields_def split: list.splits option.splits)
  then have m: "?fs = map (\<lambda>x. pos_dec (uint x)) b" and d: "\<forall>f \<in> set ?fs. list_all is_digit f"
    by (auto dest: ipv4_fields_canonical)
  show "length b = 4" by fact
  show "string4 b = s" unfolding string4_def m [symmetric] by (rule JoinBy_SplitByte)
  show "\<forall>c \<in> set s. is_digit c \<or> c = CHR ''.''"
    using SplitByte_char [of _ s "CHR ''.''"] d by (fastforce simp: list_all_iff)
qed

lemma v6_loop_SomeE:
  assumes "v6_loop s acc ell = Some res" "length acc < 16"
  obtains (final) "\<forall>c \<in> set s. is_hex c" "length (fst res) = length acc + 2"
  | (v4) b where "parseIPv4Fields s = Some b" "length acc + 4 \<le> 16" "fst res = acc @ b"
  | (last) h where "\<forall>c \<in> set h. is_hex c" "s = h @ ''::''" "length (fst res) = length acc + 2"
  | (colons) h p t a ell' where "\<forall>c \<in> set h. is_hex c" "s = h @ p @ t" "p = '':'' \<or> p = ''::''"
      "length a = length acc + 2" "v6_loop t a ell' = Some res"
proof -
  let ?h = "takeWhile is_hex s" and ?r = "dropWhile is_hex s"
  let ?a = "acc @ group_bytes (hex_acc 0 ?h)"
  have s: "s = ?h @ ?r" by simp
  have h: "\<forall>c \<in> set ?h. is_hex c" by (auto dest: set_takeWhileD)
  note u = assms(1) [unfolded v6_loop.simps [of s acc ell] Let_def]
  have nh: "?h \<noteq> []" "length ?h \<le> 4" using u assms(2) by (auto split: if_splits)
  show thesis
  proof (cases ?r)
    case Nil
    then have "s = ?h" by (metis append_Nil2 takeWhile_dropWhile_id)
    with Nil u assms(2) nh h show thesis by (intro final) (auto split: if_splits)
  next
    case (Cons x r')
    consider (dot) "x = CHR ''.''" | (one) "x = CHR '':''" "r' \<noteq> []" "hd r' \<noteq> CHR '':''"
      | (two) t where "x = CHR '':''" "r' = CHR '':'' # t"
      using u assms(2) nh Cons by (cases r') (auto split: if_splits)
    then show thesis
    proof cases
      case dot
      with u assms(2) nh Cons show thesis by (auto split: if_splits intro: v4)
    next
      case one
      with u assms(2) nh Cons h s show thesis
        by (intro colons [of ?h "'':''" r' ?a ell]) (auto split: if_splits)
    next
      case two
      show thesis
      proof (cases "t = []")
        case True
        with u assms(2) nh Cons h s two show thesis by (intro last [of ?h]) (auto split: if_splits)
      next
        case False
        with u assms(2) nh Cons h s two show thesis
          by (intro colons [of ?h "''::''" t ?a "Some (length ?a)"]) (auto split: if_splits)
      qed
    qed
  qed
qed

lemma v6_loop_props:
  "v6_loop s acc ell = Some res \<Longrightarrow> even (length acc) \<Longrightarrow> length acc \<le> 16 \<Longrightarrow>
     length (fst res) \<le> 16 \<and> (\<forall>c \<in> set s. is_hex c \<or> c = CHR ''.'' \<or> c = CHR '':'')"
proof (induction "length s" arbitrary: s acc ell rule: less_induct)
  case less
  show ?case
  proof (cases "length acc < 16")
    case False
    with less.prems show ?thesis by (auto simp: v6_loop.simps [of s acc ell] split: if_splits)
  next
    case True
    with less.prems(2) have l: "length acc + 2 \<le> 16" by presburger
    from less.prems(1) True show ?thesis
    proof (cases rule: v6_loop_SomeE)
      case (v4 b)
      then show ?thesis using parseIPv4Fields_canonical [of s b] by (auto simp: is_digit_is_hex)
    next
      case (colons h p t a ell')
      then have "length t < length s" by auto
      with less.hyps [of t a ell'] colons l less.prems(2) show ?thesis by auto
    qed (use l in auto)
  qed
qed

lemma parseIPv6_props:
  assumes "parseIPv6 s = Some b"
  shows "length b = 16" "\<forall>c \<in> set s. is_hex c \<or> c = CHR ''.'' \<or> c = CHR '':''"
proof -
  consider (zero) "s = ''::''" "b = replicate 16 0"
    | (ell) r where "HasPrefix s ''::''" "v6_loop (drop 2 s) [] (Some 0) = Some r" "expand_ellipsis r = Some b"
    | (plain) r where "v6_loop s [] None = Some r" "expand_ellipsis r = Some b"
    using assms by (auto simp: parseIPv6_def bind_eq_Some_conv split: if_splits)
  note cs = this
  have ex: "length b = 16" if "length (fst r) \<le> 16" "expand_ellipsis r = Some b" for r
    using that by (auto simp: expand_ellipsis_def split: prod.splits if_splits)
  from cs show "length b = 16"
    using v6_loop_props ex by cases (simp, (metis even_zero le0 list.size(3))+)
  from cs show "\<forall>c \<in> set s. is_hex c \<or> c = CHR ''.'' \<or> c = CHR '':''"
  proof cases
    case (ell r)
    then have "\<forall>c \<in> set (drop 2 s). is_hex c \<or> c = CHR ''.'' \<or> c = CHR '':''"
      using v6_loop_props [of "drop 2 s" "[]" "Some 0"] by (cases r) auto
    moreover have "set s = set (take 2 s) \<union> set (drop 2 s)" by (metis append_take_drop_id set_append)
    ultimately show ?thesis using ell(1) by (auto simp: HasPrefix_def numeral_2_eq_2)
  next
    case (plain r)
    then show ?thesis using v6_loop_props [of s "[]" None] by (cases r) auto
  qed simp
qed

lemma ParseIP_props:
  assumes "ParseIP s = Some ip"
  shows "length ip = 16" "\<forall>c \<in> set s. is_hex c \<or> c = CHR ''.'' \<or> c = CHR '':''" "s \<noteq> []"
proof -
  show "s \<noteq> []" using assms by (auto simp: ParseIP_def ParseAddr_def)
  consider b where "parseIPv4Fields s = Some b" "ip = v4InV6Prefix @ b" | "parseIPv6 s = Some ip"
    using assms by (auto simp: ParseIP_def ParseAddr_def split: if_splits)
  then show "length ip = 16" "\<forall>c \<in> set s. is_hex c \<or> c = CHR ''.'' \<or> c = CHR '':''"
    by (cases; fastforce dest: parseIPv4Fields_canonical parseIPv6_props is_digit_is_hex simp: v4InV6Prefix_def)+
qed

lemma IP_String_inject:
  "length a = 16 \<Longrightarrow> length b = 16 \<Longrightarrow> IP_String a = IP_String b \<longleftrightarrow> a = b"
  by (metis ParseIP_IP_String option.inject)

lemma IP_String_nonempty: "length a = 16 \<Longrightarrow> IP_String a \<noteq> []"
  using ParseIP_IP_String [of a] ParseIP_props(3) by metis

lemma ParseIP_no_colon:
  assumes "ParseIP s = Some ip" "CHR '':'' \<notin> set s"
  shows "IP_String ip = s"
proof -
  have "addr_kind s \<noteq> Some (CHR '':'')" using assms(2) by (induction s) auto
  then obtain b where "parseIPv4Fields s = Some b" "ip = v4InV6Prefix @ b"
    using assms(1) by (auto simp: ParseIP_def ParseAddr_def split: if_splits)
  then show ?thesis
    using parseIPv4Fields_canonical [of s b] by (simp add: IP_String_def To4_def v4InV6Prefix_def)
qed

lemma is_hex_byte: "is_hex c \<Longrightarrow> (48 \<le> byte_of c \<and> byte_of c \<le> 57) \<or> (97 \<le> byte_of c \<and> byte_of c \<le> 102)
   \<or> (65 \<le> byte_of c \<and> byte_of c \<le> 70)"
  by (auto simp: is_hex_def hex_val_def Let_def split: if_splits)

lemma ip_char_not:
  assumes "is_hex c \<or> c = CHR ''.'' \<or> c = CHR '':''"
  shows "c \<noteq> CHR ''*''" "c \<noteq> CHR ''?''" "c \<noteq> CHR ''/''" "c \<noteq> CHR ''[''"
  using assms by (auto dest!: is_hex_byte)

lemma ParseIP_shape:
  assumes "ParseIP s = Some ip"
  shows "\<not> HasPrefix s ''*.''" "\<not> Contains s ''*''" "\<not> Contains s ''?''" "ParseCIDR s = None"
    "\<not> HasPrefix s ''[''"
proof -
  note c = ParseIP_props(2) [OF assms]
  have m: "CHR ''*'' \<notin> set s" "CHR ''?'' \<notin> set s" "CHR ''/'' \<notin> set s" "CHR ''['' \<notin> set s"
    using c ip_char_not [of "CHR ''*''"] ip_char_not [of "CHR ''?''"] ip_char_not [of "CHR ''/''"]
      ip_char_not [of "CHR ''[''"] by auto
  then show "\<not> Contains s ''*''" "\<not> Contains s ''?''" "ParseCIDR s = None"
    by (simp_all add: Contains_char ParseCIDR_def IndexByte_None)
  show "\<not> HasPrefix s ''*.''" "\<not> HasPrefix s ''[''"
    using m by (cases s; auto simp: HasPrefix_def)+
qed

end
