(* ===== verification/Config_Data.thy ===== *)
theory Config_Data
  imports Go_Prelude
begin

text \<open>
  The configuration document of \<^verbatim>\<open>config.go\<close>, one record per struct, the fields in the
  order of the source. Field names carry a short prefix, because several structs share a name:
  \<open>px_\<close> for \<open>ProxySettings\<close>, \<open>lg_\<close> for \<open>LogSettings\<close>, \<open>gr_\<close>
  for \<open>GlobalRules\<close>, \<open>st_\<close> for \<open>UserStats\<close>, \<open>u_\<close> for \<open>User\<close>,
  \<open>c_\<close> for \<open>Config\<close>. Go's \<open>int\<close> and \<open>int64\<close> fields are \<^typ>\<open>int\<close>,
  the \<open>uint64\<close> counters \<^typ>\<open>uint64\<close>, which wrap around.
\<close>

record ProxySettings =
  px_Enabled :: bool
  px_ListenAddr :: string
  px_AdminListenAddr :: string
  px_RequireAuth :: bool
  px_AllowHTTP :: bool
  px_AllowHTTPS :: bool
  px_ConnectTimeoutSec :: int
  px_ReadTimeoutSec :: int
  px_DefaultMaxConns :: int
  px_MaxGlobalConns :: int

record LogSettings =
  lg_RingSize :: int
  lg_FileMaxMB :: int
  lg_ToFile :: bool

record GlobalRules =
  gr_WhitelistOnly :: bool
  gr_Whitelist :: "string list"
  gr_Blacklist :: "string list"

record UserStats =
  st_Requests :: uint64
  st_BytesIn :: uint64
  st_BytesOut :: uint64
  st_LastRequestAt :: string

record User =
  u_ID :: string
  u_Username :: string
  u_PasswordHash :: string
  u_Enabled :: bool
  u_Role :: string
  u_WhitelistOnly :: bool
  u_Whitelist :: "string list"
  u_Blacklist :: "string list"
  u_MaxConns :: int
  u_DailyTrafficMB :: int
  u_CreatedAt :: string
  u_LastUsedAt :: string
  u_Stats :: UserStats
  u_TokenEpoch :: int

record Config =
  c_Version :: int
  c_SessionKey :: string
  c_Proxy :: ProxySettings
  c_GlobalRules :: GlobalRules
  c_Logs :: LogSettings
  c_Users :: "User list"

end
