(* ===== verification/Rules.thy ===== *)
theory Rules
  imports Net_Addr Config_Data
begin

text \<open>
  \<^verbatim>\<open>rules.go\<close>: compiled patterns, host normalisation and the decision procedure of the rules
  engine. The regular expressions the code builds are the anchored translations of host globs,
  so a compiled regular expression is the list of its items.
\<close>

section \<open>Patterns\<close>

datatype re_item = ReLit nat | ReAny | ReAnyStar

type_synonym regexp = "re_item list"

record Rule =
  r_pattern :: string
  r_exact :: string
  r_suffix :: string
  r_regex :: "regexp option"
  r_cidr :: "ipnet option"

text \<open>
  \<open>MatchString\<close> on \<open>^\<dots>$\<close> works on runes: the dot matches every rune but the newline, and a
  byte that is not UTF-8 counts as the replacement character.
\<close>

function match_runes :: "regexp \<Rightarrow> nat list \<Rightarrow> bool" where
  "match_runes [] s = (s = [])"
| "match_runes (ReLit c # rs) s = (case s of [] \<Rightarrow> False | x # xs \<Rightarrow> x = c \<and> match_runes rs xs)"
| "match_runes (ReAny # rs) s = (case s of [] \<Rightarrow> False | x # xs \<Rightarrow> x \<noteq> 10 \<and> match_runes rs xs)"
| "match_runes (ReAnyStar # rs) s =
     (match_runes rs s
      \<or> (case s of [] \<Rightarrow> False | x # xs \<Rightarrow> x \<noteq> 10 \<and> match_runes (ReAnyStar # rs) xs))"
  by pat_completeness auto
termination
  by (relation "measure (\<lambda>(rs, s). length rs + length s)") auto

definition MatchString :: "regexp \<Rightarrow> string \<Rightarrow> bool" where
  "MatchString re s = match_runes re (runes s)"

definition glob_item :: "nat \<Rightarrow> re_item" where
  "glob_item c = (if c = byte_of CHR ''*'' then ReAnyStar else if c = byte_of CHR ''?'' then ReAny else ReLit c)"

definition globToRegexp :: "string \<Rightarrow> regexp" where
  "globToRegexp g = map glob_item (runes g)"

definition matches :: "Rule \<Rightarrow> string \<Rightarrow> bool" where
  "matches r host =
     (if r_exact r \<noteq> [] then host = r_exact r
      else if r_suffix r \<noteq> [] then host = r_suffix r \<or> HasSuffix host (CHR ''.'' # r_suffix r)
      else (case r_regex r of Some re \<Rightarrow> MatchString re host
        | None \<Rightarrow> (case r_cidr r of
              Some n \<Rightarrow> (case ParseIP host of Some ip \<Rightarrow> NetContains n ip | None \<Rightarrow> False)
            | None \<Rightarrow> False)))"

definition domain_char :: "char \<Rightarrow> bool" where
  "domain_char c \<longleftrightarrow>
     (97 \<le> byte_of c \<and> byte_of c \<le> 122) \<or> is_digit c
     \<or> c = CHR ''.'' \<or> c = CHR ''-'' \<or> c = CHR ''_''"

definition validDomainPart :: "string \<Rightarrow> bool" where
  "validDomainPart s = (if s = [] \<or> 253 < length s then False else list_all domain_char s)"

definition validHost :: "string \<Rightarrow> bool" where
  "validHost s = (if ParseIP s \<noteq> None then True else validDomainPart s)"

definition new_rule :: "string \<Rightarrow> Rule" where
  "new_rule p = \<lparr>r_pattern = p, r_exact = [], r_suffix = [], r_regex = None, r_cidr = None\<rparr>"

definition compilePattern :: "string \<Rightarrow> error + Rule" where
  "compilePattern p0 =
     (let r = new_rule p0; p = ToLower (TrimSpace p0) in
      if p = [] then Inl (ErrMsg ''empty pattern'')
      else if HasPrefix p ''*.'' then
        (let base = TrimPrefix p ''*.'' in
         if \<not> validDomainPart base then Inl (ErrMsg (''bad wildcard base '' @ quote base))
         else Inr (r\<lparr>r_suffix := base\<rparr>))
      else if Contains p ''*'' \<or> Contains p ''?'' then Inr (r\<lparr>r_regex := Some (globToRegexp p)\<rparr>)
      else (case ParseCIDR p of Some n \<Rightarrow> Inr (r\<lparr>r_cidr := Some n\<rparr>)
      | None \<Rightarrow> (case ParseIP p of Some ip \<Rightarrow> Inr (r\<lparr>r_exact := IP_String ip\<rparr>)
      | None \<Rightarrow>
          if validHost p then Inr (r\<lparr>r_exact := p\<rparr>)
          else Inl (ErrMsg (''unrecognized pattern '' @ quote p)))))"

fun matchAny :: "Rule list \<Rightarrow> string \<Rightarrow> Rule option" where
  "matchAny [] host = None"
| "matchAny (r # rs) host = (if matches r host then Some r else matchAny rs host)"

text \<open>Patterns that do not compile are skipped (with a log line, which is not modelled).\<close>

fun compileList :: "string list \<Rightarrow> Rule list" where
  "compileList [] = []"
| "compileList (p # ps) =
     (case compilePattern p of Inl e \<Rightarrow> compileList ps | Inr r \<Rightarrow> r # compileList ps)"

section \<open>The engine\<close>

record userRules =
  ur_whitelist :: "Rule list"
  ur_blacklist :: "Rule list"

record RulesEngine =
  globalWhitelistOnly :: bool
  globalBlack :: "Rule list"
  globalWhite :: "Rule list"
  userRulesMap :: "(string, userRules) gomap"

definition NewRulesEngine :: RulesEngine where
  "NewRulesEngine =
     \<lparr>globalWhitelistOnly = False, globalBlack = [], globalWhite = [], userRulesMap = fmempty\<rparr>"

definition rebuild_user :: "(string, userRules) gomap \<Rightarrow> User \<Rightarrow> (string, userRules) gomap" where
  "rebuild_user m u =
     fmupd (u_ID u) \<lparr>ur_whitelist = compileList (u_Whitelist u),
                     ur_blacklist = compileList (u_Blacklist u)\<rparr> m"

definition Rebuild :: "RulesEngine \<Rightarrow> Config \<Rightarrow> RulesEngine" where
  "Rebuild e cfg =
     e\<lparr>globalWhitelistOnly := gr_WhitelistOnly (c_GlobalRules cfg),
       globalBlack := compileList (gr_Blacklist (c_GlobalRules cfg)),
       globalWhite := compileList (gr_Whitelist (c_GlobalRules cfg)),
       userRulesMap := foldl rebuild_user fmempty (c_Users cfg)\<rparr>"

record RuleDecision =
  d_Allowed :: bool
  d_Reason :: string
  d_Matched :: string

definition isNumericPort :: "string \<Rightarrow> bool" where
  "isNumericPort p = (if p = [] \<or> 5 < length p then False else list_all is_digit p)"

definition strip_port :: "string \<Rightarrow> string" where
  "strip_port h =
     (case LastIndexByte h CHR '':'' of None \<Rightarrow> h
      | Some i \<Rightarrow>
         (let port = drop (Suc i) h in if port = [] \<or> isNumericPort port then take i h else h))"

definition normalizeHost :: "string \<Rightarrow> string" where
  "normalizeHost h0 =
     (let h = ToLower (TrimSpace h0);
          unbracketed = (case ParseIP h of Some ip \<Rightarrow> IP_String ip | None \<Rightarrow> strip_port h)
      in if h = [] then []
         else if HasPrefix h ''['' then
           (case IndexByte h CHR '']'' of
              Some i \<Rightarrow> (if 0 < i then drop 1 (take i h) else unbracketed)
            | None \<Rightarrow> unbracketed)
         else unbracketed)"

definition normalizeTarget :: "string \<Rightarrow> string" where
  "normalizeTarget s0 =
     (let s = ToLower (TrimSpace s0) in
      if s = [] then []
      else
        let (host, port) =
          (if HasPrefix s ''['' then
             (case IndexByte s CHR '']'' of
                Some i \<Rightarrow>
                  if 0 < i then
                    (drop 1 (take i s),
                     if HasPrefix (drop (Suc i) s) '':'' then drop 1 (drop (Suc i) s) else [])
                  else (s, [])
              | None \<Rightarrow> (s, []))
           else (case SplitHostPort s of Some (h, p) \<Rightarrow> (h, p) | None \<Rightarrow> (s, [])))
        in if host = [] then []
           else (if Contains host '':'' then ''['' @ host @ '']'' else host)
                @ '':'' @ (if port = [] then ''443'' else port))"

definition whitelistGate :: "string \<Rightarrow> userRules \<Rightarrow> Rule list \<Rightarrow> RuleDecision" where
  "whitelistGate h ur gw =
     (case matchAny (ur_whitelist ur) h of
        Some r \<Rightarrow> \<lparr>d_Allowed = True, d_Reason = [], d_Matched = r_pattern r\<rparr>
      | None \<Rightarrow>
         (case matchAny gw h of
            Some r \<Rightarrow> \<lparr>d_Allowed = True, d_Reason = [], d_Matched = r_pattern r\<rparr>
          | None \<Rightarrow> \<lparr>d_Allowed = False,
                      d_Reason = ''host not in whitelist (whitelist mode active)'',
                      d_Matched = []\<rparr>))"

definition no_rules :: userRules where
  "no_rules = \<lparr>ur_whitelist = [], ur_blacklist = []\<rparr>"

definition Evaluate :: "RulesEngine \<Rightarrow> User option \<Rightarrow> string \<Rightarrow> RuleDecision" where
  "Evaluate e user host =
     (let h = normalizeHost host in
      if h = [] then \<lparr>d_Allowed = False, d_Reason = ''empty host'', d_Matched = []\<rparr>
      else (case matchAny (globalBlack e) h of
        Some r \<Rightarrow> \<lparr>d_Allowed = False,
                    d_Reason = ''blocked by global blacklist rule '' @ quote (r_pattern r),
                    d_Matched = r_pattern r\<rparr>
      | None \<Rightarrow>
         (case Option.bind user (\<lambda>u. map_option (Pair u) (fmlookup (userRulesMap e) (u_ID u))) of
            None \<Rightarrow>
              (if globalWhitelistOnly e \<or> globalWhite e \<noteq> []
               then whitelistGate h no_rules (globalWhite e)
               else \<lparr>d_Allowed = True, d_Reason = [], d_Matched = []\<rparr>)
          | Some (u, ur) \<Rightarrow>
              (case matchAny (ur_blacklist ur) h of
                 Some r \<Rightarrow> \<lparr>d_Allowed = False,
                             d_Reason = ''blocked by user blacklist rule '' @ quote (r_pattern r),
                             d_Matched = r_pattern r\<rparr>
               | None \<Rightarrow>
                   (if globalWhitelistOnly e \<or> u_WhitelistOnly u
                       \<or> globalWhite e \<noteq> [] \<or> ur_whitelist ur \<noteq> []
                    then whitelistGate h ur (globalWhite e)
                    else \<lparr>d_Allowed = True, d_Reason = [], d_Matched = []\<rparr>)))))"

section \<open>What a rule list decides\<close>
definition pattern_matches :: "string \<Rightarrow> string \<Rightarrow> bool" where
  "pattern_matches p h = (case compilePattern p of Inl e \<Rightarrow> False | Inr r \<Rightarrow> matches r h)"

definition valid_pattern :: "string \<Rightarrow> bool" where
  "valid_pattern p \<longleftrightarrow> \<not> isl (compilePattern p)"

definition config_user :: "Config \<Rightarrow> string \<Rightarrow> User option" where
  "config_user cfg uid = find (\<lambda>v. u_ID v = uid) (rev (c_Users cfg))"

definition config_allows :: "Config \<Rightarrow> User option \<Rightarrow> string \<Rightarrow> bool" where
  "config_allows cfg user h =
     (let gr = c_GlobalRules cfg in
      h \<noteq> [] \<and> \<not> list_ex (\<lambda>p. pattern_matches p h) (gr_Blacklist gr)
      \<and> (case Option.bind user (\<lambda>u. map_option (Pair u) (config_user cfg (u_ID u))) of
           None \<Rightarrow>
             (gr_WhitelistOnly gr \<or> list_ex valid_pattern (gr_Whitelist gr)
              \<longrightarrow> list_ex (\<lambda>p. pattern_matches p h) (gr_Whitelist gr))
         | Some (u, v) \<Rightarrow>
             \<not> list_ex (\<lambda>p. pattern_matches p h) (u_Blacklist v)
             \<and> (gr_WhitelistOnly gr \<or> u_WhitelistOnly u
                \<or> list_ex valid_pattern (u_Whitelist v @ gr_Whitelist gr)
                \<longrightarrow> list_ex (\<lambda>p. pattern_matches p h) (u_Whitelist v @ gr_Whitelist gr))))"

lemma matchAny_None_iff: "matchAny rs h = None \<longleftrightarrow> \<not> list_ex (\<lambda>r. matches r h) rs"
  by (induction rs) auto

lemma matchAny_SomeD: "matchAny rs h = Some r \<Longrightarrow> r \<in> set rs \<and> matches r h"
  by (induction rs) (auto split: if_splits)

lemma list_ex_compileList: "list_ex (\<lambda>r. matches r h) (compileList ps) = list_ex (\<lambda>p. pattern_matches p h) ps"
  by (induction ps) (auto simp: pattern_matches_def split: sum.splits)

lemma matchAny_compileList:
  "matchAny (compileList ps) h = None \<longleftrightarrow> \<not> list_ex (\<lambda>p. pattern_matches p h) ps"
  by (simp add: matchAny_None_iff list_ex_compileList)

lemma compileList_Nil_iff: "compileList ps = [] \<longleftrightarrow> \<not> list_ex valid_pattern ps"
  by (induction ps) (auto simp: valid_pattern_def split: sum.splits)

lemma compilePattern_pattern: "compilePattern p = Inr r \<Longrightarrow> r_pattern r = p"
  by (auto simp: compilePattern_def new_rule_def Let_def split: if_splits option.splits)

lemma compileList_pattern: "r \<in> set (compileList ps) \<Longrightarrow> r_pattern r \<in> set ps \<and> compilePattern (r_pattern r) = Inr r"
  by (induction ps) (auto split: sum.splits simp: compilePattern_pattern)

lemma fmlookup_rebuild:
  "fmlookup (foldl rebuild_user m us) uid =
     (case find (\<lambda>v. u_ID v = uid) (rev us) of
        Some v \<Rightarrow> Some \<lparr>ur_whitelist = compileList (u_Whitelist v), ur_blacklist = compileList (u_Blacklist v)\<rparr>
      | None \<Rightarrow> fmlookup m uid)"
proof (induction us arbitrary: m rule: rev_induct)
  case Nil
  then show ?case by simp
next
  case (snoc u us)
  then show ?case by (simp add: rebuild_user_def)
qed

lemma fmlookup_Rebuild:
  "fmlookup (userRulesMap (Rebuild e cfg)) uid =
     map_option (\<lambda>v. \<lparr>ur_whitelist = compileList (u_Whitelist v), ur_blacklist = compileList (u_Blacklist v)\<rparr>)
       (config_user cfg uid)"
  by (simp add: Rebuild_def fmlookup_rebuild config_user_def split: option.splits)

lemma Rebuild_sel [simp]:
  "globalWhitelistOnly (Rebuild e cfg) = gr_WhitelistOnly (c_GlobalRules cfg)"
  "globalBlack (Rebuild e cfg) = compileList (gr_Blacklist (c_GlobalRules cfg))"
  "globalWhite (Rebuild e cfg) = compileList (gr_Whitelist (c_GlobalRules cfg))"
  by (simp_all add: Rebuild_def)

lemma whitelistGate_Allowed: "d_Allowed (whitelistGate h ur gw) = (list_ex (\<lambda>r. matches r h) (ur_whitelist ur @ gw))"
  by (auto simp: whitelistGate_def split: option.splits dest: matchAny_SomeD simp: matchAny_None_iff list_ex_iff)

lemma matchAny_compileList_cases:
  obtains (none) "matchAny (compileList ps) h = None" "\<not> list_ex (\<lambda>p. pattern_matches p h) ps"
  | (some) r where "matchAny (compileList ps) h = Some r" "list_ex (\<lambda>p. pattern_matches p h) ps"
  by (cases "matchAny (compileList ps) h") (use matchAny_compileList [of ps h] in auto)

lemma matchAny_compileList_SomeD:
  "matchAny (compileList ps) h = Some r \<Longrightarrow> pattern_matches (r_pattern r) h \<and> r_pattern r \<in> set ps"
  using matchAny_SomeD [of "compileList ps" h r] compileList_pattern [of r ps]
  by (auto simp: pattern_matches_def)

lemma config_user_in: "config_user cfg uid = Some v \<Longrightarrow> v \<in> set (c_Users cfg) \<and> u_ID v = uid"
proof -
  assume "config_user cfg uid = Some v"
  then have "v \<in> set (rev (c_Users cfg)) \<and> u_ID v = uid"
    unfolding config_user_def by (metis (mono_tags, lifting) find_Some_iff nth_mem)
  then show ?thesis by simp
qed

lemma config_user_None: "config_user cfg uid = None \<longleftrightarrow> (\<forall>v \<in> set (c_Users cfg). u_ID v \<noteq> uid)"
  by (auto simp: config_user_def find_None_iff)

definition user_patterns :: "(User \<Rightarrow> string list) \<Rightarrow> Config \<Rightarrow> User option \<Rightarrow> string list" where
  "user_patterns f cfg user =
     (case user of None \<Rightarrow> []
      | Some u \<Rightarrow> (case config_user cfg (u_ID u) of None \<Rightarrow> [] | Some v \<Rightarrow> f v))"

lemma matchAny_compileList_Some_cases:
  obtains (none) "matchAny (compileList ps) h = None"
  | (some) r where "matchAny (compileList ps) h = Some r" "pattern_matches (r_pattern r) h" "r_pattern r \<in> set ps"
  by (cases "matchAny (compileList ps) h") (auto dest: matchAny_compileList_SomeD)

definition explains :: "string list \<Rightarrow> string list \<Rightarrow> string \<Rightarrow> RuleDecision \<Rightarrow> bool" where
  "explains white black h d \<longleftrightarrow>
     (\<not> d_Allowed d \<longrightarrow> d_Reason d \<noteq> [])
     \<and> (d_Matched d \<noteq> [] \<longrightarrow> pattern_matches (d_Matched d) h
          \<and> d_Matched d \<in> set (if d_Allowed d then white else black))"

lemma explains_whitelistGate:
  "explains (ws @ gs) bs h
     (whitelistGate h \<lparr>ur_whitelist = compileList ws, ur_blacklist = b\<rparr> (compileList gs))"
  by (cases rule: matchAny_compileList_Some_cases [of ws h];
      cases rule: matchAny_compileList_Some_cases [of gs h])
    (auto simp: explains_def whitelistGate_def)

lemma explains_whitelistGate_none:
  "explains gs bs h (whitelistGate h no_rules (compileList gs))"
  using explains_whitelistGate [of "[]" gs bs h "[]"] by (simp add: no_rules_def)

section \<open>Globs\<close>

text \<open>
  What a glob means, written down apart from the translation: a star stands for any runes but
  newlines, a question mark for one rune that is no newline, every other rune for itself.
\<close>

inductive glob :: "nat list \<Rightarrow> nat list \<Rightarrow> bool" where
  glob_end: "glob [] []"
| glob_star: "10 \<notin> set xs \<Longrightarrow> glob g s \<Longrightarrow> glob (42 # g) (xs @ s)"
| glob_any: "x \<noteq> 10 \<Longrightarrow> glob g s \<Longrightarrow> glob (63 # g) (x # s)"
| glob_lit: "c \<noteq> 42 \<Longrightarrow> c \<noteq> 63 \<Longrightarrow> glob g s \<Longrightarrow> glob (c # g) (c # s)"

inductive_cases glob_EndE: "glob [] s"
inductive_cases glob_ConsE: "glob (c # g) s"

lemma glob_Nil [simp]: "glob [] s \<longleftrightarrow> s = []"
  by (auto intro: glob_end elim: glob_EndE)

lemma glob_Star: "glob (42 # g) s \<longleftrightarrow> glob g s \<or> (\<exists>x t. s = x # t \<and> x \<noteq> 10 \<and> glob (42 # g) t)"
proof
  assume "glob (42 # g) s"
  then obtain xs t where s: "s = xs @ t" "10 \<notin> set xs" "glob g t" by (auto elim: glob_ConsE)
  then show "glob g s \<or> (\<exists>x t. s = x # t \<and> x \<noteq> 10 \<and> glob (42 # g) t)"
    by (cases xs) (auto intro: glob_star)
next
  assume "glob g s \<or> (\<exists>x t. s = x # t \<and> x \<noteq> 10 \<and> glob (42 # g) t)"
  then show "glob (42 # g) s"
  proof (elim disjE exE conjE)
    fix x t assume s: "s = x # t" "x \<noteq> 10" "glob (42 # g) t"
    then obtain xs u where "t = xs @ u" "10 \<notin> set xs" "glob g u" by (auto elim: glob_ConsE)
    with s show ?thesis using glob_star [of "x # xs" g u] by simp
  qed (use glob_star [of "[]" g s] in simp)
qed

lemma glob_Any: "glob (63 # g) s \<longleftrightarrow> (\<exists>x t. s = x # t \<and> x \<noteq> 10 \<and> glob g t)"
  by (auto intro: glob_any elim: glob_ConsE)

lemma glob_Lit: "c \<noteq> 42 \<Longrightarrow> c \<noteq> 63 \<Longrightarrow> glob (c # g) s \<longleftrightarrow> (\<exists>t. s = c # t \<and> glob g t)"
  by (auto intro: glob_lit elim: glob_ConsE)

lemma match_runes_star: "match_runes (ReAnyStar # map glob_item g) s \<longleftrightarrow> glob (42 # g) s"
  if "\<And>s. match_runes (map glob_item g) s \<longleftrightarrow> glob g s"
proof (induction s)
  case Nil
  show ?case using glob_Star [of g "[]"] by (simp add: that)
next
  case (Cons x s)
  then show ?case using glob_Star [of g "x # s"] match_runes.simps(4) [of "map glob_item g" "x # s"] by (simp add: that)
qed

lemma match_runes_glob: "match_runes (map glob_item g) s \<longleftrightarrow> glob g s"
proof (induction g arbitrary: s)
  case (Cons c g)
  have codes: "byte_of CHR ''*'' = 42" "byte_of CHR ''?'' = 63" by code_simp+
  consider "c = 42" | "c = 63" | "c \<noteq> 42" "c \<noteq> 63" by blast
  then show ?case
  proof cases
    case 1
    then have "glob_item c = ReAnyStar" by (simp add: glob_item_def codes)
    then show ?thesis using match_runes_star [OF Cons.IH, of s] 1 by (simp only: list.map)
  next
    case 2
    then show ?thesis using Cons.IH by (cases s) (auto simp: glob_item_def codes glob_Any)
  next
    case 3
    then show ?thesis using Cons.IH by (cases s) (auto simp: glob_item_def codes glob_Lit)
  qed
qed simp

section \<open>Hosts with a port\<close>

lemma domain_char_byte: "domain_char c \<Longrightarrow>
    (97 \<le> byte_of c \<and> byte_of c \<le> 122) \<or> (45 \<le> byte_of c \<and> byte_of c \<le> 46) \<or> (48 \<le> byte_of c \<and> byte_of c \<le> 57) \<or> byte_of c = 95"
  by (auto simp: domain_char_def is_digit_def)

lemma domain_char_not:
  assumes "domain_char c"
  shows "c \<noteq> CHR '':''" "c \<noteq> CHR ''[''" "c \<noteq> CHR '']''" "c \<noteq> CHR ''%''" "\<not> is_space c"
  using domain_char_byte [OF assms] by (auto simp: is_space_def)

lemma lower_domain_char: "domain_char (lower_char c) \<Longrightarrow> \<not> is_space c"
  using domain_char_byte [of "lower_char c"] by (auto simp: lower_char_def is_space_def split: if_splits)

lemma port_digits: "p = [] \<or> isNumericPort p \<Longrightarrow> list_all is_digit p"
  by (auto simp: isNumericPort_def split: if_splits)

lemma ToLower_authority:
  assumes "validDomainPart (ToLower h)" "list_all is_digit p"
  shows "ToLower (TrimSpace (h @ CHR '':'' # p)) = ToLower h @ CHR '':'' # p"
    "ToLower (TrimSpace h) = ToLower h"
proof -
  have h: "list_all (\<lambda>c. \<not> is_space c) h"
    using assms(1) lower_domain_char by (auto simp: validDomainPart_def ToLower_def list_all_iff split: if_splits)
  moreover have "list_all (\<lambda>c. \<not> is_space c) p" using assms(2) digit_not by (auto simp: list_all_iff)
  moreover have "\<not> is_space (CHR '':'')" by code_simp
  ultimately have "TrimSpace (h @ CHR '':'' # p) = h @ CHR '':'' # p" by (intro TrimSpace_id) simp
  moreover have "lower_char (CHR '':'') = CHR '':''" by code_simp
  ultimately show "ToLower (TrimSpace (h @ CHR '':'' # p)) = ToLower h @ CHR '':'' # p"
    using ToLower_port [OF assms(2)] by (simp add: ToLower_def)
  from h show "ToLower (TrimSpace h) = ToLower h" by (simp add: TrimSpace_id)
qed

lemma v6_loop_authority:
  assumes "list_all domain_char h" "list_all is_digit p"
  shows "Option.bind (v6_loop (h @ CHR '':'' # p) [] None) expand_ellipsis = None"
proof (cases "\<forall>c \<in> set h. is_hex c")
  case True
  have tp: "takeWhile is_hex p = p" "dropWhile is_hex p = []"
    using assms(2) is_digit_is_hex by (auto simp: list_all_iff)
  have "v6_loop p (group_bytes g) None \<in> {None, Some (group_bytes g @ group_bytes (hex_acc 0 p), None)}" for g
    by (subst v6_loop.simps) (auto simp: tp Let_def)
  moreover have "expand_ellipsis (group_bytes g @ group_bytes k, None) = None" for g k
    by (simp add: expand_ellipsis_def)
  ultimately have "Option.bind (v6_loop p (group_bytes g) None) expand_ellipsis = None" for g
    by (metis bind.bind_lunit bind.bind_lzero insertE singletonD)
  moreover have "hd p \<noteq> CHR '':''" if "p \<noteq> []" using that assms(2) by (cases p) (auto simp: is_digit_def)
  ultimately show ?thesis
    using True by (subst v6_loop.simps) (auto simp: takeWhile_append dropWhile_append Let_def)
next
  case False
  then obtain a d b where h: "h = a @ d # b" "\<forall>c \<in> set a. is_hex c" "\<not> is_hex d"
    using split_list_first_prop [of h "\<lambda>c. \<not> is_hex c"] by auto
  with assms(1) have "d \<noteq> CHR '':''" by (auto dest!: domain_char_byte)
  with h show ?thesis
    by (subst v6_loop.simps) (auto simp: takeWhile_append dropWhile_append Let_def)
qed

lemma ParseIP_authority:
  assumes "list_all domain_char h" "h \<noteq> []" "list_all is_digit p"
  shows "ParseIP (h @ CHR '':'' # p) = None"
proof -
  let ?s = "h @ CHR '':'' # p"
  have "parseIPv4Fields ?s = None"
    using parseIPv4Fields_canonical(3) [of ?s] by (cases "parseIPv4Fields ?s") (auto simp: is_digit_def)
  moreover have "parseIPv6 ?s = None"
  proof -
    have "hd h \<noteq> CHR '':''" using assms(1,2) by (cases h) (auto dest!: domain_char_byte)
    then have "\<not> HasPrefix ?s ''::''" "?s \<noteq> ''::''" using assms(2) by (cases h; auto simp: HasPrefix_def)+
    then show ?thesis using v6_loop_authority [OF assms(1,3)] by (simp add: parseIPv6_def)
  qed
  ultimately show ?thesis by (simp add: ParseIP_def ParseAddr_def)
qed

lemma domain_chars: "validDomainPart s \<Longrightarrow> list_all domain_char s \<and> s \<noteq> []"
  by (auto simp: validDomainPart_def split: if_splits)

lemma domain_no_char:
  assumes "list_all domain_char h"
  shows "CHR '':'' \<notin> set h" "CHR ''['' \<notin> set h" "CHR '']'' \<notin> set h" "\<not> HasPrefix (h @ CHR '':'' # t) ''[''"
    "\<not> HasPrefix h ''[''"
proof -
  show m: "CHR '':'' \<notin> set h" "CHR ''['' \<notin> set h" "CHR '']'' \<notin> set h"
    using assms by (auto simp: list_all_iff dest!: domain_char_byte bspec)
  show "\<not> HasPrefix (h @ CHR '':'' # t) ''[''" "\<not> HasPrefix h ''[''"
    using m(2) by (cases h; auto simp: HasPrefix_def)+
qed

lemma normalizeHost_authority:
  assumes "validDomainPart (ToLower h)" "p = [] \<or> isNumericPort p"
  shows "normalizeHost (h @ CHR '':'' # p) = ToLower h"
proof -
  note d = domain_chars [OF assms(1)] and p = port_digits [OF assms(2)]
  then have "ParseIP (ToLower h @ CHR '':'' # p) = None" by (simp add: ParseIP_authority)
  moreover have "strip_port (ToLower h @ CHR '':'' # p) = ToLower h"
    using assms(2) digits_no_char(1) [OF p] by (simp add: strip_port_def LastIndexByte_append)
  ultimately show ?thesis
    using domain_no_char [of "ToLower h"] d ToLower_authority(1) [OF assms(1) p]
    by (simp add: normalizeHost_def)
qed

lemma normalizeHost_domain:
  assumes "validDomainPart (ToLower h)"
  shows "normalizeHost h = ToLower h"
proof -
  note d = domain_chars [OF assms]
  then have "ToLower (TrimSpace h) = ToLower h" using ToLower_authority(2) [OF assms, of "[]"] by simp
  moreover have "strip_port (ToLower h) = ToLower h"
    using domain_no_char [of "ToLower h"] d by (simp add: strip_port_def LastIndexByte_None)
  ultimately show ?thesis
    using d domain_no_char [of "ToLower h"] ParseIP_no_colon [of "ToLower h"]
    by (auto simp: normalizeHost_def Let_def split: option.splits)
qed

lemma SplitHostPort_authority:
  assumes "list_all domain_char h" "list_all is_digit p"
  shows "SplitHostPort (h @ CHR '':'' # p) = Some (h, p)"
  using domain_no_char [OF assms(1)] digits_no_char [OF assms(2)]
  by (auto simp: SplitHostPort_def LastIndexByte_append)

lemma normalizeTarget_authority:
  assumes "validDomainPart (ToLower h)" "p = [] \<or> isNumericPort p"
  shows "normalizeTarget (h @ CHR '':'' # p) = ToLower h @ CHR '':'' # (if p = [] then ''443'' else p)"
proof -
  note d = domain_chars [OF assms(1)] and p = port_digits [OF assms(2)]
  let ?s = "ToLower h @ CHR '':'' # p"
  have "SplitHostPort ?s = Some (ToLower h, p)"
    using d p by (simp add: SplitHostPort_authority)
  then show ?thesis
    using domain_no_char [of "ToLower h"] d ToLower_authority(1) [OF assms(1) p]
    by (simp add: normalizeTarget_def Contains_char)
qed

lemma normalizeTarget_domain:
  assumes "validDomainPart (ToLower h)"
  shows "normalizeTarget h = ToLower h @ '':443''"
proof -
  note d = domain_chars [OF assms]
  have "SplitHostPort (ToLower h) = None"
    using d domain_no_char [of "ToLower h"] by (simp add: SplitHostPort_def LastIndexByte_None)
  then show ?thesis
    using domain_no_char [of "ToLower h"] d ToLower_authority(2) [OF assms, of "[]"]
    by (simp add: normalizeTarget_def Contains_char)
qed

lemma compilePattern_domain:
  assumes "validDomainPart (ToLower h)"
  shows "compilePattern h = Inr ((new_rule h)\<lparr>r_exact := ToLower h\<rparr>)"
proof -
  let ?h = "ToLower h"
  note d = domain_chars [OF assms]
  have t: "ToLower (TrimSpace h) = ?h" using ToLower_authority(2) [OF assms, of "[]"] by simp
  have n: "CHR ''*'' \<notin> set ?h" "CHR ''?'' \<notin> set ?h" "CHR ''/'' \<notin> set ?h"
    using d by (auto simp: list_all_iff dest!: domain_char_byte bspec)
  then have "\<not> HasPrefix ?h ''*.''" using d by (cases ?h) (auto simp: HasPrefix_def)
  moreover have "ParseCIDR ?h = None" using n by (simp add: ParseCIDR_def IndexByte_None)
  ultimately show ?thesis
    using t n d assms domain_no_char(1) [of ?h] ParseIP_no_colon [of ?h]
    by (auto simp: compilePattern_def Let_def Contains_char validHost_def split: option.splits)
qed

lemma normalizeHost_long_port:
  assumes "validDomainPart (ToLower h)" "list_all is_digit p" "5 < length p"
  shows "normalizeHost (h @ CHR '':'' # p) = ToLower h @ CHR '':'' # p"
proof -
  note d = domain_chars [OF assms(1)]
  have "ParseIP (ToLower h @ CHR '':'' # p) = None" using d assms(2) by (simp add: ParseIP_authority)
  moreover have "strip_port (ToLower h @ CHR '':'' # p) = ToLower h @ CHR '':'' # p"
    using assms(3) digits_no_char(1) [OF assms(2)]
    by (auto simp: strip_port_def LastIndexByte_append isNumericPort_def)
  ultimately show ?thesis
    using domain_no_char [of "ToLower h"] d ToLower_authority(1) [OF assms(1,2)]
    by (simp add: normalizeHost_def)
qed

section \<open>Properties of the rules engine\<close>

lemma Evaluate_policy:
  "d_Allowed (Evaluate (Rebuild e cfg) user host) = config_allows cfg user (normalizeHost host)"
proof (cases "Option.bind user (\<lambda>u. map_option (Pair u) (config_user cfg (u_ID u)))")
  case None
  then have "Option.bind user (\<lambda>u. map_option (Pair u) (fmlookup (userRulesMap (Rebuild e cfg)) (u_ID u))) = None"
    by (auto simp: fmlookup_Rebuild bind_eq_None_conv)
  with None show ?thesis
    by (cases rule: matchAny_compileList_cases [of "gr_Blacklist (c_GlobalRules cfg)" "normalizeHost host"])
      (auto simp: Evaluate_def config_allows_def Let_def whitelistGate_Allowed no_rules_def
        list_ex_compileList compileList_Nil_iff)
next
  case (Some uv)
  then obtain u v where "uv = (u, v)" "user = Some u" "config_user cfg (u_ID u) = Some v"
    by (auto simp: bind_eq_Some_conv)
  then show ?thesis
    by (cases rule: matchAny_compileList_cases [of "gr_Blacklist (c_GlobalRules cfg)" "normalizeHost host"];
        cases rule: matchAny_compileList_cases [of "u_Blacklist v" "normalizeHost host"])
      (auto simp: Evaluate_def config_allows_def Let_def fmlookup_Rebuild whitelistGate_Allowed
        list_ex_compileList compileList_Nil_iff)
qed

text \<open>
  C7: the engine decides by the documented precedence. For an engine rebuilt from a
  configuration, a host is allowed exactly when it is not empty, no global blacklist pattern
  matches it, no blacklist pattern of the requesting user's entry matches it, and, if a whitelist
  mode is on or some whitelist of the two is in use, a pattern of the user's or of the global
  whitelist matches it. Patterns that do not compile count for nothing.
\<close>

theorem Evaluate_config_policy:
  "d_Allowed (Evaluate (Rebuild e cfg) user host) = config_allows cfg user (normalizeHost host)"
  by (rule Evaluate_policy)

text \<open>
  A decision explains itself. Every denial carries a reason, and the pattern it
  reports really matches the host and stands in the list that decides: a whitelist the request is
  subject to when it is allowed, a blacklist it is subject to when it is denied.
\<close>

theorem Evaluate_explains:
  "explains (user_patterns u_Whitelist cfg user @ gr_Whitelist (c_GlobalRules cfg))
     (gr_Blacklist (c_GlobalRules cfg) @ user_patterns u_Blacklist cfg user)
     (normalizeHost host) (Evaluate (Rebuild e cfg) user host)"
proof (cases "Option.bind user (\<lambda>u. map_option (Pair u) (config_user cfg (u_ID u)))")
  case None
  then have "Option.bind user (\<lambda>u. map_option (Pair u) (fmlookup (userRulesMap (Rebuild e cfg)) (u_ID u))) = None"
    "user_patterns f cfg user = []" for f
    by (auto simp: fmlookup_Rebuild bind_eq_None_conv user_patterns_def split: option.splits)
  then show ?thesis
    by (cases rule: matchAny_compileList_Some_cases [of "gr_Blacklist (c_GlobalRules cfg)" "normalizeHost host"])
      (simp_all add: Evaluate_def Let_def explains_whitelistGate_none, simp_all add: explains_def)
next
  case (Some uv)
  then obtain u v where uv: "uv = (u, v)" "user = Some u" "config_user cfg (u_ID u) = Some v"
    by (auto simp: bind_eq_Some_conv)
  then have "user_patterns f cfg user = f v" for f by (simp add: user_patterns_def)
  with uv show ?thesis
    by (cases rule: matchAny_compileList_Some_cases [of "gr_Blacklist (c_GlobalRules cfg)" "normalizeHost host"];
        cases rule: matchAny_compileList_Some_cases [of "u_Blacklist v" "normalizeHost host"])
      (simp_all add: Evaluate_def Let_def fmlookup_Rebuild explains_whitelistGate, simp_all add: explains_def)
qed

text \<open>
  C8: a compiled glob means what its characters say. It matches a host exactly when the host, read
  as UTF-8, is an instance of the trimmed, lowercased glob: a star stands for any characters but
  newlines, a question mark for one character that is no newline, every other character for itself.
\<close>

theorem compile_glob_denotes:
  assumes "compilePattern p = Inr r" "r_regex r \<noteq> None"
  shows "matches r h \<longleftrightarrow> glob (runes (ToLower (TrimSpace p))) (runes h)"
proof -
  have "r = (new_rule p)\<lparr>r_regex := Some (globToRegexp (ToLower (TrimSpace p)))\<rparr>"
    using assms by (auto simp: compilePattern_def new_rule_def Let_def split: if_splits option.splits)
  then show ?thesis
    by (simp add: matches_def new_rule_def globToRegexp_def MatchString_def match_runes_glob)
qed

theorem compile_glob_denotes_witness:
  "let r = (new_rule ''A?c'')\<lparr>r_regex := Some [ReLit 97, ReAny, ReLit 99]\<rparr>; e = map char_of [97 :: nat, 195, 164, 99]
   in matches r ''abc'' \<and> matches r e \<and> \<not> matches r ''abbc'' \<and> glob [97, 63, 99] (runes e)"
proof -
  let ?r = "(new_rule ''A?c'')\<lparr>r_regex := Some [ReLit 97, ReAny, ReLit 99]\<rparr>" and ?e = "map char_of [97 :: nat, 195, 164, 99]"
  have c: "compilePattern ''A?c'' = Inr ?r" by code_simp
  have t: "runes (ToLower (TrimSpace ''A?c'')) = [97, 63, 99]" by code_simp
  have m: "matches ?r ''abc''" "matches ?r ?e" "\<not> matches ?r ''abbc''" by code_simp+
  moreover have "glob [97, 63, 99] (runes ?e)" using compile_glob_denotes [OF c, of ?e] m(2) by (simp add: t)
  ultimately show ?thesis unfolding Let_def by blast
qed

text \<open>
  A rule made from an IP literal matches a requested IP literal exactly when both
  denote the same address, however each of them is spelled (case, leading zeros, \<open>::\<close>, an
  embedded IPv4 address).
\<close>

theorem ip_rule_matches_spelling:
  assumes "compilePattern p = Inr r"
    and "ParseIP (ToLower (TrimSpace p)) = Some a"
    and "ParseIP (ToLower (TrimSpace h)) = Some b"
  shows "matches r (normalizeHost h) \<longleftrightarrow> a = b"
proof -
  note la = ParseIP_props [OF assms(2)] and lb = ParseIP_props [OF assms(3)]
  have "r_exact r = IP_String a"
    using assms(1) ParseIP_shape [OF assms(2)] assms(2) la
    by (auto simp: compilePattern_def new_rule_def Let_def split: if_splits option.splits)
  moreover have "normalizeHost h = IP_String b"
    using ParseIP_shape [OF assms(3)] assms(3) lb by (simp add: normalizeHost_def)
  ultimately show ?thesis
    using IP_String_nonempty la(1) lb(1) by (auto simp: matches_def IP_String_inject)
qed

theorem ip_rule_matches_spelling_witness:
  "matches ((new_rule ''2001:0DB8::1'')\<lparr>r_exact := ''2001:db8::1''\<rparr>) (normalizeHost ''2001:db8:0:0::1'') \<longleftrightarrow> True"
proof -
  have c: "compilePattern ''2001:0DB8::1'' = Inr ((new_rule ''2001:0DB8::1'')\<lparr>r_exact := ''2001:db8::1''\<rparr>)"
    by code_simp
  have p: "ParseIP (ToLower (TrimSpace ''2001:0DB8::1'')) = Some [32, 1, 13, 184, 0, 0, 0, 0, 0, 0, 0, 0, 0, 0, 0, 1]"
    by code_simp
  have h: "ParseIP (ToLower (TrimSpace ''2001:db8:0:0::1'')) = Some [32, 1, 13, 184, 0, 0, 0, 0, 0, 0, 0, 0, 0, 0, 0, 1]"
    by code_simp
  show ?thesis using ip_rule_matches_spelling [OF c p h] by simp
qed

text \<open>
  C9: for a CONNECT request to a domain name, in any case and with no port, an empty port
  or a port of up to five digits, the host that the rules judge is the host part of the address
  that is dialled.
\<close>

theorem connect_target_host_agrees:
  assumes "validDomainPart (ToLower h)" "p = [] \<or> isNumericPort p" "s = h \<or> s = h @ '':'' @ p"
  shows "normalizeHost (normalizeTarget s) = ToLower h
    \<and> map_option fst (SplitHostPort (normalizeTarget s)) = Some (ToLower h)"
proof -
  define q where "q = (if s = h \<or> p = [] then ''443'' else p)"
  have "isNumericPort ''443''" by code_simp
  then have q: "isNumericPort q" using assms(2) by (auto simp: q_def)
  have t: "normalizeTarget s = ToLower h @ CHR '':'' # q"
    using assms by (auto simp: q_def normalizeTarget_authority normalizeTarget_domain)
  have "normalizeHost (ToLower h @ CHR '':'' # q) = ToLower h"
    using normalizeHost_authority [of "ToLower h" q] assms(1) q by simp
  moreover have "SplitHostPort (ToLower h @ CHR '':'' # q) = Some (ToLower h, q)"
    using domain_chars [OF assms(1)] q port_digits by (simp add: SplitHostPort_authority)
  ultimately show ?thesis using t by simp
qed

theorem connect_target_host_agrees_witness:
  "normalizeHost (normalizeTarget ''Example.com:8443'') = ''example.com''"
proof -
  have h: "validDomainPart (ToLower ''Example.com'')" by code_simp
  have p: "''8443'' = [] \<or> isNumericPort ''8443''" by code_simp
  have l: "ToLower ''Example.com'' = ''example.com''" by code_simp
  show ?thesis
    using connect_target_host_agrees [OF h p, of "''Example.com:8443''"] by (simp add: l)
qed

text \<open>
  A port of more than five digits is not stripped, so the rule made from a domain
  name, which blocks the name with port 443, does not match the same name with a zero-padded port
  such as 000443, which dials the same port.
\<close>

theorem long_port_escapes_rule:
  assumes "validDomainPart (ToLower h)" "list_all is_digit p" "5 < length p" "compilePattern h = Inr r"
  shows "matches r (normalizeHost (h @ '':443'')) \<and> \<not> matches r (normalizeHost (h @ '':'' @ p))"
proof -
  have r: "r_exact r = ToLower h" "ToLower h \<noteq> []"
    using assms(4) compilePattern_domain [OF assms(1)] domain_chars [OF assms(1)] by auto
  have "isNumericPort ''443''" by code_simp
  then have "normalizeHost (h @ '':443'') = ToLower h"
    using normalizeHost_authority [OF assms(1), of "''443''"] by simp
  moreover have "normalizeHost (h @ '':'' @ p) \<noteq> ToLower h"
    using normalizeHost_long_port [OF assms(1-3)] by simp
  ultimately show ?thesis using r by (simp add: matches_def)
qed

theorem long_port_escapes_rule_witness:
  "matches ((new_rule ''evil.com'')\<lparr>r_exact := ''evil.com''\<rparr>) (normalizeHost ''evil.com:443'')
   \<and> \<not> matches ((new_rule ''evil.com'')\<lparr>r_exact := ''evil.com''\<rparr>) (normalizeHost ''evil.com:000443'')"
proof -
  have h: "validDomainPart (ToLower ''evil.com'')" by code_simp
  have p: "list_all is_digit ''000443''" by code_simp
  have c: "compilePattern ''evil.com'' = Inr ((new_rule ''evil.com'')\<lparr>r_exact := ''evil.com''\<rparr>)" by code_simp
  show ?thesis using long_port_escapes_rule [OF h p _ c] by simp
qed

end
