(* ===== verification/Json.thy ===== *)
theory Json
  imports Go_Prelude
begin

text \<open>
  Package \<^verbatim>\<open>encoding/json\<close>, as far as the proxy uses it: values, the printer of
  \<^verbatim>\<open>json.Marshal\<close> and \<^verbatim>\<open>json.MarshalIndent\<close>, the parser behind \<^verbatim>\<open>json.Unmarshal\<close>, and
  decoding into Go values (case-insensitive field names, later members overwrite earlier ones,
  \<open>null\<close> leaves a field as it is). A number is kept as its literal. Bytes above 127 pass
  through unchanged, so the model is exact for valid UTF-8 text without U+2028 and U+2029.
\<close>

datatype json =
    JNull | JBool bool | JNum string | JStr string
  | JArr "json list" | JObj "(string \<times> json) list"

section \<open>Printing\<close>

definition dquote :: char where "dquote = char_of (34::nat)"
definition bslash :: char where "bslash = char_of (92::nat)"

definition esc_char :: "char \<Rightarrow> string" where
  "esc_char c =
     (let n = byte_of c in
      if n = 34 \<or> n = 92 then [bslash, c]
      else if n = 8 then [bslash, CHR ''b'']
      else if n = 12 then [bslash, CHR ''f'']
      else if n = 10 then [bslash, CHR ''n'']
      else if n = 13 then [bslash, CHR ''r'']
      else if n = 9 then [bslash, CHR ''t'']
      else if n < 32 \<or> n = 60 \<or> n = 62 \<or> n = 38
        then [bslash, CHR ''u'', CHR ''0'', CHR ''0'', hex_digit (n div 16), hex_digit (n mod 16)]
      else [c])"

definition jstring :: "string \<Rightarrow> string" where
  "jstring s = dquote # concat (map esc_char s) @ [dquote]"

text \<open>
  One printer for both layouts: \<open>sep l\<close> is what starts a line at nesting level \<open>l\<close>
  (nothing, or a line break and the indentation), \<open>colon\<close> what follows a member's name.
\<close>

fun jprint :: "(nat \<Rightarrow> string) \<Rightarrow> string \<Rightarrow> nat \<Rightarrow> json \<Rightarrow> string"
and jprint_elems :: "(nat \<Rightarrow> string) \<Rightarrow> string \<Rightarrow> nat \<Rightarrow> json list \<Rightarrow> string"
and jprint_members :: "(nat \<Rightarrow> string) \<Rightarrow> string \<Rightarrow> nat \<Rightarrow> (string \<times> json) list \<Rightarrow> string" where
  "jprint sep colon l JNull = ''null''"
| "jprint sep colon l (JBool b) = (if b then ''true'' else ''false'')"
| "jprint sep colon l (JNum n) = n"
| "jprint sep colon l (JStr s) = jstring s"
| "jprint sep colon l (JArr vs) =
     (if vs = [] then ''[]'' else ''['' @ jprint_elems sep colon (Suc l) vs @ sep l @ '']'')"
| "jprint sep colon l (JObj ms) =
     (if ms = [] then ''{}'' else ''{'' @ jprint_members sep colon (Suc l) ms @ sep l @ ''}'')"
| "jprint_elems sep colon l [] = []"
| "jprint_elems sep colon l (v # vs) =
     sep l @ jprint sep colon l v @ (if vs = [] then [] else '','' @ jprint_elems sep colon l vs)"
| "jprint_members sep colon l [] = []"
| "jprint_members sep colon l ((k, v) # ms) =
     sep l @ jstring k @ colon @ jprint sep colon l v
     @ (if ms = [] then [] else '','' @ jprint_members sep colon l ms)"

definition indent_sep :: "nat \<Rightarrow> string" where
  "indent_sep l = char_of (10::nat) # replicate (2 * l) (CHR '' '')"

definition Marshal :: "json \<Rightarrow> string" where
  "Marshal v = jprint (\<lambda>l. []) '':'' 0 v"

definition MarshalIndent :: "json \<Rightarrow> string" where
  "MarshalIndent v = jprint indent_sep '': '' 0 v"

section \<open>Parsing\<close>

definition is_ws :: "char \<Rightarrow> bool" where
  "is_ws c \<longleftrightarrow> byte_of c = 32 \<or> byte_of c = 9 \<or> byte_of c = 13 \<or> byte_of c = 10"

definition skip_ws :: "string \<Rightarrow> string" where
  "skip_ws s = dropWhile is_ws s"

definition hex_val :: "char \<Rightarrow> nat option" where
  "hex_val c =
     (let n = byte_of c in
      if 48 \<le> n \<and> n \<le> 57 then Some (n - 48)
      else if 97 \<le> n \<and> n \<le> 102 then Some (n - 87)
      else if 65 \<le> n \<and> n \<le> 70 then Some (n - 55) else None)"

definition hex4 :: "string \<Rightarrow> nat option" where
  "hex4 s = (case map hex_val (take 4 s) of
       [Some a, Some b, Some c, Some d] \<Rightarrow> Some (a * 4096 + b * 256 + c * 16 + d)
     | _ \<Rightarrow> None)"

definition utf8 :: "nat \<Rightarrow> string" where
  "utf8 r =
     (if r < 128 then [char_of r]
      else if r < 2048 then [char_of (192 + r div 64), char_of (128 + r mod 64)]
      else if r < 65536
        then [char_of (224 + r div 4096), char_of (128 + r div 64 mod 64), char_of (128 + r mod 64)]
      else [char_of (240 + r div 262144), char_of (128 + r div 4096 mod 64),
            char_of (128 + r div 64 mod 64), char_of (128 + r mod 64)])"

text \<open>An escape after its backslash: the bytes it stands for and the number of bytes read.\<close>

definition parse_u :: "string \<Rightarrow> (string \<times> nat) option" where
  "parse_u s = (case hex4 s of None \<Rightarrow> None
     | Some r \<Rightarrow>
        if 55296 \<le> r \<and> r < 57344 then
          (case (if HasPrefix (drop 4 s) [bslash, CHR ''u''] then hex4 (drop 6 s) else None) of
             Some r2 \<Rightarrow>
               if r < 56320 \<and> 56320 \<le> r2 \<and> r2 < 57344
               then Some (utf8 (65536 + (r - 55296) * 1024 + (r2 - 56320)), 10)
               else Some (utf8 65533, 4)
           | None \<Rightarrow> Some (utf8 65533, 4))
        else Some (utf8 r, 4))"

definition parse_escape :: "string \<Rightarrow> (string \<times> nat) option" where
  "parse_escape s = (case s of [] \<Rightarrow> None
     | c # r \<Rightarrow>
        let n = byte_of c in
        if n = 34 \<or> n = 92 \<or> n = 47 then Some ([c], 1)
        else if n = 98 then Some ([char_of (8::nat)], 1)
        else if n = 102 then Some ([char_of (12::nat)], 1)
        else if n = 110 then Some ([char_of (10::nat)], 1)
        else if n = 114 then Some ([char_of (13::nat)], 1)
        else if n = 116 then Some ([char_of (9::nat)], 1)
        else if n = 117 then map_option (\<lambda>(bs, k). (bs, Suc k)) (parse_u r)
        else None)"

text \<open>The rest of a string after its opening quote.\<close>

function parse_string :: "string \<Rightarrow> (string \<times> string) option" where
  "parse_string [] = None"
| "parse_string (c # s) =
     (if c = dquote then Some ([], s)
      else if c = bslash then
        (case parse_escape s of None \<Rightarrow> None
         | Some (bs, k) \<Rightarrow> map_option (\<lambda>(t, r). (bs @ t, r)) (parse_string (drop k s)))
      else if byte_of c < 32 then None
      else map_option (\<lambda>(t, r). (c # t, r)) (parse_string s))"
  by pat_completeness auto
termination
  by (relation "measure length") auto

definition digits :: "string \<Rightarrow> string" where
  "digits s = takeWhile is_digit s"

text \<open>The longest prefix that is a JSON number.\<close>

definition parse_number :: "string \<Rightarrow> (string \<times> string) option" where
  "parse_number s =
     (let sg = (if HasPrefix s ''-'' then ''-'' else []);
          s1 = drop (length sg) s;
          ip = (if HasPrefix s1 ''0'' then ''0'' else digits s1);
          s2 = drop (length ip) s1;
          fp = (if HasPrefix s2 ''.'' then ''.'' @ digits (drop 1 s2) else []);
          s3 = drop (length fp) s2;
          ex = (if HasPrefix s3 ''e'' \<or> HasPrefix s3 ''E'' then
                  (let es = (if HasPrefix (drop 1 s3) ''+'' \<or> HasPrefix (drop 1 s3) ''-''
                             then take 1 (drop 1 s3) else [])
                   in take 1 s3 @ es @ digits (drop (Suc (length es)) s3))
                else []);
          s4 = drop (length ex) s3
      in if ip = [] \<or> (fp \<noteq> [] \<and> length fp = 1) \<or> (ex \<noteq> [] \<and> \<not> is_digit (last ex)) then None
         else Some (sg @ ip @ fp @ ex, s4))"

text \<open>
  The recursive descent. The fuel only bounds the recursion; the length of the input is enough
  (see \<open>fuel_enough\<close>).
\<close>

fun parse_value :: "nat \<Rightarrow> string \<Rightarrow> (json \<times> string) option"
and parse_elems :: "nat \<Rightarrow> string \<Rightarrow> (json list \<times> string) option"
and parse_members :: "nat \<Rightarrow> string \<Rightarrow> ((string \<times> json) list \<times> string) option" where
  "parse_value 0 s = None"
| "parse_value (Suc n) s =
     (case skip_ws s of [] \<Rightarrow> None
      | c # r \<Rightarrow>
         if c = dquote then map_option (\<lambda>(t, r'). (JStr t, r')) (parse_string r)
         else if c = CHR ''{'' then
           (if HasPrefix (skip_ws r) ''}'' then Some (JObj [], drop 1 (skip_ws r))
            else map_option (\<lambda>(ms, r'). (JObj ms, r')) (parse_members n r))
         else if c = CHR ''['' then
           (if HasPrefix (skip_ws r) '']'' then Some (JArr [], drop 1 (skip_ws r))
            else map_option (\<lambda>(vs, r'). (JArr vs, r')) (parse_elems n r))
         else if HasPrefix (c # r) ''null'' then Some (JNull, drop 4 (c # r))
         else if HasPrefix (c # r) ''true'' then Some (JBool True, drop 4 (c # r))
         else if HasPrefix (c # r) ''false'' then Some (JBool False, drop 5 (c # r))
         else map_option (\<lambda>(t, r'). (JNum t, r')) (parse_number (c # r)))"
| "parse_elems 0 s = None"
| "parse_elems (Suc n) s =
     (case parse_value n s of None \<Rightarrow> None
      | Some (v, r) \<Rightarrow>
         (case skip_ws r of [] \<Rightarrow> None
          | c # r' \<Rightarrow>
             if c = CHR '','' then map_option (\<lambda>(vs, r2). (v # vs, r2)) (parse_elems n r')
             else if c = CHR '']'' then Some ([v], r') else None))"
| "parse_members 0 s = None"
| "parse_members (Suc n) s =
     (case skip_ws s of [] \<Rightarrow> None
      | q # s1 \<Rightarrow>
         if q \<noteq> dquote then None
         else (case parse_string s1 of None \<Rightarrow> None
          | Some (k, s2) \<Rightarrow>
             (case skip_ws s2 of [] \<Rightarrow> None
              | cl # s3 \<Rightarrow>
                 if cl \<noteq> CHR '':'' then None
                 else (case parse_value n s3 of None \<Rightarrow> None
                  | Some (v, r) \<Rightarrow>
                     (case skip_ws r of [] \<Rightarrow> None
                      | c # r' \<Rightarrow>
                         if c = CHR '','' then map_option (\<lambda>(ms, r2). ((k, v) # ms, r2)) (parse_members n r')
                         else if c = CHR ''}'' then Some ([(k, v)], r') else None)))))"

text \<open>
  Arrays and objects may be nested 10000 deep; beyond that the scanner of the package gives up.
\<close>

fun nesting :: "json \<Rightarrow> nat" where
  "nesting (JArr vs) = Suc (foldr max (map nesting vs) 0)"
| "nesting (JObj ms) = Suc (foldr max (map (\<lambda>(k, v). nesting v) ms) 0)"
| "nesting _ = 0"

definition maxNestingDepth :: nat where
  "maxNestingDepth = 10000"

text \<open>A whole document: one value, then only white space.\<close>

definition Parse :: "string \<Rightarrow> json option" where
  "Parse s = (case parse_value (Suc (length s)) s of None \<Rightarrow> None
     | Some (v, r) \<Rightarrow> if skip_ws r = [] \<and> nesting v \<le> maxNestingDepth then Some v else None)"

section \<open>Decoding into Go values\<close>

text \<open>
  A decoder takes the JSON value and the present Go value and yields the new one, or
  \<^const>\<open>None\<close> when \<^verbatim>\<open>json.Unmarshal\<close> reports an error.
\<close>

definition dec_string :: "json \<Rightarrow> string \<Rightarrow> string option" where
  "dec_string v x = (case v of JStr s \<Rightarrow> Some s | JNull \<Rightarrow> Some x | _ \<Rightarrow> None)"

definition dec_bool :: "json \<Rightarrow> bool \<Rightarrow> bool option" where
  "dec_bool v x = (case v of JBool b \<Rightarrow> Some b | JNull \<Rightarrow> Some x | _ \<Rightarrow> None)"

definition dec_int :: "json \<Rightarrow> int \<Rightarrow> int option" where
  "dec_int v x = (case v of JNum t \<Rightarrow> Atoi t | JNull \<Rightarrow> Some x | _ \<Rightarrow> None)"

definition dec_uint64 :: "json \<Rightarrow> uint64 \<Rightarrow> uint64 option" where
  "dec_uint64 v x = (case v of
       JNum t \<Rightarrow> if t \<noteq> [] \<and> list_all is_digit t \<and> dec_val 0 t < 2 ^ 64
                then Some (of_int (dec_val 0 t)) else None
     | JNull \<Rightarrow> Some x | _ \<Rightarrow> None)"

text \<open>
  A slice: the elements that are there are decoded over, further ones start from the zero value.
  (When a member of an object occurs three times, elements that the second one cut off would be
  decoded over by the third; the model starts those from the zero value.)
\<close>

fun dec_list :: "(json \<Rightarrow> 'a \<Rightarrow> 'a option) \<Rightarrow> 'a list \<Rightarrow> 'a \<Rightarrow> json list \<Rightarrow> 'a list option" where
  "dec_list dec old z [] = Some []"
| "dec_list dec old z (v # vs) =
     (case dec v (case old of [] \<Rightarrow> z | x # _ \<Rightarrow> x) of None \<Rightarrow> None
      | Some y \<Rightarrow> map_option (Cons y) (dec_list dec (tl old) z vs))"

definition dec_slice :: "(json \<Rightarrow> 'a \<Rightarrow> 'a option) \<Rightarrow> 'a \<Rightarrow> json \<Rightarrow> 'a list \<Rightarrow> 'a list option" where
  "dec_slice dec z v xs = (case v of JArr vs \<Rightarrow> dec_list dec xs z vs | JNull \<Rightarrow> Some [] | _ \<Rightarrow> None)"

definition dec_ptr :: "(json \<Rightarrow> 'a \<Rightarrow> 'a option) \<Rightarrow> 'a \<Rightarrow> json \<Rightarrow> 'a option \<Rightarrow> 'a option option" where
  "dec_ptr dec z v x = (case v of JNull \<Rightarrow> Some None
     | _ \<Rightarrow> map_option Some (dec v (case x of None \<Rightarrow> z | Some y \<Rightarrow> y)))"

fun dec_field :: "string \<Rightarrow> (json \<Rightarrow> 'a \<Rightarrow> 'a option) \<Rightarrow> (string \<times> json) list \<Rightarrow> 'a \<Rightarrow> 'a option" where
  "dec_field name dec [] x = Some x"
| "dec_field name dec ((k, v) # ms) x =
     (if EqualFold k name
      then (case dec v x of None \<Rightarrow> None | Some y \<Rightarrow> dec_field name dec ms y)
      else dec_field name dec ms x)"

definition dec_struct :: "((string \<times> json) list \<Rightarrow> 'a \<Rightarrow> 'a option) \<Rightarrow> json \<Rightarrow> 'a \<Rightarrow> 'a option" where
  "dec_struct f v x = (case v of JObj ms \<Rightarrow> f ms x | JNull \<Rightarrow> Some x | _ \<Rightarrow> None)"

definition Unmarshal :: "(json \<Rightarrow> 'a \<Rightarrow> 'a option) \<Rightarrow> string \<Rightarrow> 'a \<Rightarrow> 'a option" where
  "Unmarshal dec s x = (case Parse s of None \<Rightarrow> None | Some v \<Rightarrow> dec v x)"

definition jint :: "int \<Rightarrow> json" where
  "jint i = JNum (int_dec i)"

definition juint :: "uint64 \<Rightarrow> json" where
  "juint u = JNum (pos_dec (uint u))"

section \<open>Decoding undoes printing\<close>

lemma byte_of_json_consts [simp]:
  "byte_of (CHR ''{'') = 123" "byte_of (CHR ''}'') = 125" "byte_of (CHR '','') = 44" "byte_of (CHR '' '') = 32"
  "byte_of (CHR ''n'') = 110" "byte_of (CHR ''t'') = 116" "byte_of (CHR ''f'') = 102" "byte_of (CHR ''b'') = 98"
  "byte_of (CHR ''r'') = 114" "byte_of (CHR ''u'') = 117" "byte_of (CHR ''0'') = 48" "byte_of (CHR ''e'') = 101"
  "byte_of (CHR ''E'') = 69" "byte_of dquote = 34" "byte_of bslash = 92" "byte_of (CHR ''+'') = 43"
  by code_simp+

lemma char_of_byte_of [simp]: "char_of (byte_of c) = c"
  by (simp add: byte_of_def)

lemma byte_of_less [simp]: "byte_of c < 256"
proof -
  have "byte_of c = byte_of (char_of (byte_of c))" by (simp only: char_of_byte_of)
  also have "\<dots> = byte_of c mod 256" by (rule byte_of_char_of)
  finally have "byte_of c mod 256 = byte_of c" by simp
  then show ?thesis by (metis mod_less_divisor zero_less_numeral)
qed

lemma dquote_neq [simp]: "dquote \<noteq> CHR '']''" "dquote \<noteq> CHR ''}''" "dquote \<noteq> CHR ''{''" "dquote \<noteq> CHR ''[''"
  "CHR '']'' \<noteq> dquote" "CHR ''}'' \<noteq> dquote" "CHR ''{'' \<noteq> dquote" "CHR ''['' \<noteq> dquote"
  "CHR ''n'' \<noteq> dquote" "CHR ''t'' \<noteq> dquote" "CHR ''f'' \<noteq> dquote" "bslash \<noteq> dquote"
  by (simp_all add: byte_of_eq_iff [symmetric])

lemma hex_val_hex_digit [simp]: "d < 16 \<Longrightarrow> hex_val (hex_digit d) = Some d"
  by (auto simp: hex_val_def hex_digit_def Let_def)

lemma hex_val_0: "hex_val (CHR ''0'') = Some 0"
  by (simp add: hex_val_def Let_def)

lemma parse_string_esc:
  "parse_string (esc_char c @ t) = map_option (\<lambda>(x, r). (c # x, r)) (parse_string t)"
proof -
  have neq: "c \<noteq> dquote" "c \<noteq> bslash" if "byte_of c \<noteq> 34 \<and> byte_of c \<noteq> 92"
    using that by (auto simp: byte_of_eq_iff [symmetric])
  have bq: "bslash \<noteq> dquote" by (simp add: byte_of_eq_iff [symmetric])
  consider (q) "byte_of c = 34 \<or> byte_of c = 92" | (b) "byte_of c \<in> {8, 12, 10, 13, 9}"
    | (u) "byte_of c \<notin> {34, 92, 8, 12, 10, 13, 9}" "byte_of c < 32 \<or> byte_of c = 60 \<or> byte_of c = 62 \<or> byte_of c = 38"
    | (o) "byte_of c \<notin> {34, 92}" "\<not> byte_of c < 32" "byte_of c \<notin> {60, 62, 38}"
    by blast
  then show ?thesis
  proof cases
    case q
    then show ?thesis using bq by (auto simp: esc_char_def parse_escape_def Let_def)
  next
    case b
    then have "\<exists>k \<in> {8, 12, 10, 13, 9::nat}. c = char_of k" by (intro bexI [of _ "byte_of c"]) simp_all
    then show ?thesis by (auto simp: esc_char_def parse_escape_def Let_def)
  next
    case u
    then have "hex4 (CHR ''0'' # CHR ''0'' # hex_digit (byte_of c div 16) # hex_digit (byte_of c mod 16) # t) = Some (byte_of c)"
      by (auto simp: hex4_def hex_val_0)
    moreover have "utf8 (byte_of c) = [c]" using u by (auto simp: utf8_def)
    ultimately show ?thesis using u bq by (auto simp: esc_char_def parse_escape_def parse_u_def Let_def)
  next
    case o
    then show ?thesis using neq by (auto simp: esc_char_def Let_def)
  qed
qed

lemma parse_string_jstring: "parse_string (concat (map esc_char s) @ dquote # rest) = Some (s, rest)"
  by (induction s) (simp_all add: parse_string_esc)

definition num_end :: "string \<Rightarrow> bool" where
  "num_end r \<longleftrightarrow> (case r of [] \<Rightarrow> True | c # _ \<Rightarrow> \<not> is_digit c \<and> c \<noteq> CHR ''.'' \<and> c \<noteq> CHR ''e'' \<and> c \<noteq> CHR ''E'')"

lemma takeWhile_digits: "list_all is_digit ds \<Longrightarrow> num_end r \<Longrightarrow> takeWhile is_digit (ds @ r) = ds"
  by (induction ds) (auto simp: num_end_def split: list.splits)

lemma pos_dec_leading: "0 \<le> n \<Longrightarrow> HasPrefix (pos_dec n @ r) ''0'' \<Longrightarrow> pos_dec n = ''0''"
proof (cases "0 < n")
  case True
  moreover assume "HasPrefix (pos_dec n @ r) ''0''"
  ultimately show ?thesis using pos_dec_hd [of n] by (cases "pos_dec n") (auto simp: HasPrefix_def)
next
  case False
  moreover assume "0 \<le> n"
  ultimately have "n = 0" by simp
  moreover have "pos_dec 0 = ''0''" by code_simp
  ultimately show ?thesis by simp
qed

lemma parse_number_pos:
  assumes "0 \<le> n" "num_end r" "sg = [] \<or> sg = ''-''"
  shows "parse_number (sg @ pos_dec n @ r) = Some (sg @ pos_dec n, r)"
proof -
  have d: "list_all is_digit (pos_dec n)" "pos_dec n \<noteq> []" using assms(1) by simp_all
  then have m: "\<not> HasPrefix (pos_dec n @ r) ''-''"
    by (cases "pos_dec n") (auto simp: HasPrefix_def is_digit_def)
  then have sg: "(if HasPrefix (sg @ pos_dec n @ r) ''-'' then ''-'' else []) = sg"
    using assms(3) by (auto simp: HasPrefix_def)
  have ip: "(if HasPrefix (pos_dec n @ r) ''0'' then ''0'' else digits (pos_dec n @ r)) = pos_dec n"
    using takeWhile_digits [OF d(1) assms(2)] pos_dec_leading [OF assms(1), of r]
    by (cases "HasPrefix (pos_dec n @ r) ''0''") (simp_all add: digits_def)
  have e: "\<not> HasPrefix r ''.''" "\<not> HasPrefix r ''e''" "\<not> HasPrefix r ''E''"
    using assms(2) by (auto simp: num_end_def HasPrefix_def split: list.splits)
  have dr: "drop (length xs) (xs @ ys) = ys" for xs ys :: string by simp
  show ?thesis unfolding parse_number_def Let_def sg dr ip if_not_P [OF e(1)]
    using d(2) e(2,3) by simp
qed

lemma parse_number_int: "num_end r \<Longrightarrow> parse_number (int_dec i @ r) = Some (int_dec i, r)"
  using parse_number_pos [of i r "[]"] parse_number_pos [of "- i" r "''-''"] by (auto simp: int_dec_def)

lemma int_dec_first: "\<exists>c s. int_dec i = c # s \<and> (c = CHR ''-'' \<or> is_digit c)"
proof (cases "i < 0")
  case False
  then show ?thesis using list_all_digit_pos_dec [of i]
    by (cases "pos_dec i") (auto simp: int_dec_def)
qed (simp add: int_dec_def)

lemma skip_ws_append [simp]: "list_all is_ws w \<Longrightarrow> skip_ws (w @ s) = skip_ws s"
  by (induction w) (auto simp: skip_ws_def)

lemma skip_ws_Cons: "\<not> is_ws c \<Longrightarrow> skip_ws (c # s) = c # s"
  by (simp add: skip_ws_def)

lemma is_ws_consts [simp]: "\<not> is_ws dquote" "\<not> is_ws (CHR '','')" "\<not> is_ws (CHR '':'')" "\<not> is_ws (CHR ''['')"
  "\<not> is_ws (CHR '']'')" "\<not> is_ws (CHR ''{'')" "\<not> is_ws (CHR ''}'')" "\<not> is_ws (CHR ''n'')" "\<not> is_ws (CHR ''t'')"
  "\<not> is_ws (CHR ''f'')"
  by (simp_all add: is_ws_def)

lemma parse_value_ws: "list_all is_ws w \<Longrightarrow> parse_value n (w @ s) = parse_value n s"
  by (cases n) simp_all

text \<open>Values whose numbers are integers: all that the program prints.\<close>

fun json_nums :: "json \<Rightarrow> bool" where
  "json_nums (JNum t) = (\<exists>i. t = int_dec i)"
| "json_nums (JArr vs) = list_all json_nums vs"
| "json_nums (JObj ms) = list_all (\<lambda>(k, v). json_nums v) ms"
| "json_nums _ = True"

text \<open>A value that can be read back: its numbers are integers and it is not nested too deep.\<close>

definition json_ok :: "json \<Rightarrow> bool" where
  "json_ok v \<longleftrightarrow> json_nums v \<and> nesting v \<le> maxNestingDepth"

lemma foldr_max_le: "foldr max ns (0 :: nat) \<le> n \<longleftrightarrow> (\<forall>k \<in> set ns. k \<le> n)"
  by (induction ns) auto

lemma nesting_le [simp]:
  "nesting (JArr vs) \<le> Suc n \<longleftrightarrow> (\<forall>v \<in> set vs. nesting v \<le> n)"
  "nesting (JObj ms) \<le> Suc n \<longleftrightarrow> (\<forall>(k, v) \<in> set ms. nesting v \<le> n)"
  by (auto simp: foldr_max_le)

declare nesting.simps(1,2) [simp del]

lemma json_okI: "json_nums v \<Longrightarrow> nesting v \<le> Suc (Suc (Suc (Suc 0))) \<Longrightarrow> json_ok v"
  by (simp add: json_ok_def maxNestingDepth_def)

locale json_layout =
  fixes sep :: "nat \<Rightarrow> string" and colon :: string
  assumes sep_ws: "list_all is_ws (sep l)"
    and colon_shape: "\<exists>w. colon = CHR '':'' # w \<and> list_all is_ws w"
begin

lemma num_end_sep: "\<not> is_digit c \<Longrightarrow> c \<noteq> CHR ''.'' \<Longrightarrow> c \<noteq> CHR ''e'' \<Longrightarrow> c \<noteq> CHR ''E'' \<Longrightarrow> num_end (sep l @ c # r)"
  using sep_ws [of l] by (cases "sep l") (auto simp: num_end_def is_ws_def is_digit_def)

lemma jprint_first:
  assumes "json_nums v"
  shows "\<exists>c s. jprint sep colon l v = c # s \<and> \<not> is_ws c \<and> c \<noteq> CHR '']'' \<and> c \<noteq> CHR ''}''"
proof (cases v)
  case (JNum t)
  then obtain i where "t = int_dec i" using assms by auto
  then show ?thesis using JNum int_dec_first [of i] by (auto simp: is_ws_def is_digit_def)
qed (auto simp: jstring_def)

lemma parse_print_number:
  assumes "num_end r"
  shows "parse_value (Suc n) (int_dec i @ r) = Some (JNum (int_dec i), r)"
proof -
  obtain c s where c: "int_dec i = c # s" "c = CHR ''-'' \<or> is_digit c" using int_dec_first by blast
  then have "byte_of c = 45 \<or> 48 \<le> byte_of c \<and> byte_of c \<le> 57" by (auto simp: is_digit_def)
  then have "\<not> is_ws c" "c \<noteq> dquote" "c \<noteq> CHR ''{''" "c \<noteq> CHR ''[''" "c \<noteq> CHR ''n''" "c \<noteq> CHR ''t''" "c \<noteq> CHR ''f''"
    by (auto simp: is_ws_def)
  then show ?thesis using parse_number_int [OF assms, of i] c(1)
    by (simp add: skip_ws_Cons HasPrefix_def)
qed

definition reads_back :: "json \<Rightarrow> bool" where
  "reads_back v \<longleftrightarrow> (\<forall>l n r. num_end r \<longrightarrow> length (jprint sep colon l v) < n \<longrightarrow>
     parse_value n (jprint sep colon l v @ r) = Some (v, r))"

lemma reads_backD:
  "reads_back v \<Longrightarrow> num_end r \<Longrightarrow> length (jprint sep colon l v) < n \<Longrightarrow>
     parse_value n (sep l' @ jprint sep colon l v @ r) = Some (v, r)"
  by (simp add: reads_back_def parse_value_ws sep_ws)

lemma num_end_consts [simp]: "num_end (CHR '','' # r)" "num_end (CHR '']'' # r)" "num_end (CHR ''}'' # r)"
  "num_end (sep l @ CHR '']'' # r)" "num_end (sep l @ CHR ''}'' # r)"
proof -
  show "num_end (CHR '','' # r)" "num_end (CHR '']'' # r)" "num_end (CHR ''}'' # r)"
    by (simp_all add: num_end_def is_digit_def)
  show "num_end (sep l @ CHR '']'' # r)" "num_end (sep l @ CHR ''}'' # r)"
    by (rule num_end_sep; simp add: is_digit_def)+
qed

lemma parse_elems_print:
  assumes "\<forall>v \<in> set vs. reads_back v" "vs \<noteq> []" "Suc (length (jprint_elems sep colon l vs)) < n"
  shows "parse_elems n (jprint_elems sep colon l vs @ sep l' @ CHR '']'' # r) = Some (vs, r)"
  using assms
proof (induction vs arbitrary: n)
  case (Cons v vs)
  obtain k where n: "n = Suc k" using Cons.prems(3) by (cases n) auto
  have "length (jprint sep colon l v) < k" using Cons.prems(3) n by simp
  note v = reads_backD [OF _ _ this]
  show ?case
  proof (cases "vs = []")
    case True
    then show ?thesis using v [of "sep l' @ CHR '']'' # r"] Cons.prems(1) n
      by (simp add: sep_ws skip_ws_Cons)
  next
    case False
    then show ?thesis
      using v [of "CHR '','' # jprint_elems sep colon l vs @ sep l' @ CHR '']'' # r"] Cons n
      by (simp add: skip_ws_Cons)
  qed
qed simp

lemma parse_members_print:
  assumes "\<forall>(k, v) \<in> set ms. reads_back v" "ms \<noteq> []" "Suc (length (jprint_members sep colon l ms)) < n"
  shows "parse_members n (jprint_members sep colon l ms @ sep l' @ CHR ''}'' # r) = Some (ms, r)"
  using assms
proof (induction ms arbitrary: n)
  case (Cons m ms)
  obtain j v where m: "m = (j, v)" by fastforce
  obtain k where n: "n = Suc k" using Cons.prems(3) by (cases n) auto
  obtain w where w: "colon = CHR '':'' # w" "list_all is_ws w" using colon_shape by blast
  have len: "length (jprint sep colon l v) < k" using Cons.prems(3) n m by simp
  have v: "parse_value k (w @ jprint sep colon l v @ r') = Some (v, r')" if "num_end r'" for r'
    using Cons.prems(1) m len that w(2) by (simp add: reads_back_def parse_value_ws)
  have k: "parse_string (concat (map esc_char j) @ dquote # r') = Some (j, r')" for r'
    by (rule parse_string_jstring)
  show ?case
  proof (cases "ms = []")
    case True
    then show ?thesis using v [of "sep l' @ CHR ''}'' # r"] n m k w
      by (simp add: sep_ws skip_ws_Cons jstring_def)
  next
    case False
    then show ?thesis
      using v [of "CHR '','' # jprint_members sep colon l ms @ sep l' @ CHR ''}'' # r"] Cons n m k w
      by (simp add: sep_ws skip_ws_Cons jstring_def)
  qed
qed simp

lemma HasPrefix_skip_elems:
  "list_all json_nums vs \<Longrightarrow> vs \<noteq> [] \<Longrightarrow> \<not> HasPrefix (skip_ws (jprint_elems sep colon l vs @ r)) '']''"
  using jprint_first [of "hd vs" l] sep_ws [of l] by (cases vs) (auto simp: skip_ws_Cons HasPrefix_def)

lemma HasPrefix_skip_members:
  "ms \<noteq> [] \<Longrightarrow> \<not> HasPrefix (skip_ws (jprint_members sep colon l ms @ r)) ''}''"
  using sep_ws [of l] by (cases ms) (auto simp: skip_ws_Cons HasPrefix_def jstring_def)

lemma json_nums_reads_back: "json_nums v \<Longrightarrow> reads_back v"
proof (induction v)
  case (JNum t)
  then show ?case
    by (auto simp: reads_back_def parse_print_number simp del: parse_value.simps elim!: less_natE)
next
  case (JStr s)
  have "parse_value (Suc n) (jstring s @ r) = Some (JStr s, r)" for n r
    by (simp add: jstring_def skip_ws_Cons parse_string_jstring)
  then show ?case by (auto simp: reads_back_def gr0_conv_Suc elim!: less_natE)
next
  case (JArr vs)
  then have "\<forall>v \<in> set vs. reads_back v" by (auto simp: list_all_iff)
  note e = parse_elems_print [OF this]
  have "parse_value (Suc n) (jprint sep colon l (JArr vs) @ r) = Some (JArr vs, r)"
    if "length (jprint sep colon l (JArr vs)) \<le> n" for n l r
    using that e [of "Suc l" n l r] HasPrefix_skip_elems [of vs "Suc l" "sep l @ CHR '']'' # r"] JArr.prems
    by (auto simp: skip_ws_Cons HasPrefix_def)
  then show ?case by (auto simp: reads_back_def simp del: jprint.simps parse_value.simps elim!: less_natE)
next
  case (JObj ms)
  then have "\<forall>(k, v) \<in> set ms. reads_back v" by (fastforce simp: list_all_iff)
  note e = parse_members_print [OF this]
  have "parse_value (Suc n) (jprint sep colon l (JObj ms) @ r) = Some (JObj ms, r)"
    if "length (jprint sep colon l (JObj ms)) \<le> n" for n l r
    using that e [of "Suc l" n l r] HasPrefix_skip_members [of ms "Suc l" "sep l @ CHR ''}'' # r"]
    by (auto simp: skip_ws_Cons HasPrefix_def)
  then show ?case by (auto simp: reads_back_def simp del: jprint.simps parse_value.simps elim!: less_natE)
qed (auto simp: reads_back_def skip_ws_Cons HasPrefix_def elim!: less_natE)

lemma Parse_jprint:
  assumes "json_ok v"
  shows "Parse (jprint sep colon 0 v) = Some v"
proof -
  have "num_end []" "skip_ws [] = []" by (simp_all add: num_end_def skip_ws_def)
  moreover have "parse_value n (jprint sep colon 0 v @ []) = Some (v, [])"
    if "length (jprint sep colon 0 v) < n" for n
    using json_nums_reads_back assms [unfolded json_ok_def] that calculation(1) unfolding reads_back_def by blast
  ultimately show ?thesis using assms unfolding Parse_def json_ok_def by (simp del: parse_value.simps)
qed

end

interpretation compact: json_layout "\<lambda>l. []" "'':''"
  by unfold_locales auto

interpretation indented: json_layout indent_sep "'': ''"
  by unfold_locales (auto simp: indent_sep_def is_ws_def list_all_iff)

lemma Parse_Marshal: "json_ok v \<Longrightarrow> Parse (Marshal v) = Some v"
  by (simp add: Marshal_def compact.Parse_jprint)

lemma Parse_MarshalIndent: "json_ok v \<Longrightarrow> Parse (MarshalIndent v) = Some v"
  by (simp add: MarshalIndent_def indented.Parse_jprint)

lemma Unmarshal_Marshal: "json_ok v \<Longrightarrow> Unmarshal dec (Marshal v) x = dec v x"
  by (simp add: Unmarshal_def Parse_Marshal)

lemma Unmarshal_MarshalIndent: "json_ok v \<Longrightarrow> Unmarshal dec (MarshalIndent v) x = dec v x"
  by (simp add: Unmarshal_def Parse_MarshalIndent)

lemma Atoi_int_dec:
  assumes "in_int64 i"
  shows "Atoi (int_dec i) = Some i"
proof (cases "i < 0")
  case True
  then have "HasPrefix (int_dec i) ''-''" "tl (int_dec i) = pos_dec (- i)"
    by (auto simp: int_dec_def HasPrefix_def)
  with True assms show ?thesis by (auto simp: Atoi_def)
next
  case False
  obtain c s where cs: "pos_dec i = c # s" by (cases "pos_dec i") auto
  then have "is_digit c" using False list_all_digit_pos_dec [of i] by auto
  then have "c \<noteq> CHR ''-''" "c \<noteq> CHR ''+''" by (auto simp: is_digit_def)
  then have "\<not> HasPrefix (int_dec i) ''-''" "\<not> HasPrefix (int_dec i) ''+''"
    using False cs by (auto simp: int_dec_def HasPrefix_def)
  with False assms show ?thesis by (auto simp: Atoi_def int_dec_def)
qed

lemma dec_scalars [simp]:
  "dec_string (JStr s) x = Some s" "dec_bool (JBool b) y = Some b"
  "in_int64 i \<Longrightarrow> dec_int (jint i) z = Some i" "dec_uint64 (juint u) w = Some u"
proof -
  show "dec_uint64 (juint u) w = Some u"
    using uint_bounded [of u] by (simp add: dec_uint64_def juint_def)
qed (simp_all add: dec_string_def dec_bool_def dec_int_def jint_def Atoi_int_dec)

lemma json_nums_scalars [simp]: "json_nums (jint i)" "json_nums (juint u)"
proof -
  have "pos_dec (uint u) = int_dec (uint u)" by (simp add: int_dec_def)
  then show "json_nums (juint u)" unfolding juint_def by auto
qed (auto simp: jint_def)

lemma nesting_scalars [simp]: "nesting (jint i) = 0" "nesting (juint u) = 0"
  by (simp_all add: jint_def juint_def)

lemma dec_list_map:
  "\<forall>x \<in> set xs. \<forall>y. dec (enc x) y = Some x \<Longrightarrow> dec_list dec old z (map enc xs) = Some xs"
  by (induction xs arbitrary: old) auto

section \<open>Fuel\<close>

lemma length_skip_ws: "length (skip_ws s) \<le> length s"
  by (simp add: skip_ws_def length_dropWhile_le)

lemma parse_string_consumes: "parse_string s = Some (t, r) \<Longrightarrow> length r < length s"
proof (induction s arbitrary: t r rule: parse_string.induct)
  case (2 c s)
  then show ?case by (fastforce split: if_splits option.splits)
qed simp

lemma guarded_Some: "(if b then None else Some x) = Some y \<longleftrightarrow> \<not> b \<and> x = y"
  by simp

lemma parse_number_consumes:
  assumes "parse_number s = Some (t, r)"
  shows "length r < length s"
proof -
  define s1 where "s1 = drop (length (if HasPrefix s ''-'' then ''-'' else [])) s"
  define ip where "ip = (if HasPrefix s1 ''0'' then ''0'' else digits s1)"
  have "ip \<noteq> [] \<and> (\<exists>a b. r = drop a (drop b (drop (length ip) s1)))"
    using assms unfolding parse_number_def Let_def s1_def [symmetric] ip_def [symmetric] guarded_Some prod.inject by blast
  moreover have "ip \<noteq> [] \<Longrightarrow> s1 \<noteq> []" by (auto simp: ip_def digits_def HasPrefix_def)
  ultimately have "length r < length s1" by (auto simp: length_greater_0_conv [symmetric] simp del: length_greater_0_conv)
  then show ?thesis by (simp add: s1_def split: if_splits)
qed

text \<open>
  Whatever a parser accepts with some fuel, it accepts with as much fuel as it consumes characters:
  running out of fuel never turns an acceptable text into an error.
\<close>

definition settled :: "(nat \<Rightarrow> string \<Rightarrow> ('a \<times> string) option) \<Rightarrow> nat \<Rightarrow> bool" where
  "settled f n \<longleftrightarrow> (\<forall>s x r. f n s = Some (x, r) \<longrightarrow>
     length r < length s \<and> (\<forall>m \<ge> length s - length r. f m s = Some (x, r)))"

lemma settledI:
  assumes "\<And>s x r. f (Suc n) s = Some (x, r) \<Longrightarrow>
    length r < length s \<and> (\<forall>k. length s - length r \<le> Suc k \<longrightarrow> f (Suc k) s = Some (x, r))"
  shows "settled f (Suc n)"
  unfolding settled_def
proof (intro allI impI)
  fix s x r assume "f (Suc n) s = Some (x, r)"
  note h = assms [OF this]
  have "f m s = Some (x, r)" if "length s - length r \<le> m" for m using that h by (cases m) auto
  with h show "length r < length s \<and> (\<forall>m \<ge> length s - length r. f m s = Some (x, r))" by blast
qed

lemma settledD:
  assumes "settled f n" "f n s = Some (x, r)"
  shows "length r < length s" "length s - length r \<le> m \<Longrightarrow> f m s = Some (x, r)"
  using assms unfolding settled_def by blast+

lemma settled_elems:
  assumes "settled parse_value n" "settled parse_elems n"
  shows "settled parse_elems (Suc n)"
proof (rule settledI)
  fix s vs r assume p: "parse_elems (Suc n) s = Some (vs, r)"
  obtain v r0 c t where v: "parse_value n s = Some (v, r0)" "skip_ws r0 = c # t"
    and alt: "c = CHR '','' \<and> (\<exists>us. parse_elems n t = Some (us, r) \<and> vs = v # us) \<or> c = CHR '']'' \<and> vs = [v] \<and> r = t"
    using p by (auto split: option.splits list.splits if_splits)
  note h = settledD [OF assms(1) v(1)]
  have t: "length t < length r0" using length_skip_ws [of r0] v(2) by simp
  from alt show "length r < length s \<and> (\<forall>k. length s - length r \<le> Suc k \<longrightarrow> parse_elems (Suc k) s = Some (vs, r))"
  proof (elim disjE conjE exE)
    fix us assume us: "c = CHR '',''" "parse_elems n t = Some (us, r)" "vs = v # us"
    note e = settledD [OF assms(2) us(2)]
    have "parse_elems (Suc k) s = Some (vs, r)" if "length s - length r \<le> Suc k" for k
      using that h(1) t e h(2) [of k] e(2) [of k] us v(2) by simp
    with h(1) t e(1) show ?thesis by auto
  next
    assume e: "c = CHR '']''" "vs = [v]" "r = t"
    have "parse_elems (Suc k) s = Some (vs, r)" if "length s - length r \<le> Suc k" for k
      using that h(1) t h(2) [of k] e v(2) by simp
    with h(1) t e(3) show ?thesis by auto
  qed
qed

lemma settled_members:
  assumes "settled parse_value n" "settled parse_members n"
  shows "settled parse_members (Suc n)"
proof (rule settledI)
  fix s ms r assume p: "parse_members (Suc n) s = Some (ms, r)"
  obtain s1 a s2 s3 v r0 c t where q: "skip_ws s = dquote # s1" "parse_string s1 = Some (a, s2)" "skip_ws s2 = CHR '':'' # s3"
      "parse_value n s3 = Some (v, r0)" "skip_ws r0 = c # t"
    and alt: "c = CHR '','' \<and> (\<exists>us. parse_members n t = Some (us, r) \<and> ms = (a, v) # us) \<or> c = CHR ''}'' \<and> ms = [(a, v)] \<and> r = t"
    using p by (auto split: option.splits list.splits if_splits)
  note h = settledD [OF assms(1) q(4)]
  have l: "length s3 < length s" "length t < length r0"
    using length_skip_ws [of s] length_skip_ws [of s2] length_skip_ws [of r0] parse_string_consumes [OF q(2)] q by auto
  from alt show "length r < length s \<and> (\<forall>k. length s - length r \<le> Suc k \<longrightarrow> parse_members (Suc k) s = Some (ms, r))"
  proof (elim disjE conjE exE)
    fix us assume us: "c = CHR '',''" "parse_members n t = Some (us, r)" "ms = (a, v) # us"
    note e = settledD [OF assms(2) us(2)]
    have "parse_members (Suc k) s = Some (ms, r)" if "length s - length r \<le> Suc k" for k
      using that h(1) l e h(2) [of k] e(2) [of k] us q by simp
    with h(1) l e(1) show ?thesis by auto
  next
    assume e: "c = CHR ''}''" "ms = [(a, v)]" "r = t"
    have "parse_members (Suc k) s = Some (ms, r)" if "length s - length r \<le> Suc k" for k
      using that h(1) l h(2) [of k] e q by simp
    with h(1) l e(3) show ?thesis by auto
  qed
qed

lemma parse_leaf_consumes:
  assumes "parse_value (Suc n) s = Some (v, r)" "skip_ws s = c # t"
    "c = CHR ''{'' \<longrightarrow> HasPrefix (skip_ws t) ''}''" "c = CHR ''['' \<longrightarrow> HasPrefix (skip_ws t) '']''"
  shows "length r < length s" "parse_value (Suc k) s = Some (v, r)"
proof -
  have t: "length t < length s" using assms(2) length_skip_ws [of s] by simp
  show "parse_value (Suc k) s = Some (v, r)" using assms by auto
  show "length r < length s"
    using assms t length_skip_ws [of t] parse_string_consumes [of t] parse_number_consumes [of "c # t"]
    by (auto split: if_splits)
qed

lemma settled_value:
  assumes "settled parse_elems n" "settled parse_members n"
  shows "settled parse_value (Suc n)"
proof (rule settledI)
  fix s v r assume p: "parse_value (Suc n) s = Some (v, r)"
  obtain c t where w: "skip_ws s = c # t" using p by (cases "skip_ws s") auto
  then have t: "length t < length s" using length_skip_ws [of s] by simp
  consider (obj) ms where "c = CHR ''{''" "\<not> HasPrefix (skip_ws t) ''}''" "parse_members n t = Some (ms, r)" "v = JObj ms"
    | (arr) vs where "c = CHR ''[''" "\<not> HasPrefix (skip_ws t) '']''" "parse_elems n t = Some (vs, r)" "v = JArr vs"
    | (leaf) "c = CHR ''{'' \<longrightarrow> HasPrefix (skip_ws t) ''}''" "c = CHR ''['' \<longrightarrow> HasPrefix (skip_ws t) '']''"
    using p w by (cases "c = CHR ''{''"; cases "c = CHR ''[''") (auto split: if_splits)
  then show "length r < length s \<and> (\<forall>k. length s - length r \<le> Suc k \<longrightarrow> parse_value (Suc k) s = Some (v, r))"
  proof cases
    case obj
    note h = settledD [OF assms(2) obj(3)]
    have "parse_value (Suc k) s = Some (v, r)" if "length s - length r \<le> Suc k" for k
      using that h(1) t h(2) [of k] obj w by simp
    with h(1) t show ?thesis by auto
  next
    case arr
    note h = settledD [OF assms(1) arr(3)]
    have "parse_value (Suc k) s = Some (v, r)" if "length s - length r \<le> Suc k" for k
      using that h(1) t h(2) [of k] arr w by simp
    with h(1) t show ?thesis by auto
  next
    case leaf
    with parse_leaf_consumes [OF p w leaf] show ?thesis by blast
  qed
qed

lemma parsers_settled: "settled parse_value n \<and> settled parse_elems n \<and> settled parse_members n"
proof (induction n)
  case 0
  show ?case by (simp add: settled_def)
qed (simp add: settled_value settled_elems settled_members)

lemma parse_value_more:
  assumes "parse_value i s = Some x" "length s \<le> j"
  shows "parse_value j s = Some x"
proof -
  have "settled parse_value i" using parsers_settled [of i] by blast
  from settledD(2) [OF this, of s "fst x" "snd x" j] assms show ?thesis by simp
qed

lemma fuel_enough:
  assumes "length s \<le> m" "length s \<le> n"
  shows "parse_value m s = parse_value n s"
proof (cases "parse_value m s")
  case None
  show ?thesis
  proof (cases "parse_value n s")
    case (Some x)
    from parse_value_more [OF Some assms(1)] None show ?thesis by simp
  qed (simp only: None)
next
  case (Some x)
  from parse_value_more [OF Some assms(2)] Some show ?thesis by simp
qed

section \<open>Decoders keep what fits\<close>

lemma dec_field_keeps:
  assumes "dec_field name dec ms x = Some y" "P x" "\<And>v x y. dec v x = Some y \<Longrightarrow> P x \<Longrightarrow> P y"
  shows "P y"
  using assms(1,2)
proof (induction ms arbitrary: x)
  case (Cons kv ms)
  then show ?case using assms(3) by (cases kv) (fastforce split: if_splits option.splits)
qed simp

lemma dec_list_keeps:
  assumes "dec_list dec old z vs = Some ys" "list_all P old" "P z" "\<And>v x y. dec v x = Some y \<Longrightarrow> P x \<Longrightarrow> P y"
  shows "list_all P ys"
  using assms(1,2)
proof (induction vs arbitrary: old ys)
  case (Cons v vs)
  obtain y ys' where y: "dec v (case old of [] \<Rightarrow> z | x # _ \<Rightarrow> x) = Some y" "dec_list dec (tl old) z vs = Some ys'" "ys = y # ys'"
    using Cons.prems(1) by (auto split: option.splits)
  moreover have "P (case old of [] \<Rightarrow> z | x # _ \<Rightarrow> x)" "list_all P (tl old)" using Cons.prems(2) assms(3) by (cases old; simp)+
  ultimately show ?case using assms(4) Cons.IH by auto
qed simp

lemma dec_slice_keeps:
  assumes "dec_slice dec z v xs = Some ys" "list_all P xs" "P z" "\<And>v x y. dec v x = Some y \<Longrightarrow> P x \<Longrightarrow> P y"
  shows "list_all P ys"
  using assms dec_list_keeps [where P = P, OF _ assms(2-4)] by (auto simp: dec_slice_def split: json.splits)

lemma dec_struct_keeps:
  assumes "dec_struct f v x = Some y" "P x" "\<And>ms. f ms x = Some y \<Longrightarrow> P y"
  shows "P y"
  using assms by (auto simp: dec_struct_def split: json.splits)

lemma dec_int_keeps: "dec_int v x = Some y \<Longrightarrow> in_int64 x \<Longrightarrow> in_int64 y"
  by (auto simp: dec_int_def Atoi_in_int64 split: json.splits)

end
