(* ===== verification/Config_Json.thy ===== *)
theory Config_Json
  imports Config_Data Json "HOL-Library.Monad_Syntax"
begin

text \<open>
  The JSON form of the configuration document: for each struct of \<^verbatim>\<open>config.go\<close> its zero
  value, its encoding (the struct tags, in field order) and its decoding, and that decoding undoes
  encoding. A nil slice and an empty slice are the same list, printed as \<open>[]\<close>.
\<close>

definition jstrings :: "string list \<Rightarrow> json" where
  "jstrings ss = JArr (map JStr ss)"

definition dec_strings :: "json \<Rightarrow> string list \<Rightarrow> string list option" where
  "dec_strings = dec_slice dec_string []"

section \<open>Encoding and decoding\<close>

definition zero_proxy :: ProxySettings where
  "zero_proxy = \<lparr>px_Enabled = False, px_ListenAddr = [], px_AdminListenAddr = [], px_RequireAuth = False, px_AllowHTTP = False, px_AllowHTTPS = False, px_ConnectTimeoutSec = 0, px_ReadTimeoutSec = 0, px_DefaultMaxConns = 0, px_MaxGlobalConns = 0\<rparr>"

definition enc_proxy :: "ProxySettings \<Rightarrow> json" where
  "enc_proxy x = JObj
     [(''enabled'', JBool (px_Enabled x)),
      (''listen_addr'', JStr (px_ListenAddr x)),
      (''admin_listen_addr'', JStr (px_AdminListenAddr x)),
      (''require_auth'', JBool (px_RequireAuth x)),
      (''allow_http'', JBool (px_AllowHTTP x)),
      (''allow_https'', JBool (px_AllowHTTPS x)),
      (''connect_timeout_sec'', jint (px_ConnectTimeoutSec x)),
      (''read_timeout_sec'', jint (px_ReadTimeoutSec x)),
      (''default_max_conns'', jint (px_DefaultMaxConns x)),
      (''max_global_conns'', jint (px_MaxGlobalConns x))]"

definition dec_proxy :: "(string \<times> json) list \<Rightarrow> ProxySettings \<Rightarrow> ProxySettings option" where
  "dec_proxy ms x = do {
     a0 \<leftarrow> dec_field ''enabled'' dec_bool ms (px_Enabled x);
     a1 \<leftarrow> dec_field ''listen_addr'' dec_string ms (px_ListenAddr x);
     a2 \<leftarrow> dec_field ''admin_listen_addr'' dec_string ms (px_AdminListenAddr x);
     a3 \<leftarrow> dec_field ''require_auth'' dec_bool ms (px_RequireAuth x);
     a4 \<leftarrow> dec_field ''allow_http'' dec_bool ms (px_AllowHTTP x);
     a5 \<leftarrow> dec_field ''allow_https'' dec_bool ms (px_AllowHTTPS x);
     a6 \<leftarrow> dec_field ''connect_timeout_sec'' dec_int ms (px_ConnectTimeoutSec x);
     a7 \<leftarrow> dec_field ''read_timeout_sec'' dec_int ms (px_ReadTimeoutSec x);
     a8 \<leftarrow> dec_field ''default_max_conns'' dec_int ms (px_DefaultMaxConns x);
     a9 \<leftarrow> dec_field ''max_global_conns'' dec_int ms (px_MaxGlobalConns x);
     Some \<lparr>px_Enabled = a0, px_ListenAddr = a1, px_AdminListenAddr = a2, px_RequireAuth = a3, px_AllowHTTP = a4, px_AllowHTTPS = a5, px_ConnectTimeoutSec = a6, px_ReadTimeoutSec = a7, px_DefaultMaxConns = a8, px_MaxGlobalConns = a9\<rparr>}"

definition zero_logs :: LogSettings where
  "zero_logs = \<lparr>lg_RingSize = 0, lg_FileMaxMB = 0, lg_ToFile = False\<rparr>"

definition enc_logs :: "LogSettings \<Rightarrow> json" where
  "enc_logs x = JObj
     [(''ring_size'', jint (lg_RingSize x)),
      (''file_max_mb'', jint (lg_FileMaxMB x)),
      (''to_file'', JBool (lg_ToFile x))]"

definition dec_logs :: "(string \<times> json) list \<Rightarrow> LogSettings \<Rightarrow> LogSettings option" where
  "dec_logs ms x = do {
     a0 \<leftarrow> dec_field ''ring_size'' dec_int ms (lg_RingSize x);
     a1 \<leftarrow> dec_field ''file_max_mb'' dec_int ms (lg_FileMaxMB x);
     a2 \<leftarrow> dec_field ''to_file'' dec_bool ms (lg_ToFile x);
     Some \<lparr>lg_RingSize = a0, lg_FileMaxMB = a1, lg_ToFile = a2\<rparr>}"

definition zero_rules :: GlobalRules where
  "zero_rules = \<lparr>gr_WhitelistOnly = False, gr_Whitelist = [], gr_Blacklist = []\<rparr>"

definition enc_rules :: "GlobalRules \<Rightarrow> json" where
  "enc_rules x = JObj
     [(''whitelist_only'', JBool (gr_WhitelistOnly x)),
      (''whitelist'', jstrings (gr_Whitelist x)),
      (''blacklist'', jstrings (gr_Blacklist x))]"

definition dec_rules :: "(string \<times> json) list \<Rightarrow> GlobalRules \<Rightarrow> GlobalRules option" where
  "dec_rules ms x = do {
     a0 \<leftarrow> dec_field ''whitelist_only'' dec_bool ms (gr_WhitelistOnly x);
     a1 \<leftarrow> dec_field ''whitelist'' dec_strings ms (gr_Whitelist x);
     a2 \<leftarrow> dec_field ''blacklist'' dec_strings ms (gr_Blacklist x);
     Some \<lparr>gr_WhitelistOnly = a0, gr_Whitelist = a1, gr_Blacklist = a2\<rparr>}"

definition zero_stats :: UserStats where
  "zero_stats = \<lparr>st_Requests = 0, st_BytesIn = 0, st_BytesOut = 0, st_LastRequestAt = []\<rparr>"

definition enc_stats :: "UserStats \<Rightarrow> json" where
  "enc_stats x = JObj
     [(''requests'', juint (st_Requests x)),
      (''bytes_in'', juint (st_BytesIn x)),
      (''bytes_out'', juint (st_BytesOut x)),
      (''last_request_at'', JStr (st_LastRequestAt x))]"

definition dec_stats :: "(string \<times> json) list \<Rightarrow> UserStats \<Rightarrow> UserStats option" where
  "dec_stats ms x = do {
     a0 \<leftarrow> dec_field ''requests'' dec_uint64 ms (st_Requests x);
     a1 \<leftarrow> dec_field ''bytes_in'' dec_uint64 ms (st_BytesIn x);
     a2 \<leftarrow> dec_field ''bytes_out'' dec_uint64 ms (st_BytesOut x);
     a3 \<leftarrow> dec_field ''last_request_at'' dec_string ms (st_LastRequestAt x);
     Some \<lparr>st_Requests = a0, st_BytesIn = a1, st_BytesOut = a2, st_LastRequestAt = a3\<rparr>}"

definition zero_user :: User where
  "zero_user = \<lparr>u_ID = [], u_Username = [], u_PasswordHash = [], u_Enabled = False, u_Role = [], u_WhitelistOnly = False, u_Whitelist = [], u_Blacklist = [], u_MaxConns = 0, u_DailyTrafficMB = 0, u_CreatedAt = [], u_LastUsedAt = [], u_Stats = zero_stats, u_TokenEpoch = 0\<rparr>"

definition enc_user :: "User \<Rightarrow> json" where
  "enc_user x = JObj
     [(''id'', JStr (u_ID x)),
      (''username'', JStr (u_Username x)),
      (''password_hash'', JStr (u_PasswordHash x)),
      (''enabled'', JBool (u_Enabled x)),
      (''role'', JStr (u_Role x)),
      (''whitelist_only'', JBool (u_WhitelistOnly x)),
      (''whitelist'', jstrings (u_Whitelist x)),
      (''blacklist'', jstrings (u_Blacklist x)),
      (''max_conns'', jint (u_MaxConns x)),
      (''daily_traffic_mb'', jint (u_DailyTrafficMB x)),
      (''created_at'', JStr (u_CreatedAt x)),
      (''last_used_at'', JStr (u_LastUsedAt x)),
      (''stats'', enc_stats (u_Stats x)),
      (''token_epoch'', jint (u_TokenEpoch x))]"

definition dec_user :: "(string \<times> json) list \<Rightarrow> User \<Rightarrow> User option" where
  "dec_user ms x = do {
     a0 \<leftarrow> dec_field ''id'' dec_string ms (u_ID x);
     a1 \<leftarrow> dec_field ''username'' dec_string ms (u_Username x);
     a2 \<leftarrow> dec_field ''password_hash'' dec_string ms (u_PasswordHash x);
     a3 \<leftarrow> dec_field ''enabled'' dec_bool ms (u_Enabled x);
     a4 \<leftarrow> dec_field ''role'' dec_string ms (u_Role x);
     a5 \<leftarrow> dec_field ''whitelist_only'' dec_bool ms (u_WhitelistOnly x);
     a6 \<leftarrow> dec_field ''whitelist'' dec_strings ms (u_Whitelist x);
     a7 \<leftarrow> dec_field ''blacklist'' dec_strings ms (u_Blacklist x);
     a8 \<leftarrow> dec_field ''max_conns'' dec_int ms (u_MaxConns x);
     a9 \<leftarrow> dec_field ''daily_traffic_mb'' dec_int ms (u_DailyTrafficMB x);
     a10 \<leftarrow> dec_field ''created_at'' dec_string ms (u_CreatedAt x);
     a11 \<leftarrow> dec_field ''last_used_at'' dec_string ms (u_LastUsedAt x);
     a12 \<leftarrow> dec_field ''stats'' (dec_struct dec_stats) ms (u_Stats x);
     a13 \<leftarrow> dec_field ''token_epoch'' dec_int ms (u_TokenEpoch x);
     Some \<lparr>u_ID = a0, u_Username = a1, u_PasswordHash = a2, u_Enabled = a3, u_Role = a4, u_WhitelistOnly = a5, u_Whitelist = a6, u_Blacklist = a7, u_MaxConns = a8, u_DailyTrafficMB = a9, u_CreatedAt = a10, u_LastUsedAt = a11, u_Stats = a12, u_TokenEpoch = a13\<rparr>}"

definition zero_config :: Config where
  "zero_config = \<lparr>c_Version = 0, c_SessionKey = [], c_Proxy = zero_proxy, c_GlobalRules = zero_rules, c_Logs = zero_logs, c_Users = []\<rparr>"

definition enc_config :: "Config \<Rightarrow> json" where
  "enc_config x = JObj
     [(''version'', jint (c_Version x)),
      (''session_key'', JStr (c_SessionKey x)),
      (''proxy'', enc_proxy (c_Proxy x)),
      (''global_rules'', enc_rules (c_GlobalRules x)),
      (''logs'', enc_logs (c_Logs x)),
      (''users'', JArr (map enc_user (c_Users x)))]"

definition dec_config :: "(string \<times> json) list \<Rightarrow> Config \<Rightarrow> Config option" where
  "dec_config ms x = do {
     a0 \<leftarrow> dec_field ''version'' dec_int ms (c_Version x);
     a1 \<leftarrow> dec_field ''session_key'' dec_string ms (c_SessionKey x);
     a2 \<leftarrow> dec_field ''proxy'' (dec_struct dec_proxy) ms (c_Proxy x);
     a3 \<leftarrow> dec_field ''global_rules'' (dec_struct dec_rules) ms (c_GlobalRules x);
     a4 \<leftarrow> dec_field ''logs'' (dec_struct dec_logs) ms (c_Logs x);
     a5 \<leftarrow> dec_field ''users'' (dec_slice (dec_struct dec_user) zero_user) ms (c_Users x);
     Some \<lparr>c_Version = a0, c_SessionKey = a1, c_Proxy = a2, c_GlobalRules = a3, c_Logs = a4, c_Users = a5\<rparr>}"

definition enc_doc :: "Config \<Rightarrow> string" where
  "enc_doc c = MarshalIndent (enc_config c)"

definition dec_doc :: "string \<Rightarrow> Config \<Rightarrow> Config option" where
  "dec_doc = Unmarshal (dec_struct dec_config)"

section \<open>Round trip\<close>

text \<open>The values that fit Go's \<open>int\<close> and \<open>int64\<close>.\<close>

definition user_fits :: "User \<Rightarrow> bool" where
  "user_fits u \<longleftrightarrow> in_int64 (u_MaxConns u) \<and> in_int64 (u_DailyTrafficMB u) \<and> in_int64 (u_TokenEpoch u)"

definition config_fits :: "Config \<Rightarrow> bool" where
  "config_fits c \<longleftrightarrow> in_int64 (c_Version c)
     \<and> in_int64 (px_ConnectTimeoutSec (c_Proxy c)) \<and> in_int64 (px_ReadTimeoutSec (c_Proxy c))
     \<and> in_int64 (px_DefaultMaxConns (c_Proxy c)) \<and> in_int64 (px_MaxGlobalConns (c_Proxy c))
     \<and> in_int64 (lg_RingSize (c_Logs c)) \<and> in_int64 (lg_FileMaxMB (c_Logs c))
     \<and> list_all user_fits (c_Users c)"

lemma tag_lower:

  "ToLower ''admin_listen_addr'' = ''admin_listen_addr''"
  "ToLower ''allow_http'' = ''allow_http''"
  "ToLower ''allow_https'' = ''allow_https''"
  "ToLower ''blacklist'' = ''blacklist''"
  "ToLower ''bytes_in'' = ''bytes_in''"
  "ToLower ''bytes_out'' = ''bytes_out''"
  "ToLower ''connect_timeout_sec'' = ''connect_timeout_sec''"
  "ToLower ''created_at'' = ''created_at''"
  "ToLower ''daily_traffic_mb'' = ''daily_traffic_mb''"
  "ToLower ''default_max_conns'' = ''default_max_conns''"
  "ToLower ''enabled'' = ''enabled''"
  "ToLower ''file_max_mb'' = ''file_max_mb''"
  "ToLower ''global_rules'' = ''global_rules''"
  "ToLower ''id'' = ''id''"
  "ToLower ''last_request_at'' = ''last_request_at''"
  "ToLower ''last_used_at'' = ''last_used_at''"
  "ToLower ''listen_addr'' = ''listen_addr''"
  "ToLower ''logs'' = ''logs''"
  "ToLower ''max_conns'' = ''max_conns''"
  "ToLower ''max_global_conns'' = ''max_global_conns''"
  "ToLower ''password_hash'' = ''password_hash''"
  "ToLower ''proxy'' = ''proxy''"
  "ToLower ''read_timeout_sec'' = ''read_timeout_sec''"
  "ToLower ''requests'' = ''requests''"
  "ToLower ''require_auth'' = ''require_auth''"
  "ToLower ''ring_size'' = ''ring_size''"
  "ToLower ''role'' = ''role''"
  "ToLower ''session_key'' = ''session_key''"
  "ToLower ''stats'' = ''stats''"
  "ToLower ''to_file'' = ''to_file''"
  "ToLower ''token_epoch'' = ''token_epoch''"
  "ToLower ''username'' = ''username''"
  "ToLower ''users'' = ''users''"
  "ToLower ''version'' = ''version''"
  "ToLower ''whitelist'' = ''whitelist''"
  "ToLower ''whitelist_only'' = ''whitelist_only''"
  by code_simp+

lemma dec_strings_jstrings [simp]: "dec_strings (jstrings ss) x = Some ss"
  by (simp add: dec_strings_def dec_slice_def jstrings_def dec_list_map)

lemma json_nums_jstrings [simp]: "json_nums (jstrings ss)" "nesting (jstrings ss) \<le> Suc n"
  by (simp_all add: jstrings_def list_all_iff)

lemmas tag_simps = EqualFold_def tag_lower dec_struct_def

lemma dec_enc_proxy [simp]: "in_int64 (px_ConnectTimeoutSec x) \<Longrightarrow> in_int64 (px_ReadTimeoutSec x) \<Longrightarrow> in_int64 (px_DefaultMaxConns x) \<Longrightarrow> in_int64 (px_MaxGlobalConns x) \<Longrightarrow> dec_struct dec_proxy (enc_proxy x) z = Some x"
  by (simp add: dec_proxy_def enc_proxy_def tag_simps)

lemma json_nums_enc_proxy [simp]: "json_nums (enc_proxy x)" "nesting (enc_proxy x) \<le> Suc n"
  by (simp_all add: enc_proxy_def)

lemma dec_enc_logs [simp]: "in_int64 (lg_RingSize x) \<Longrightarrow> in_int64 (lg_FileMaxMB x) \<Longrightarrow> dec_struct dec_logs (enc_logs x) z = Some x"
  by (simp add: dec_logs_def enc_logs_def tag_simps)

lemma json_nums_enc_logs [simp]: "json_nums (enc_logs x)" "nesting (enc_logs x) \<le> Suc n"
  by (simp_all add: enc_logs_def)

lemma dec_enc_rules [simp]: "dec_struct dec_rules (enc_rules x) z = Some x"
  by (simp add: dec_rules_def enc_rules_def tag_simps)

lemma json_nums_enc_rules [simp]: "json_nums (enc_rules x)" "nesting (enc_rules x) \<le> Suc (Suc n)"
  by (simp_all add: enc_rules_def)

lemma dec_enc_stats [simp]: "dec_struct dec_stats (enc_stats x) z = Some x"
  by (simp add: dec_stats_def enc_stats_def tag_simps)

lemma json_nums_enc_stats [simp]: "json_nums (enc_stats x)" "nesting (enc_stats x) \<le> Suc n"
  by (simp_all add: enc_stats_def)

lemma dec_enc_user [simp]: "user_fits x \<Longrightarrow> dec_struct dec_user (enc_user x) z = Some x"
  by (simp add: dec_user_def enc_user_def tag_simps user_fits_def dec_enc_stats [unfolded dec_struct_def])

lemma json_nums_enc_user [simp]: "json_nums (enc_user x)" "nesting (enc_user x) \<le> Suc (Suc n)"
  by (simp_all add: enc_user_def)

lemma dec_enc_config:
  assumes "config_fits c"
  shows "dec_struct dec_config (enc_config c) z = Some c"
proof -
  have "dec_slice (dec_struct dec_user) zero_user (JArr (map enc_user (c_Users c))) us = Some (c_Users c)" for us
    using assms by (auto simp: dec_slice_def config_fits_def list_all_iff intro!: dec_list_map dec_enc_user)
  moreover have "dec_struct dec_proxy (enc_proxy (c_Proxy c)) z = Some (c_Proxy c)"
    "dec_struct dec_logs (enc_logs (c_Logs c)) z' = Some (c_Logs c)" for z z'
    using assms by (simp_all add: config_fits_def)
  moreover have "in_int64 (c_Version c)" using assms by (simp add: config_fits_def)
  moreover have "dec_struct dec_config (JObj ms) z = dec_config ms z" for ms
    by (simp add: dec_struct_def)
  ultimately show ?thesis
    by (simp add: enc_config_def dec_config_def EqualFold_def tag_lower)
qed

lemma json_ok_enc_config: "json_ok (enc_config c)"
  by (rule json_okI) (auto simp: enc_config_def list_all_iff)

lemma dec_doc_enc_doc: "config_fits c \<Longrightarrow> dec_doc (enc_doc c) z = Some c"
proof -
  assume "config_fits c"
  moreover have "json_ok (enc_config c)" by (rule json_ok_enc_config)
  ultimately show ?thesis by (simp add: dec_doc_def enc_doc_def Unmarshal_MarshalIndent dec_enc_config)
qed

section \<open>What is decoded fits\<close>

lemmas dec_int_field = dec_field_keeps [where P = in_int64 and dec = dec_int, OF _ _ dec_int_keeps]

definition proxy_fits :: "ProxySettings \<Rightarrow> bool" where
  "proxy_fits x \<longleftrightarrow> in_int64 (px_ConnectTimeoutSec x) \<and> in_int64 (px_ReadTimeoutSec x)
     \<and> in_int64 (px_DefaultMaxConns x) \<and> in_int64 (px_MaxGlobalConns x)"

definition logs_fit :: "LogSettings \<Rightarrow> bool" where
  "logs_fit x \<longleftrightarrow> in_int64 (lg_RingSize x) \<and> in_int64 (lg_FileMaxMB x)"

lemma dec_user_keeps: "dec_struct dec_user v x = Some y \<Longrightarrow> user_fits x \<Longrightarrow> user_fits y"
  by (erule dec_struct_keeps) (auto simp: dec_user_def user_fits_def bind_eq_Some_conv elim!: dec_int_field)

lemma dec_proxy_keeps: "dec_struct dec_proxy v x = Some y \<Longrightarrow> proxy_fits x \<Longrightarrow> proxy_fits y"
  by (erule dec_struct_keeps) (auto simp: dec_proxy_def proxy_fits_def bind_eq_Some_conv elim!: dec_int_field)

lemma dec_logs_keeps: "dec_struct dec_logs v x = Some y \<Longrightarrow> logs_fit x \<Longrightarrow> logs_fit y"
  by (erule dec_struct_keeps) (auto simp: dec_logs_def logs_fit_def bind_eq_Some_conv elim!: dec_int_field)

lemma zero_fits [simp]: "user_fits zero_user" "proxy_fits zero_proxy" "logs_fit zero_logs"
  by (simp_all add: user_fits_def proxy_fits_def logs_fit_def zero_user_def zero_proxy_def zero_logs_def in_int64_def)

lemma dec_users_keeps:
  "dec_slice (dec_struct dec_user) zero_user v xs = Some ys \<Longrightarrow> list_all user_fits xs \<Longrightarrow> list_all user_fits ys"
  by (rule dec_slice_keeps, assumption+) (simp_all add: dec_user_keeps)

lemma config_fits_parts:
  "config_fits c \<longleftrightarrow> in_int64 (c_Version c) \<and> proxy_fits (c_Proxy c) \<and> logs_fit (c_Logs c) \<and> list_all user_fits (c_Users c)"
  by (auto simp: config_fits_def proxy_fits_def logs_fit_def)

lemmas dec_part_fields =
  dec_field_keeps [where P = proxy_fits, OF _ _ dec_proxy_keeps] dec_field_keeps [where P = logs_fit, OF _ _ dec_logs_keeps]
  dec_field_keeps [where P = "list_all user_fits", OF _ _ dec_users_keeps] dec_int_field

lemma dec_config_keeps: "dec_struct dec_config v x = Some y \<Longrightarrow> config_fits x \<Longrightarrow> config_fits y"
  by (erule dec_struct_keeps) (auto simp: dec_config_def config_fits_parts bind_eq_Some_conv elim!: dec_part_fields)

lemma dec_doc_fits: "dec_doc s zero_config = Some c \<Longrightarrow> config_fits c"
  using dec_config_keeps [of _ zero_config c]
  by (auto simp: dec_doc_def Unmarshal_def config_fits_parts zero_config_def in_int64_def split: option.splits)

end
