(* ===== verification/Go_Crypto.thy ===== *)
theory Go_Crypto
  imports Json
begin

text \<open>
  Packages \<^verbatim>\<open>crypto/sha256\<close>, \<^verbatim>\<open>crypto/hmac\<close>, \<^verbatim>\<open>encoding/hex\<close> and
  \<^verbatim>\<open>encoding/base64\<close>. A Go byte slice is a \<^typ>\<open>string\<close>, as Go strings are. SHA-256 and
  HMAC are the algorithms of FIPS 180-4 and RFC 2104 on 32-bit words, so that passwords and session
  tokens of the model are those of the program.
\<close>

section \<open>SHA-256\<close>

type_synonym word32 = "32 word"

text \<open>
  The round constants and the initial state: the first 32 bits of the fractional parts of the cube
  roots of the first 64 primes and of the square roots of the first eight, written in decimal.
\<close>

definition sha256_k :: "word32 list" where
  "sha256_k =
    [1116352408, 1899447441, 3049323471, 3921009573, 961987163, 1508970993,
     2453635748, 2870763221, 3624381080, 310598401, 607225278, 1426881987,
     1925078388, 2162078206, 2614888103, 3248222580, 3835390401, 4022224774,
     264347078, 604807628, 770255983, 1249150122, 1555081692, 1996064986,
     2554220882, 2821834349, 2952996808, 3210313671, 3336571891, 3584528711,
     113926993, 338241895, 666307205, 773529912, 1294757372, 1396182291,
     1695183700, 1986661051, 2177026350, 2456956037, 2730485921, 2820302411,
     3259730800, 3345764771, 3516065817, 3600352804, 4094571909, 275423344,
     430227734, 506948616, 659060556, 883997877, 958139571, 1322822218,
     1537002063, 1747873779, 1955562222, 2024104815, 2227730452, 2361852424,
     2428436474, 2756734187, 3204031479, 3329325298]"

definition sha256_h0 :: "word32 list" where
  "sha256_h0 = [1779033703, 3144134277, 1013904242, 2773480762, 1359893119, 2600822924,
     528734635, 1541459225]"

text \<open>The message schedule, newest word first.\<close>

definition schedule_next :: "word32 list \<Rightarrow> word32" where
  "schedule_next ws =
     (let w15 = ws ! 14; w2 = ws ! 1;
          s0 = word_rotr 7 w15 XOR word_rotr 18 w15 XOR drop_bit 3 w15;
          s1 = word_rotr 17 w2 XOR word_rotr 19 w2 XOR drop_bit 10 w2
      in ws ! 15 + s0 + ws ! 6 + s1)"

fun schedule :: "nat \<Rightarrow> word32 list \<Rightarrow> word32 list" where
  "schedule 0 ws = ws"
| "schedule (Suc n) ws = schedule n (schedule_next ws # ws)"

definition sha256_round :: "word32 list \<Rightarrow> word32 \<times> word32 \<Rightarrow> word32 list" where
  "sha256_round st = (\<lambda>(k, w). (case st of
       [a, b, c, d, e, f, g, h] \<Rightarrow>
         (let t1 = h + (word_rotr 6 e XOR word_rotr 11 e XOR word_rotr 25 e)
                   + ((e AND f) XOR (NOT e AND g)) + k + w;
              t2 = (word_rotr 2 a XOR word_rotr 13 a XOR word_rotr 22 a)
                   + ((a AND b) XOR (a AND c) XOR (b AND c))
          in [t1 + t2, a, b, c, d + t1, e, f, g])
     | _ \<Rightarrow> st))"

definition sha256_block :: "word32 list \<Rightarrow> word32 list \<Rightarrow> word32 list" where
  "sha256_block st ws =
     map2 (+) st (foldl sha256_round st (zip sha256_k (rev (schedule 48 (rev ws)))))"

fun be_words :: "string \<Rightarrow> word32 list" where
  "be_words (a # b # c # d # r) =
     of_int (((int (byte_of a) * 256 + int (byte_of b)) * 256 + int (byte_of c)) * 256 + int (byte_of d))
     # be_words r"
| "be_words _ = []"

fun sha256_blocks :: "nat \<Rightarrow> word32 list \<Rightarrow> word32 list \<Rightarrow> word32 list" where
  "sha256_blocks 0 st ws = st"
| "sha256_blocks (Suc n) st ws = sha256_blocks n (sha256_block st (take 16 ws)) (drop 16 ws)"

definition be_bytes :: "nat \<Rightarrow> int \<Rightarrow> string" where
  "be_bytes k n = map (\<lambda>i. char_of (nat (n div 256 ^ (k - 1 - i) mod 256))) [0..<k]"

definition sha256_pad :: "string \<Rightarrow> string" where
  "sha256_pad m =
     m @ char_of (128::nat) # replicate ((119 - length m mod 64) mod 64) (char_of (0::nat))
     @ be_bytes 8 (8 * int (length m))"

definition sha256 :: "string \<Rightarrow> string" where
  "sha256 m =
     (let p = sha256_pad m
      in concat (map (\<lambda>w. be_bytes 4 (uint w)) (sha256_blocks (length p div 64) sha256_h0 (be_words p))))"

section \<open>HMAC\<close>

definition xor_bytes :: "string \<Rightarrow> string \<Rightarrow> string" where
  "xor_bytes s t = map2 (\<lambda>a b. char_of (byte_of a XOR byte_of b)) s t"

definition hmac_sha256 :: "string \<Rightarrow> string \<Rightarrow> string" where
  "hmac_sha256 key m =
     (let k0 = (if 64 < length key then sha256 key else key);
          k = k0 @ replicate (64 - length k0) (char_of (0::nat))
      in sha256 (xor_bytes k (replicate 64 (char_of (92::nat)))
           @ sha256 (xor_bytes k (replicate 64 (char_of (54::nat))) @ m)))"

section \<open>Hexadecimal\<close>

definition hex_encode :: "string \<Rightarrow> string" where
  "hex_encode s = concat (map (\<lambda>c. [hex_digit (byte_of c div 16), hex_digit (byte_of c mod 16)]) s)"

fun hex_decode :: "string \<Rightarrow> string option" where
  "hex_decode [] = Some []"
| "hex_decode [c] = None"
| "hex_decode (a # b # r) =
     (case (hex_val a, hex_val b) of
        (Some x, Some y) \<Rightarrow> map_option (Cons (char_of (x * 16 + y))) (hex_decode r)
      | _ \<Rightarrow> None)"

section \<open>Base 64\<close>

definition b64_std :: string where
  "b64_std = ''ABCDEFGHIJKLMNOPQRSTUVWXYZabcdefghijklmnopqrstuvwxyz0123456789+/''"

definition b64_url :: string where
  "b64_url = ''ABCDEFGHIJKLMNOPQRSTUVWXYZabcdefghijklmnopqrstuvwxyz0123456789-_''"

text \<open>The encoder; \<open>pad\<close> fills the last group (nothing in the raw encoding).\<close>

fun b64_encode :: "string \<Rightarrow> string \<Rightarrow> string \<Rightarrow> string" where
  "b64_encode al pad [] = []"
| "b64_encode al pad [a] =
     [al ! (byte_of a div 4), al ! (byte_of a mod 4 * 16)] @ pad @ pad"
| "b64_encode al pad [a, b] =
     [al ! (byte_of a div 4), al ! (byte_of a mod 4 * 16 + byte_of b div 16),
      al ! (byte_of b mod 16 * 4)] @ pad"
| "b64_encode al pad (a # b # c # r) =
     [al ! (byte_of a div 4), al ! (byte_of a mod 4 * 16 + byte_of b div 16),
      al ! (byte_of b mod 16 * 4 + byte_of c div 64), al ! (byte_of c mod 64)] @ b64_encode al pad r"

definition b64_val :: "string \<Rightarrow> char \<Rightarrow> nat option" where
  "b64_val al c = IndexByte al c"

definition b64_tail2 :: "string \<Rightarrow> char \<Rightarrow> char \<Rightarrow> string option" where
  "b64_tail2 al a b = (case (b64_val al a, b64_val al b) of
       (Some x, Some y) \<Rightarrow> Some [char_of (x * 4 + y div 16)] | _ \<Rightarrow> None)"

definition b64_tail3 :: "string \<Rightarrow> char \<Rightarrow> char \<Rightarrow> char \<Rightarrow> string option" where
  "b64_tail3 al a b c = (case (b64_val al a, b64_val al b, b64_val al c) of
       (Some x, Some y, Some z) \<Rightarrow> Some [char_of (x * 4 + y div 16), char_of (y mod 16 * 16 + z div 4)]
     | _ \<Rightarrow> None)"

text \<open>The decoders of \<open>StdEncoding\<close> and \<open>RawURLEncoding\<close>; both skip line breaks.\<close>

fun b64_dec_std :: "string \<Rightarrow> string option" where
  "b64_dec_std [] = Some []"
| "b64_dec_std (a # b # c # d # r) =
     (if c = CHR ''='' then (if d = CHR ''='' \<and> r = [] then b64_tail2 b64_std a b else None)
      else if d = CHR ''='' then (if r = [] then b64_tail3 b64_std a b c else None)
      else (case (b64_val b64_std a, b64_val b64_std b, b64_val b64_std c, b64_val b64_std d) of
          (Some x, Some y, Some z, Some w) \<Rightarrow>
            map_option (\<lambda>t. [char_of (x * 4 + y div 16), char_of (y mod 16 * 16 + z div 4),
                             char_of (z mod 4 * 64 + w)] @ t) (b64_dec_std r)
        | _ \<Rightarrow> None))"
| "b64_dec_std _ = None"

fun b64_dec_url :: "string \<Rightarrow> string option" where
  "b64_dec_url [] = Some []"
| "b64_dec_url [a] = None"
| "b64_dec_url [a, b] = b64_tail2 b64_url a b"
| "b64_dec_url [a, b, c] = b64_tail3 b64_url a b c"
| "b64_dec_url (a # b # c # d # r) =
     (case (b64_val b64_url a, b64_val b64_url b, b64_val b64_url c, b64_val b64_url d) of
        (Some x, Some y, Some z, Some w) \<Rightarrow>
          map_option (\<lambda>t. [char_of (x * 4 + y div 16), char_of (y mod 16 * 16 + z div 4),
                           char_of (z mod 4 * 64 + w)] @ t) (b64_dec_url r)
      | _ \<Rightarrow> None)"

definition not_break :: "char \<Rightarrow> bool" where
  "not_break c \<longleftrightarrow> byte_of c \<noteq> 10 \<and> byte_of c \<noteq> 13"

definition StdEncode :: "string \<Rightarrow> string" where
  "StdEncode s = b64_encode b64_std ''='' s"

definition StdDecode :: "string \<Rightarrow> string option" where
  "StdDecode s = b64_dec_std (filter not_break s)"

definition RawURLEncode :: "string \<Rightarrow> string" where
  "RawURLEncode s = b64_encode b64_url [] s"

definition RawURLDecode :: "string \<Rightarrow> string option" where
  "RawURLDecode s = b64_dec_url (filter not_break s)"

section \<open>Lemmas\<close>

lemma hex_decode_encode [simp]: "hex_decode (hex_encode s) = Some s"
proof (induction s)
  case (Cons c s)
  have "byte_of c div 16 < 16" using byte_of_less [of c] by (simp add: less_mult_imp_div_less)
  with Cons show ?case by (simp add: hex_encode_def)
qed (simp add: hex_encode_def)

lemma length_hex_encode [simp]: "length (hex_encode s) = 2 * length s"
  by (induction s) (auto simp: hex_encode_def)

lemma b64_alphabets: "length b64_std = 64" "length b64_url = 64" "distinct b64_std" "distinct b64_url"
  "CHR ''='' \<notin> set b64_std" "list_all not_break b64_std" "list_all not_break b64_url" "not_break (CHR ''='')"
  "CHR ''.'' \<notin> set b64_url"
  by code_simp+

lemma IndexByte_nth: "distinct xs \<Longrightarrow> i < length xs \<Longrightarrow> IndexByte xs (xs ! i) = Some i"
proof (induction xs arbitrary: i)
  case (Cons x xs)
  then show ?case by (cases i) auto
qed simp

lemma b64_val_nth [simp]: "i < 64 \<Longrightarrow> b64_val b64_std (b64_std ! i) = Some i"
  "i < 64 \<Longrightarrow> b64_val b64_url (b64_url ! i) = Some i"
  by (simp_all add: b64_val_def IndexByte_nth b64_alphabets)

lemma b64_std_nth_neq [simp]: "i < 64 \<Longrightarrow> b64_std ! i \<noteq> CHR ''=''"
proof
  assume "i < 64" "b64_std ! i = CHR ''=''"
  then have "CHR ''='' \<in> set b64_std" using nth_mem [of i b64_std] b64_alphabets(1) by simp
  with b64_alphabets(5) show False by contradiction
qed

lemma sextet_bounds:
  "byte_of a div 4 < 64" "byte_of a mod 4 * 16 < 64" "byte_of a mod 4 * 16 + byte_of b div 16 < 64"
  "byte_of b mod 16 * 4 < 64" "byte_of b mod 16 * 4 + byte_of c div 64 < 64" "byte_of c mod 64 < 64"
  using byte_of_less [of a] byte_of_less [of b] byte_of_less [of c] by linarith+

lemma byte_parts: "byte_of c div 16 div 16 = 0" "byte_of c div 16 mod 16 = byte_of c div 16"
  "byte_of c div 64 div 4 = 0" "byte_of c div 64 mod 4 = byte_of c div 64"
proof -
  have "byte_of c div 16 < 16" "byte_of c div 64 < 4"
    using byte_of_less [of c] by (simp_all add: less_mult_imp_div_less)
  then show "byte_of c div 16 div 16 = 0" "byte_of c div 16 mod 16 = byte_of c div 16"
    "byte_of c div 64 div 4 = 0" "byte_of c div 64 mod 4 = byte_of c div 64" by simp_all
qed

lemmas b64_simps = sextet_bounds byte_parts

lemma b64_dec_std_encode: "b64_dec_std (b64_encode b64_std ''='' s) = Some s"
  by (induction b64_std "''=''" s rule: b64_encode.induct)
    (simp_all add: b64_tail2_def b64_tail3_def b64_simps)

lemma b64_dec_url_encode: "b64_dec_url (b64_encode b64_url [] s) = Some s"
  by (induction b64_url "[] :: string" s rule: b64_encode.induct)
    (simp_all add: b64_tail2_def b64_tail3_def b64_simps)

lemma b64_encode_set: "length al = 64 \<Longrightarrow> set (b64_encode al pad s) \<subseteq> set al \<union> set pad"
  by (induction al pad s rule: b64_encode.induct) (auto simp: sextet_bounds)

lemma filter_b64: "length al = 64 \<Longrightarrow> list_all not_break (al @ pad) \<Longrightarrow>
    filter not_break (b64_encode al pad s) = b64_encode al pad s"
  using b64_encode_set [of al pad s] by (auto simp: filter_id_conv list_all_iff)

lemma StdDecode_StdEncode [simp]: "StdDecode (StdEncode s) = Some s"
  by (simp add: StdDecode_def StdEncode_def filter_b64 b64_alphabets b64_dec_std_encode)

lemma RawURLDecode_RawURLEncode [simp]: "RawURLDecode (RawURLEncode s) = Some s"
  by (simp add: RawURLDecode_def RawURLEncode_def filter_b64 b64_alphabets b64_dec_url_encode)

lemma RawURLEncode_no_dot [simp]: "CHR ''.'' \<notin> set (RawURLEncode s)"
  using b64_encode_set [of b64_url "[]" s] b64_alphabets by (auto simp: RawURLEncode_def)

lemma length_be_bytes [simp]: "length (be_bytes k n) = k"
  by (simp add: be_bytes_def)

lemma length_sha256_round: "length st = 8 \<Longrightarrow> length (sha256_round st kw) = 8"
  by (cases kw) (auto simp: sha256_round_def Let_def split: list.splits)

lemma length_sha256_block: "length st = 8 \<Longrightarrow> length (sha256_block st ws) = 8"
proof -
  have "length st = 8 \<Longrightarrow> length (foldl sha256_round st kws) = 8" for kws
    by (induction kws arbitrary: st) (auto simp: length_sha256_round)
  then show "length st = 8 \<Longrightarrow> length (sha256_block st ws) = 8" by (simp add: sha256_block_def)
qed

lemma length_sha256_blocks: "length st = 8 \<Longrightarrow> length (sha256_blocks n st ws) = 8"
  by (induction n arbitrary: st ws) (auto simp: length_sha256_block)

lemma length_sha256 [simp]: "length (sha256 m) = 32"
proof -
  have "length sha256_h0 = 8" by (simp add: sha256_h0_def)
  then show ?thesis
    by (simp add: sha256_def Let_def length_concat o_def length_sha256_blocks sum_list_triv)
qed

lemma length_hmac_sha256 [simp]: "length (hmac_sha256 key m) = 32"
  by (simp add: hmac_sha256_def Let_def)

end
