(* ===== verification/Go_Time.thy ===== *)
theory Go_Time
  imports Go_Prelude
begin

text \<open>
  The part of package \<^verbatim>\<open>time\<close> that the proxy uses: Unix seconds, the UTC date
  \<^verbatim>\<open>2006-01-02\<close>, and RFC 3339 time stamps, printed in UTC and parsed with the leniency of
  \<^verbatim>\<open>time.Parse\<close> (a one-digit hour, a fraction after a point or a comma, a numeric zone). A
  time is a number of nanoseconds since the Unix epoch, of any sign.
\<close>

section \<open>The calendar\<close>

definition unix :: "time \<Rightarrow> int" where
  "unix t = t div second"

definition leap :: "int \<Rightarrow> bool" where
  "leap y \<longleftrightarrow> y mod 4 = 0 \<and> (y mod 100 \<noteq> 0 \<or> y mod 400 = 0)"

definition year_len :: "int \<Rightarrow> int" where
  "year_len y = (if leap y then 366 else 365)"

definition month_lens :: "int \<Rightarrow> int list" where
  "month_lens y = [31, if leap y then 29 else 28, 31, 30, 31, 30, 31, 31, 30, 31, 30, 31]"

definition era_lens :: "int list" where
  "era_lens = map year_len [0..399]"

text \<open>The position of a day in a sequence of periods: the period and the day within it.\<close>

fun split_by :: "int list \<Rightarrow> int \<Rightarrow> int \<times> int" where
  "split_by [] d = (0, d)"
| "split_by (l # ls) d =
     (if d < l then (0, d) else (let (i, r) = split_by ls (d - l) in (i + 1, r)))"

definition epoch_days :: int where
  "epoch_days = 719528"

text \<open>Year, month (from 1) and day of month (from 1) of a day counted from the epoch.\<close>

definition civil :: "int \<Rightarrow> int \<times> int \<times> int" where
  "civil day =
     (let d = day + epoch_days;
          (yoe, doy) = split_by era_lens (d mod 146097);
          y = 400 * (d div 146097) + yoe;
          (m, dd) = split_by (month_lens y) doy
      in (y, m + 1, dd + 1))"

definition days_of_civil :: "int \<Rightarrow> int \<Rightarrow> int \<Rightarrow> int" where
  "days_of_civil y m d =
     146097 * (y div 400) + sum_list (take (nat (y mod 400)) era_lens)
     + sum_list (take (nat (m - 1)) (month_lens y)) + (d - 1) - epoch_days"

section \<open>Printing and parsing\<close>

definition pad2 :: "int \<Rightarrow> string" where
  "pad2 n = [digit_char (n div 10), digit_char (n mod 10)]"

definition pad4 :: "int \<Rightarrow> string" where
  "pad4 n = (if n < 0 then CHR ''-'' # replicate (4 - length (pos_dec (- n))) (CHR ''0'') @ pos_dec (- n)
     else if n < 10000 then pad2 (n div 100) @ pad2 (n mod 100) else pos_dec n)"

definition FormatDate :: "time \<Rightarrow> string" where
  "FormatDate t =
     (let (y, m, d) = civil (unix t div 86400) in pad4 y @ ''-'' @ pad2 m @ ''-'' @ pad2 d)"

definition FormatRFC3339 :: "time \<Rightarrow> string" where
  "FormatRFC3339 t =
     (let s = unix t mod 86400 in
      FormatDate t @ ''T'' @ pad2 (s div 3600) @ '':'' @ pad2 (s mod 3600 div 60) @ '':''
      @ pad2 (s mod 60) @ ''Z'')"

definition get2 :: "string \<Rightarrow> (int \<times> string) option" where
  "get2 s = (case s of a # b # r \<Rightarrow>
       if is_digit a \<and> is_digit b then Some (10 * digit_val a + digit_val b, r) else None
     | _ \<Rightarrow> None)"

definition get12 :: "string \<Rightarrow> (int \<times> string) option" where
  "get12 s = (case s of [] \<Rightarrow> None
     | a # r \<Rightarrow> if \<not> is_digit a then None
                 else (case get2 s of Some x \<Rightarrow> Some x | None \<Rightarrow> Some (digit_val a, r)))"

definition expect :: "char \<Rightarrow> string \<Rightarrow> string option" where
  "expect c s = (case s of [] \<Rightarrow> None | x # r \<Rightarrow> if x = c then Some r else None)"

definition get_frac :: "string \<Rightarrow> int \<times> string" where
  "get_frac s = (case s of c # d # r \<Rightarrow>
       if (c = CHR ''.'' \<or> c = CHR '','') \<and> is_digit d
       then let ds = takeWhile is_digit (d # r)
            in (dec_val 0 (take 9 (ds @ replicate 9 (CHR ''0''))), dropWhile is_digit (d # r))
       else (0, s)
     | _ \<Rightarrow> (0, s))"

definition get_zone :: "string \<Rightarrow> (int \<times> string) option" where
  "get_zone s = (case s of [] \<Rightarrow> None
     | c # r \<Rightarrow>
        if c = CHR ''Z'' then Some (0, r)
        else Option.bind (get2 r) (\<lambda>(h, r1). Option.bind (expect CHR '':'' r1) (\<lambda>r2.
             Option.bind (get2 r2) (\<lambda>(m, r3).
               if 24 < h \<or> 60 < m then None
               else if c = CHR ''+'' then Some ((h * 60 + m) * 60, r3)
               else if c = CHR ''-'' then Some (- ((h * 60 + m) * 60), r3) else None))))"

definition ParseRFC3339 :: "string \<Rightarrow> time option" where
  "ParseRFC3339 s =
     Option.bind (get2 s) (\<lambda>(y1, s). Option.bind (get2 s) (\<lambda>(y2, s).
     Option.bind (expect CHR ''-'' s) (\<lambda>s. Option.bind (get2 s) (\<lambda>(mo, s).
     Option.bind (expect CHR ''-'' s) (\<lambda>s. Option.bind (get2 s) (\<lambda>(d, s).
     Option.bind (expect CHR ''T'' s) (\<lambda>s. Option.bind (get12 s) (\<lambda>(h, s).
     Option.bind (expect CHR '':'' s) (\<lambda>s. Option.bind (get2 s) (\<lambda>(mi, s).
     Option.bind (expect CHR '':'' s) (\<lambda>s. Option.bind (get2 s) (\<lambda>(se, s).
     (let y = 100 * y1 + y2; (ns, s) = get_frac s in
      Option.bind (get_zone s) (\<lambda>(off, s).
        if s \<noteq> [] \<or> mo < 1 \<or> 12 < mo \<or> 23 < h \<or> 59 < mi \<or> 59 < se \<or> d < 1
           \<or> month_lens y ! nat (mo - 1) < d then None
        else Some ((days_of_civil y mo d * 86400 + h * 3600 + mi * 60 + se - off) * second + ns))
     )))))))))))))"

section \<open>Lemmas\<close>

lemma split_by_props:
  assumes "split_by ls d = (i, r)" "0 \<le> d" "d < sum_list ls" "\<forall>l \<in> set ls. 0 < l"
  shows "0 \<le> i \<and> i < int (length ls) \<and> 0 \<le> r \<and> r < ls ! nat i \<and> sum_list (take (nat i) ls) + r = d"
  using assms
proof (induction ls d arbitrary: i r rule: split_by.induct)
  case (2 l ls d)
  show ?case
  proof (cases "d < l")
    case False
    obtain j r' where s: "split_by ls (d - l) = (j, r')" by fastforce
    with 2 False have p: "0 \<le> j \<and> j < int (length ls) \<and> 0 \<le> r' \<and> r' < ls ! nat j
      \<and> sum_list (take (nat j) ls) + r' = d - l" by simp
    have "i = j + 1" "r = r'" using 2(2) False s by auto
    then show ?thesis using p by (simp add: nat_add_distrib)
  qed (use 2 in auto)
qed simp

lemma era_lens_simps [simp]: "sum_list era_lens = 146097" "length era_lens = 400" "\<forall>l \<in> set era_lens. 0 < l"
  by (code_simp, code_simp, auto simp: era_lens_def year_len_def)

lemma era_lens_nth: "0 \<le> i \<Longrightarrow> i < 400 \<Longrightarrow> era_lens ! nat i = year_len i"
  by (simp add: era_lens_def)

lemma leap_mod400: "leap (y mod 400) = leap y"
proof -
  have "y mod 400 mod 4 = y mod 4" "y mod 400 mod 100 = y mod 100" by (simp_all add: mod_mod_cancel)
  then show ?thesis by (simp add: leap_def)
qed

lemma month_lens_simps [simp]: "sum_list (month_lens y) = year_len y" "length (month_lens y) = 12"
  "\<forall>l \<in> set (month_lens y). 0 < l" "month_lens y \<noteq> []"
  by (auto simp: month_lens_def year_len_def)

lemma month_lens_le: "0 \<le> i \<Longrightarrow> i < 12 \<Longrightarrow> month_lens y ! nat i \<le> 31"
proof -
  assume "0 \<le> i" "i < 12"
  then have "month_lens y ! nat i \<in> set (month_lens y)" by (intro nth_mem) simp
  then show ?thesis by (auto simp: month_lens_def)
qed

text \<open>The date of a day is a date of the calendar, and the day can be read back from it.\<close>

lemma civil_props:
  assumes "civil day = (y, m, d)"
  shows "1 \<le> m \<and> m \<le> 12 \<and> 1 \<le> d \<and> d \<le> month_lens y ! nat (m - 1) \<and> days_of_civil y m d = day"
proof -
  define D where "D = day + epoch_days"
  obtain yoe doy where s1: "split_by era_lens (D mod 146097) = (yoe, doy)" by fastforce
  obtain i r where s2: "split_by (month_lens (400 * (D div 146097) + yoe)) doy = (i, r)" by fastforce
  have y: "y = 400 * (D div 146097) + yoe" "m = i + 1" "d = r + 1"
    using assms s1 s2 by (auto simp: civil_def D_def Let_def)
  have p1: "0 \<le> yoe \<and> yoe < 400 \<and> 0 \<le> doy \<and> doy < year_len yoe
      \<and> sum_list (take (nat yoe) era_lens) + doy = D mod 146097"
    using split_by_props [OF s1] by (auto simp: era_lens_nth)
  then have yq: "y mod 400 = yoe" "y div 400 = D div 146097" by (simp_all add: y)
  then have "year_len yoe = year_len y" using leap_mod400 [of y] by (simp add: year_len_def)
  then have p2: "0 \<le> i \<and> i < 12 \<and> 0 \<le> r \<and> r < month_lens y ! nat i
      \<and> sum_list (take (nat i) (month_lens y)) + r = doy"
    using split_by_props [OF s2] p1 y by auto
  have "146097 * (D div 146097) + (sum_list (take (nat yoe) era_lens)
      + (sum_list (take (nat i) (month_lens y)) + r)) = D"
    using p1 p2 by simp
  then have "days_of_civil y m d = day"
    by (simp add: days_of_civil_def y(2,3) yq D_def)
  then show ?thesis using p2 y(2,3) by simp
qed

lemma get2_pad2 [simp]: "0 \<le> n \<Longrightarrow> n < 100 \<Longrightarrow> get2 (pad2 n @ s) = Some (n, s)"
  by (auto simp: get2_def pad2_def digit_char_digit)

lemma get12_pad2 [simp]: "0 \<le> n \<Longrightarrow> n < 100 \<Longrightarrow> get12 (pad2 n @ s) = Some (n, s)"
  using get2_pad2 [of n s] by (auto simp: get12_def pad2_def digit_char_digit)

lemma expect_Cons [simp]: "expect c (c # s) = Some s"
  by (simp add: expect_def)

lemma get_frac_Z: "get_frac ''Z'' = (0, ''Z'')"
  by (simp add: get_frac_def)

lemma get_zone_Z: "get_zone ''Z'' = Some (0, [])"
  by (simp add: get_zone_def)

lemma ParseRFC3339_fields:
  assumes "0 \<le> y1" "y1 < 100" "0 \<le> y2" "y2 < 100" "1 \<le> m" "m \<le> 12" "1 \<le> d" "d \<le> 31"
    "d \<le> month_lens (100 * y1 + y2) ! nat (m - 1)" "0 \<le> h" "h \<le> 23" "0 \<le> mi" "mi \<le> 59" "0 \<le> se" "se \<le> 59"
  shows "ParseRFC3339 (pad2 y1 @ pad2 y2 @ CHR ''-'' # pad2 m @ CHR ''-'' # pad2 d @ CHR ''T'' # pad2 h
      @ CHR '':'' # pad2 mi @ CHR '':'' # pad2 se @ ''Z'') =
    Some ((days_of_civil (100 * y1 + y2) m d * 86400 + h * 3600 + mi * 60 + se) * second)"
  using assms by (simp add: ParseRFC3339_def get_frac_Z get_zone_Z)

lemma ParseRFC3339_FormatRFC3339:
  assumes "civil (unix t div 86400) = (y, m, d)" "0 \<le> y" "y < 10000"
  shows "ParseRFC3339 (FormatRFC3339 t) = Some (unix t * second)"
proof -
  note c = civil_props [OF assms(1)]
  define s where "s = unix t mod 86400"
  have s: "0 \<le> s" "s < 86400" by (auto simp: s_def)
  have "s mod 60 = s mod 3600 mod 60" by (simp add: mod_mod_cancel)
  then have "s mod 3600 = s mod 3600 div 60 * 60 + s mod 60" by simp
  then have "s div 3600 * 3600 + (s mod 3600 div 60 * 60 + s mod 60) = s" by simp
  moreover have "days_of_civil y m d * 86400 + s = unix t" using c by (simp add: s_def)
  ultimately have t: "days_of_civil y m d * 86400 + s div 3600 * 3600 + s mod 3600 div 60 * 60 + s mod 60 = unix t"
    by simp
  have y: "100 * (y div 100) + y mod 100 = y" by simp
  have p4: "pad4 y = pad2 (y div 100) @ pad2 (y mod 100)" using assms(2,3) by (simp add: pad4_def)
  have f: "FormatRFC3339 t = pad2 (y div 100) @ pad2 (y mod 100) @ CHR ''-'' # pad2 m @ CHR ''-'' # pad2 d
      @ CHR ''T'' # pad2 (s div 3600) @ CHR '':'' # pad2 (s mod 3600 div 60) @ CHR '':'' # pad2 (s mod 60) @ ''Z''"
    unfolding FormatRFC3339_def FormatDate_def p4 Let_def assms(1) prod.case s_def [symmetric]
    by (simp only: append.simps append_assoc)
  have "d \<le> 31" using c month_lens_le [of "m - 1" y] by force
  moreover have "0 \<le> y div 100" "y div 100 < 100" "0 \<le> y mod 100" "y mod 100 < 100" using assms(2,3) by auto
  moreover have "0 \<le> s div 3600" "s div 3600 \<le> 23" "0 \<le> s mod 3600 div 60" "s mod 3600 div 60 \<le> 59"
    "0 \<le> s mod 60" "s mod 60 \<le> 59"
    using s by (auto simp: pos_imp_zdiv_nonneg_iff)
  ultimately have "ParseRFC3339 (FormatRFC3339 t) =
      Some ((days_of_civil (100 * (y div 100) + y mod 100) m d * 86400 + s div 3600 * 3600
        + s mod 3600 div 60 * 60 + s mod 60) * second)"
    unfolding f using c by (intro ParseRFC3339_fields) (simp_all only: y)
  then show ?thesis by (simp only: y t)
qed

end
