(* ===== verification/Credentials.thy ===== *)
theory Credentials
  imports Go_Crypto Go_Time
begin

text \<open>
  The stateless half of \<^verbatim>\<open>auth.go\<close>: password hashing with PBKDF2, and the signed session
  tokens. Randomness (the salt) and the current time are arguments. The loop of
  \<open>pbkdf2SHA256\<close> runs a fixed number of rounds, so it is structural recursion.
\<close>

section \<open>Passwords\<close>

definition pbkdf2Iterations :: int where "pbkdf2Iterations = 600000"
definition pbkdf2KeyLen :: nat where "pbkdf2KeyLen = 32"

text \<open>The inner loop: \<open>n\<close> more rounds of \<open>u = prf(u); t ^= u\<close>.\<close>

fun pbkdf2_rounds :: "(string \<Rightarrow> string) \<Rightarrow> nat \<Rightarrow> string \<Rightarrow> string \<Rightarrow> string" where
  "pbkdf2_rounds prf 0 u t = t"
| "pbkdf2_rounds prf (Suc n) u t = (let u' = prf u in pbkdf2_rounds prf n u' (xor_bytes t u'))"

definition pbkdf2_block :: "(string \<Rightarrow> string) \<Rightarrow> string \<Rightarrow> int \<Rightarrow> nat \<Rightarrow> string" where
  "pbkdf2_block prf salt iter block =
     (let u = prf (salt @ be_bytes 4 (int block)) in pbkdf2_rounds prf (nat (iter - 1)) u u)"

definition pbkdf2SHA256 :: "string \<Rightarrow> string \<Rightarrow> int \<Rightarrow> nat \<Rightarrow> string" where
  "pbkdf2SHA256 password salt iter keyLen =
     (let prf = hmac_sha256 password;
          hashLen = length (prf []);
          numBlocks = (keyLen + hashLen - 1) div hashLen
      in take keyLen (concat (map (pbkdf2_block prf salt iter) [1..<Suc numBlocks])))"

text \<open>\<open>HashPassword\<close> with the 16 random bytes it drew, \<^const>\<open>None\<close> when that failed.\<close>

definition HashPassword :: "string option \<Rightarrow> string \<Rightarrow> string option" where
  "HashPassword rand password =
     (case rand of None \<Rightarrow> None
      | Some salt \<Rightarrow>
         Some (''pbkdf2$'' @ int_dec pbkdf2Iterations @ ''$'' @ hex_encode salt @ ''$''
           @ hex_encode (pbkdf2SHA256 password salt pbkdf2Iterations pbkdf2KeyLen)))"

definition VerifyPassword :: "string \<Rightarrow> string \<Rightarrow> bool" where
  "VerifyPassword hash password =
     (case SplitByte hash CHR ''$'' of
        [p0, p1, p2, p3] \<Rightarrow>
          if p0 \<noteq> ''pbkdf2'' then False
          else
            let iterations = (case Sscanf_d p1 of None \<Rightarrow> 0 | Some n \<Rightarrow> n) in
            if iterations < 10000 then False
            else (case hex_decode p2 of None \<Rightarrow> False
              | Some salt \<Rightarrow>
                 (case hex_decode p3 of None \<Rightarrow> False
                  | Some want \<Rightarrow> pbkdf2SHA256 password salt iterations (length want) = want))
      | _ \<Rightarrow> False)"

definition IsDefaultPassword :: "string \<Rightarrow> bool" where
  "IsDefaultPassword hash = VerifyPassword hash ''admin123''"

text \<open>The check of a hash's form on import (\<^verbatim>\<open>admin.go\<close>).\<close>

definition validPasswordHash :: "string \<Rightarrow> bool" where
  "validPasswordHash hash =
     (case SplitByte hash CHR ''$'' of
        [p0, p1, p2, p3] \<Rightarrow>
          if p0 \<noteq> ''pbkdf2'' then False
          else (case Sscanf_d p1 of None \<Rightarrow> 0 | Some n \<Rightarrow> n) \<ge> 10000
      | _ \<Rightarrow> False)"

section \<open>Session tokens\<close>

definition token_payload :: "string \<Rightarrow> int \<Rightarrow> int \<Rightarrow> json" where
  "token_payload username exp epoch =
     JObj [(''exp'', jint exp), (''u'', JStr username), (''v'', jint epoch)]"

definition issueToken :: "time \<Rightarrow> string \<Rightarrow> string \<Rightarrow> time \<Rightarrow> int \<Rightarrow> string" where
  "issueToken now sessionKey username ttl tokenEpoch =
     (let p = RawURLEncode (Marshal (token_payload username (unix (now + ttl)) tokenEpoch));
          s = RawURLEncode (hmac_sha256 sessionKey p)
      in p @ ''.'' @ s)"

definition dec_payload :: "json \<Rightarrow> (string \<times> int \<times> int) option" where
  "dec_payload v = (case v of
       JNull \<Rightarrow> Some ([], 0, 0)
     | JObj ms \<Rightarrow>
         (case (dec_field ''u'' dec_string ms [], dec_field ''exp'' dec_int ms 0, dec_field ''v'' dec_int ms 0) of
            (Some u, Some e, Some ep) \<Rightarrow> Some (u, e, ep) | _ \<Rightarrow> None)
     | _ \<Rightarrow> None)"

definition verifyToken :: "time \<Rightarrow> string \<Rightarrow> string \<Rightarrow> (string \<times> int \<times> int) option" where
  "verifyToken now sessionKey token =
     (case SplitByte token CHR ''.'' of
        [p, s] \<Rightarrow>
          (case RawURLDecode s of None \<Rightarrow> None
           | Some rawMac \<Rightarrow>
              if rawMac \<noteq> hmac_sha256 sessionKey p then None
              else (case RawURLDecode p of None \<Rightarrow> None
                | Some raw \<Rightarrow>
                   (case Option.bind (Parse raw) dec_payload of None \<Rightarrow> None
                    | Some (u, e, ep) \<Rightarrow>
                       if u = [] then None
                       else if e < unix now then None else Some (u, e, ep))))
      | _ \<Rightarrow> None)"

section \<open>The key derivation function of RFC 2898\<close>

text \<open>
  The reference: block \<open>b\<close> of the derived key is the exclusive or of \<open>U1, \<dots>, Uc\<close>,
  where \<open>U1\<close> authenticates the salt and the block number and each further one its predecessor.
\<close>

definition rfc_U :: "(string \<Rightarrow> string) \<Rightarrow> string \<Rightarrow> nat \<Rightarrow> nat \<Rightarrow> string" where
  "rfc_U prf salt block i = (prf ^^ Suc i) (salt @ be_bytes 4 (int block))"

definition rfc_T :: "(string \<Rightarrow> string) \<Rightarrow> string \<Rightarrow> nat \<Rightarrow> nat \<Rightarrow> string" where
  "rfc_T prf salt c block =
     foldl xor_bytes (rfc_U prf salt block 0) (map (rfc_U prf salt block) [1..<c])"

definition rfc_pbkdf2 :: "(string \<Rightarrow> string) \<Rightarrow> nat \<Rightarrow> string \<Rightarrow> nat \<Rightarrow> nat \<Rightarrow> string" where
  "rfc_pbkdf2 prf hLen salt c dkLen =
     take dkLen (concat (map (rfc_T prf salt c) [1..<Suc ((dkLen + hLen - 1) div hLen)]))"

lemma pbkdf2_rounds_fold:
  "pbkdf2_rounds prf n (rfc_U prf salt b k) t =
     foldl xor_bytes t (map (rfc_U prf salt b) [Suc k..<Suc k + n])"
proof (induction n arbitrary: k t)
  case (Suc n)
  have u: "prf (rfc_U prf salt b k) = rfc_U prf salt b (Suc k)" by (simp add: rfc_U_def)
  have l: "[Suc k..<Suc k + Suc n] = Suc k # [Suc (Suc k)..<Suc (Suc k) + n]"
    by (subst upt_conv_Cons) simp_all
  have "pbkdf2_rounds prf (Suc n) (rfc_U prf salt b k) t =
      foldl xor_bytes (xor_bytes t (rfc_U prf salt b (Suc k))) (map (rfc_U prf salt b) [Suc (Suc k)..<Suc (Suc k) + n])"
    using Suc [of "Suc k" "xor_bytes t (rfc_U prf salt b (Suc k))"] by (simp only: pbkdf2_rounds.simps Let_def u)
  then show ?case by (simp only: l list.map foldl_Cons)
qed simp

lemma pbkdf2_block_rfc: "1 \<le> iter \<Longrightarrow> pbkdf2_block prf salt iter b = rfc_T prf salt (nat iter) b"
proof -
  assume i: "1 \<le> iter"
  have "prf (salt @ be_bytes 4 (int b)) = rfc_U prf salt b 0" by (simp add: rfc_U_def)
  moreover have "Suc 0 + nat (iter - 1) = nat iter" using i by linarith
  ultimately show ?thesis
    using pbkdf2_rounds_fold [of "prf" "nat (iter - 1)" salt b "0" "rfc_U prf salt b 0"]
    by (simp add: pbkdf2_block_def rfc_T_def)
qed

lemma length_xor_bytes [simp]: "length (xor_bytes s t) = min (length s) (length t)"
  by (simp add: xor_bytes_def)

lemma length_rfc_T: "length (rfc_T (hmac_sha256 k) salt c b) = 32"
proof -
  have "length x = 32 \<Longrightarrow> length (foldl xor_bytes x (map (rfc_U (hmac_sha256 k) salt b) is)) = 32" for x "is"
    by (induction "is" arbitrary: x) (auto simp: rfc_U_def)
  then show ?thesis by (simp add: rfc_T_def rfc_U_def)
qed

lemma pbkdf2SHA256_rfc:
  "1 \<le> iter \<Longrightarrow> pbkdf2SHA256 pw salt iter n = rfc_pbkdf2 (hmac_sha256 pw) 32 salt (nat iter) n"
  by (simp add: pbkdf2SHA256_def rfc_pbkdf2_def pbkdf2_block_rfc Let_def cong: map_cong)

lemma length_pbkdf2SHA256: "1 \<le> iter \<Longrightarrow> length (pbkdf2SHA256 pw salt iter n) = n"
proof -
  assume "1 \<le> iter"
  moreover have "n \<le> 32 * ((n + 31) div 32)" by presburger
  ultimately show ?thesis
    by (simp add: pbkdf2SHA256_rfc rfc_pbkdf2_def length_concat o_def length_rfc_T sum_list_triv
        del: upt_Suc)
qed

section \<open>Lemmas on hashes and tokens\<close>

lemma byte_of_dollar [simp]: "byte_of (CHR ''$'') = 36"
  by code_simp

lemma hex_digit_neq: "d < 16 \<Longrightarrow> hex_digit d \<noteq> CHR ''$''"
  by (auto simp: hex_digit_def byte_of_eq_iff [symmetric])

lemma hex_encode_no_dollar: "CHR ''$'' \<notin> set (hex_encode s)"
proof -
  have "byte_of c div 16 < 16" for c using byte_of_less [of c] by (simp add: less_mult_imp_div_less)
  then have "\<forall>c \<in> set s. CHR ''$'' \<noteq> hex_digit (byte_of c div 16) \<and> CHR ''$'' \<noteq> hex_digit (byte_of c mod 16)"
    using hex_digit_neq by (metis mod_less_divisor zero_less_numeral)
  then show ?thesis by (auto simp: hex_encode_def)
qed

lemma SplitByte_hash:
  assumes "CHR ''$'' \<notin> set a" "CHR ''$'' \<notin> set b" "CHR ''$'' \<notin> set c" "CHR ''$'' \<notin> set d"
  shows "SplitByte (a @ CHR ''$'' # b @ CHR ''$'' # c @ CHR ''$'' # d) CHR ''$'' = [a, b, c, d]"
  using assms by (simp add: SplitByte_append SplitByte_no_sep)

lemma iterations_text: "int_dec pbkdf2Iterations = ''600000''" "Sscanf_d ''600000'' = Some 600000"
  by code_simp+

lemma VerifyPassword_hash_string:
  assumes "CHR ''$'' \<notin> set n" "Sscanf_d n = Some iter" "10000 \<le> iter"
  shows "VerifyPassword (''pbkdf2$'' @ n @ ''$'' @ hex_encode salt @ ''$'' @ hex_encode want) pw
    \<longleftrightarrow> pbkdf2SHA256 pw salt iter (length want) = want"
proof -
  have "SplitByte (''pbkdf2'' @ CHR ''$'' # n @ CHR ''$'' # hex_encode salt @ CHR ''$'' # hex_encode want) CHR ''$''
      = [''pbkdf2'', n, hex_encode salt, hex_encode want]"
    by (rule SplitByte_hash) (use assms hex_encode_no_dollar in auto)
  then show ?thesis using assms by (simp add: VerifyPassword_def)
qed

lemma VerifyPassword_HashPassword:
  assumes "HashPassword (Some salt) pw = Some h"
  shows "VerifyPassword h pw' \<longleftrightarrow> pbkdf2SHA256 pw' salt 600000 32 = pbkdf2SHA256 pw salt 600000 32"
proof -
  let ?dk = "pbkdf2SHA256 pw salt 600000 32"
  have h: "h = ''pbkdf2$'' @ ''600000'' @ ''$'' @ hex_encode salt @ ''$'' @ hex_encode ?dk"
    using assms by (simp add: HashPassword_def iterations_text(1)) (simp add: pbkdf2Iterations_def pbkdf2KeyLen_def)
  have "length ?dk = 32" by (simp add: length_pbkdf2SHA256)
  then show ?thesis unfolding h by (subst VerifyPassword_hash_string [OF _ iterations_text(2)]) auto
qed

lemma HashPassword_own: "HashPassword salt pw = Some h \<Longrightarrow> VerifyPassword h pw"
  by (cases salt) (simp_all add: HashPassword_def [of None] VerifyPassword_HashPassword)

lemma Parse_token_payload: "in_int64 exp \<Longrightarrow> in_int64 epoch \<Longrightarrow>
    Option.bind (Parse (Marshal (token_payload username exp epoch))) dec_payload = Some (username, exp, epoch)"
proof -
  assume *: "in_int64 exp" "in_int64 epoch"
  have e: "EqualFold ''exp'' ''exp''" "EqualFold ''u'' ''u''" "EqualFold ''v'' ''v''" "\<not> EqualFold ''exp'' ''u''"
    "\<not> EqualFold ''exp'' ''v''" "\<not> EqualFold ''u'' ''exp''" "\<not> EqualFold ''u'' ''v''" "\<not> EqualFold ''v'' ''u''"
    "\<not> EqualFold ''v'' ''exp''"
    by code_simp+
  have "json_ok (token_payload username exp epoch)" by (rule json_okI) (simp_all add: token_payload_def)
  with * e show ?thesis by (simp add: Parse_Marshal) (simp add: token_payload_def dec_payload_def)
qed

lemma SplitByte_token:
  "SplitByte (RawURLEncode a @ CHR ''.'' # RawURLEncode b) CHR ''.'' = [RawURLEncode a, RawURLEncode b]"
  by (simp add: SplitByte_append SplitByte_no_sep)

lemma verifyToken_issueToken:
  assumes "u \<noteq> []" "in_int64 (unix (now + ttl))" "in_int64 epoch"
  shows "verifyToken later key (issueToken now key u ttl epoch) =
    (if unix (now + ttl) < unix later then None else Some (u, unix (now + ttl), epoch))"
  using assms
  by (simp add: verifyToken_def issueToken_def Let_def SplitByte_token Parse_token_payload)

lemma hex_digit_nul: "d < 16 \<Longrightarrow> hex_digit d \<noteq> char_of (0 :: nat)"
  by (auto simp: hex_digit_def byte_of_eq_iff [symmetric])

lemma hex_encode_no_nul: "char_of (0 :: nat) \<notin> set (hex_encode s)"
proof -
  have "byte_of c div 16 < 16" for c using byte_of_less [of c] by (simp add: less_mult_imp_div_less)
  then have "\<forall>c \<in> set s. char_of (0 :: nat) \<noteq> hex_digit (byte_of c div 16) \<and> char_of (0 :: nat) \<noteq> hex_digit (byte_of c mod 16)"
    using hex_digit_nul by (metis mod_less_divisor zero_less_numeral)
  then show ?thesis by (auto simp: hex_encode_def)
qed

lemma HashPassword_no_nul: "HashPassword salt pw = Some h \<Longrightarrow> char_of (0 :: nat) \<notin> set h"
  using hex_encode_no_nul by (auto simp: HashPassword_def iterations_text char_of_def split: option.splits)

section \<open>Properties of credentials\<close>

text \<open>
  C33: the key derivation loop computes PBKDF2 as RFC 2898 defines it, with HMAC-SHA256 as
  the pseudorandom function, and returns exactly the requested number of bytes.
\<close>

theorem pbkdf2_is_rfc2898:
  assumes "1 \<le> iter"
  shows "pbkdf2SHA256 pw salt iter n = rfc_pbkdf2 (hmac_sha256 pw) 32 salt (nat iter) n
    \<and> length (pbkdf2SHA256 pw salt iter n) = n"
  using pbkdf2SHA256_rfc [OF assms] length_pbkdf2SHA256 [OF assms] by simp

theorem pbkdf2_is_rfc2898_witness:
  "pbkdf2SHA256 ''secret'' ''salt'' 2 40 = rfc_pbkdf2 (hmac_sha256 ''secret'') 32 ''salt'' 2 40
   \<and> length (pbkdf2SHA256 ''secret'' ''salt'' 2 40) = 40"
proof -
  have "(1 :: int) \<le> 2" by simp
  then show ?thesis using pbkdf2_is_rfc2898 [of 2 "''secret''" "''salt''" 40] unfolding nat_numeral by blast
qed

text \<open>
  A stored hash made by \<open>HashPassword\<close> verifies a password exactly when both derive the
  same key from the stored salt; in particular it verifies the password it was made from.
\<close>

theorem HashPassword_verifies:
  assumes "HashPassword (Some salt) pw = Some h"
  shows "VerifyPassword h pw
    \<and> (VerifyPassword h pw' \<longleftrightarrow> pbkdf2SHA256 pw' salt 600000 32 = pbkdf2SHA256 pw salt 600000 32)"
  using VerifyPassword_HashPassword [OF assms] by simp

theorem HashPassword_verifies_witness:
  "VerifyPassword (the (HashPassword (Some ''0123456789abcdef'') ''admin123'')) ''admin123''"
proof -
  obtain h where h: "HashPassword (Some ''0123456789abcdef'') ''admin123'' = Some h"
    by (simp add: HashPassword_def)
  then show ?thesis using HashPassword_verifies [OF h] by simp
qed

text \<open>
  The form check on import admits a hash with an empty digest, and such a hash verifies
  every password.
\<close>

theorem empty_digest_verifies_all:
  "validPasswordHash (''pbkdf2$10000$'' @ hex_encode salt @ ''$'')
   \<and> VerifyPassword (''pbkdf2$10000$'' @ hex_encode salt @ ''$'') pw"
proof -
  have s: "Sscanf_d ''10000'' = Some 10000" by code_simp
  have "SplitByte (''pbkdf2'' @ CHR ''$'' # ''10000'' @ CHR ''$'' # hex_encode salt @ CHR ''$'' # []) CHR ''$''
      = [''pbkdf2'', ''10000'', hex_encode salt, []]"
    by (rule SplitByte_hash) (simp_all add: hex_encode_no_dollar)
  with s have "validPasswordHash (''pbkdf2$10000$'' @ hex_encode salt @ ''$'')"
    by (simp add: validPasswordHash_def)
  moreover have "length (pbkdf2SHA256 pw salt 10000 0) = 0" by (simp add: length_pbkdf2SHA256)
  moreover have "hex_encode [] = []" by (simp add: hex_encode_def)
  ultimately show ?thesis
    using VerifyPassword_hash_string [OF _ s, of salt "[]" pw] by simp
qed

text \<open>
  A session token is read back as it was issued: under the same key it yields the user
  name, the expiry and the token epoch it was made from until the expiry has passed, and nothing
  afterwards.
\<close>

theorem verify_issued_token:
  assumes "u \<noteq> []" "in_int64 (unix (now + ttl))" "in_int64 epoch"
  shows "verifyToken later key (issueToken now key u ttl epoch) =
    (if unix (now + ttl) < unix later then None else Some (u, unix (now + ttl), epoch))"
  using assms by (rule verifyToken_issueToken)

theorem verify_issued_token_witness:
  "verifyToken (hour + 5) ''k'' (issueToken 0 ''k'' ''bob'' (12 * hour) 3) = Some (''bob'', 43200, 3)"
proof -
  have "unix (0 + 12 * hour) = 43200" "unix (hour + 5) = 3600"
    by (simp_all add: unix_def hour_def minute_def second_def)
  then show ?thesis
    using verify_issued_token [of "''bob''" 0 "12 * hour" 3 "hour + 5" "''k''"] by (simp add: in_int64_def)
qed

text \<open>
  C34: no token is accepted without a valid signature: an accepted token is a payload part and
  a signature part joined by a dot, the signature decodes to the HMAC of the payload part under the
  session key, the user name is not empty and the expiry has not passed.
\<close>

theorem verifyToken_signed:
  assumes "verifyToken now key token = Some (u, e, ep)"
  shows "\<exists>p s. token = p @ ''.'' @ s \<and> RawURLDecode s = Some (hmac_sha256 key p)
    \<and> (\<exists>raw. RawURLDecode p = Some raw \<and> Option.bind (Parse raw) dec_payload = Some (u, e, ep))
    \<and> u \<noteq> [] \<and> unix now \<le> e"
proof -
  obtain p s where sp: "SplitByte token CHR ''.'' = [p, s]"
    using assms by (auto simp: verifyToken_def split: list.splits)
  have "token = p @ ''.'' @ s" using JoinBy_SplitByte [of "CHR ''.''" token] sp by simp
  moreover have "RawURLDecode s = Some (hmac_sha256 key p)
    \<and> (\<exists>raw. RawURLDecode p = Some raw \<and> Option.bind (Parse raw) dec_payload = Some (u, e, ep)) \<and> u \<noteq> [] \<and> unix now \<le> e"
    using assms sp by (auto simp: verifyToken_def split: option.splits if_splits prod.splits)
  ultimately show ?thesis by blast
qed

theorem verifyToken_signed_witness:
  "\<exists>p s. issueToken 0 ''k'' ''bob'' hour 3 = p @ ''.'' @ s \<and> RawURLDecode s = Some (hmac_sha256 ''k'' p)"
proof -
  have e: "unix hour = 3600" "unix (0 + hour) = 3600" "unix 0 = 0" by (simp_all add: unix_def hour_def minute_def second_def)
  have "verifyToken 0 ''k'' (issueToken 0 ''k'' ''bob'' hour 3) = Some (''bob'', 3600, 3)"
    by (simp add: verifyToken_def issueToken_def Let_def SplitByte_token Parse_token_payload e in_int64_def)
  then show ?thesis using verifyToken_signed [of 0 "''k''"] by blast
qed

end
