(* ===== verification/Throttle.thy ===== *)
theory Throttle
  imports Go_Prelude
begin

text \<open>
  The three failed-authentication limiters: logins per client address and per account
  (\<^verbatim>\<open>admin.go\<close>), proxy authentications per client address (\<^verbatim>\<open>proxy.go\<close>), and the
  pruning of their maps. Each limiter is a map from a key to a \<open>loginFails\<close> record; the
  current time is an argument. The zero \<open>time.Time\<close> of the field \<open>until\<close> is
  \<^const>\<open>None\<close>.

  The locale \<open>limiter\<close> states what the callers rely on, as a refinement of the life of a
  single entry; each of the three limiters interprets it, and the properties are its lemmas on
  them.
\<close>

section \<open>The limiters of the source\<close>

record loginFails =
  lf_count :: int
  lf_window :: time
  lf_until :: "time option"

type_synonym fails = "(string, loginFails) gomap"

definition loginMaxFails :: int where "loginMaxFails = 10"
definition loginFailWindow :: time where "loginFailWindow = 15 * minute"
definition loginLockoutTime :: time where "loginLockoutTime = 10 * minute"

definition loginAllowed :: "time \<Rightarrow> string \<Rightarrow> fails \<Rightarrow> bool \<times> fails" where
  "loginAllowed now clientIP m =
     (case fmlookup m clientIP of
        None \<Rightarrow> (True, m)
      | Some f \<Rightarrow>
         (case lf_until f of
            Some until \<Rightarrow> if now < until then (False, m) else (True, fmdrop clientIP m)
          | None \<Rightarrow>
              if now - lf_window f > loginFailWindow then (True, fmdrop clientIP m)
              else (True, m)))"

definition loginFail :: "time \<Rightarrow> string \<Rightarrow> fails \<Rightarrow> fails" where
  "loginFail now clientIP m =
     (let f0 = (case fmlookup m clientIP of
                  None \<Rightarrow> \<lparr>lf_count = 0, lf_window = now, lf_until = None\<rparr>
                | Some f \<Rightarrow>
                    if now - lf_window f > loginFailWindow
                    then \<lparr>lf_count = 0, lf_window = now, lf_until = None\<rparr> else f);
          f1 = f0\<lparr>lf_count := lf_count f0 + 1\<rparr>;
          f2 = (if lf_count f1 \<ge> loginMaxFails
                then f1\<lparr>lf_until := Some (now + loginLockoutTime), lf_count := 0, lf_window := now\<rparr>
                else f1)
      in fmupd clientIP f2 m)"

definition loginOK :: "string \<Rightarrow> fails \<Rightarrow> fails" where
  "loginOK clientIP m = fmdrop clientIP m"

definition accountAllowed :: "time \<Rightarrow> string \<Rightarrow> fails \<Rightarrow> bool \<times> fails" where
  "accountAllowed now username m =
     (if username = [] then (True, m)
      else let key = ToLower username in
      (case fmlookup m key of
         None \<Rightarrow> (True, m)
       | Some f \<Rightarrow>
          (case lf_until f of
             Some until \<Rightarrow> if now < until then (False, m) else (True, fmdrop key m)
           | None \<Rightarrow>
               if now - lf_window f > loginFailWindow then (True, fmdrop key m) else (True, m))))"

definition accountFail :: "time \<Rightarrow> string \<Rightarrow> fails \<Rightarrow> fails" where
  "accountFail now username m =
     (if username = [] then m
      else
        let key = ToLower username;
            f0 = (case fmlookup m key of
                    None \<Rightarrow> \<lparr>lf_count = 0, lf_window = now, lf_until = None\<rparr>
                  | Some f \<Rightarrow>
                      if now - lf_window f > loginFailWindow
                      then \<lparr>lf_count = 0, lf_window = now, lf_until = None\<rparr> else f);
            f1 = f0\<lparr>lf_count := lf_count f0 + 1\<rparr>;
            f2 = (if lf_count f1 \<ge> loginMaxFails
                  then f1\<lparr>lf_until := Some (now + loginLockoutTime), lf_count := 0, lf_window := now\<rparr>
                  else f1)
        in fmupd key f2 m)"

definition accountOK :: "string \<Rightarrow> fails \<Rightarrow> fails" where
  "accountOK username m = (if username = [] then m else fmdrop (ToLower username) m)"

definition proxyMaxFails :: int where "proxyMaxFails = 30"
definition proxyFailWindow :: time where "proxyFailWindow = 10 * minute"
definition proxyCooldown :: time where "proxyCooldown = 60 * second"

definition proxyAuthAllowed :: "time \<Rightarrow> string \<Rightarrow> fails \<Rightarrow> bool \<times> fails" where
  "proxyAuthAllowed now clientIP m =
     (case fmlookup m clientIP of
        None \<Rightarrow> (True, m)
      | Some f \<Rightarrow>
         (case lf_until f of
            Some until \<Rightarrow> if now < until then (False, m) else (True, fmdrop clientIP m)
          | None \<Rightarrow>
              if now - lf_window f > proxyFailWindow then (True, fmdrop clientIP m)
              else (True, m)))"

definition proxyAuthFail :: "time \<Rightarrow> string \<Rightarrow> fails \<Rightarrow> fails" where
  "proxyAuthFail now clientIP m =
     (let f0 = (case fmlookup m clientIP of
                  None \<Rightarrow> \<lparr>lf_count = 0, lf_window = now, lf_until = None\<rparr>
                | Some f \<Rightarrow>
                    if now - lf_window f > proxyFailWindow
                    then \<lparr>lf_count = 0, lf_window = now, lf_until = None\<rparr> else f);
          f1 = f0\<lparr>lf_count := lf_count f0 + 1\<rparr>;
          f2 = (if lf_count f1 \<ge> proxyMaxFails
                then f1\<lparr>lf_until := Some (now + proxyCooldown), lf_count := 0, lf_window := now\<rparr>
                else f1)
      in fmupd clientIP f2 m)"

definition proxyAuthOK :: "string \<Rightarrow> fails \<Rightarrow> fails" where
  "proxyAuthOK clientIP m = fmdrop clientIP m"

definition pruneAuthFailures :: "time \<Rightarrow> fails \<times> fails \<times> fails \<Rightarrow> fails \<times> fails \<times> fails" where
  "pruneAuthFailures now = (\<lambda>(lf, af, pf).
     (fmdelete_if (\<lambda>f. now - lf_window f > loginFailWindow) lf,
      fmdelete_if (\<lambda>f. now - lf_window f > loginFailWindow) af,
      fmdelete_if (\<lambda>f. now - lf_window f > proxyFailWindow) pf))"

section \<open>The life of one entry\<close>

text \<open>The specification of a limiter: what happens to the entry of one key.\<close>

definition fresh_entry :: "time \<Rightarrow> loginFails" where
  "fresh_entry now = \<lparr>lf_count = 0, lf_window = now, lf_until = None\<rparr>"

definition is_locked :: "time \<Rightarrow> loginFails option \<Rightarrow> bool" where
  "is_locked now fo = (case fo of None \<Rightarrow> False
     | Some f \<Rightarrow> (case lf_until f of None \<Rightarrow> False | Some u \<Rightarrow> now < u))"

definition entry_check :: "time \<Rightarrow> time \<Rightarrow> loginFails option \<Rightarrow> loginFails option" where
  "entry_check win now fo = (case fo of None \<Rightarrow> None
     | Some f \<Rightarrow> (case lf_until f of
         Some u \<Rightarrow> if now < u then Some f else None
       | None \<Rightarrow> if now - lf_window f > win then None else Some f))"

definition entry_fail :: "int \<Rightarrow> time \<Rightarrow> time \<Rightarrow> time \<Rightarrow> loginFails option \<Rightarrow> loginFails" where
  "entry_fail maxf win lock now fo =
     (let f = (case fo of None \<Rightarrow> fresh_entry now
               | Some f \<Rightarrow> if now - lf_window f > win then fresh_entry now else f)
      in if lf_count f + 1 \<ge> maxf
         then \<lparr>lf_count = 0, lf_window = now, lf_until = Some (now + lock)\<rparr>
         else f\<lparr>lf_count := lf_count f + 1\<rparr>)"

text \<open>A stored entry: fewer failures than the limit, a lockout that started with its window.\<close>

definition entry_ok :: "int \<Rightarrow> time \<Rightarrow> loginFails \<Rightarrow> bool" where
  "entry_ok maxf lock f \<longleftrightarrow> 0 \<le> lf_count f \<and> lf_count f < maxf
     \<and> (\<forall>u. lf_until f = Some u \<longrightarrow> u \<le> lf_window f + lock)"

section \<open>The limiter interface\<close>

definition fails_ok :: "int \<Rightarrow> time \<Rightarrow> fails \<Rightarrow> bool" where
  "fails_ok maxf lock m \<longleftrightarrow> fmpred (\<lambda>k f. entry_ok maxf lock f) m"

locale limiter =
  fixes allowed :: "time \<Rightarrow> string \<Rightarrow> 'm \<Rightarrow> bool \<times> 'm"
    and fail :: "time \<Rightarrow> string \<Rightarrow> 'm \<Rightarrow> 'm"
    and succeed :: "string \<Rightarrow> 'm \<Rightarrow> 'm"
    and prune :: "time \<Rightarrow> 'm \<Rightarrow> 'm"
    and entry :: "'m \<Rightarrow> string \<Rightarrow> loginFails option"
    and norm :: "string \<Rightarrow> string"
    and counted :: "string \<Rightarrow> bool"
    and maxf :: int and win :: time and lock :: time
  assumes allowed_fst: "counted k \<Longrightarrow> fst (allowed now k m) \<longleftrightarrow> \<not> is_locked now (entry m (norm k))"
    and allowed_entry: "counted k \<Longrightarrow> entry (snd (allowed now k m)) j =
          (if j = norm k then entry_check win now (entry m j) else entry m j)"
    and fail_entry: "counted k \<Longrightarrow> entry (fail now k m) j =
          (if j = norm k then Some (entry_fail maxf win lock now (entry m j)) else entry m j)"
    and succeed_entry: "counted k \<Longrightarrow> entry (succeed k m) j = (if j = norm k then None else entry m j)"
    and prune_entry: "entry (prune now m) j =
          (case entry m j of None \<Rightarrow> None
           | Some f \<Rightarrow> if now - lf_window f > win then None else Some f)"
    and maxf_pos: "1 < maxf" and lock_pos: "0 < lock" and lock_le_win: "lock \<le> win"
begin

abbreviation map_ok :: "'m \<Rightarrow> bool" where
  "map_ok m \<equiv> (\<forall>j f. entry m j = Some f \<longrightarrow> entry_ok maxf lock f)"

lemma entry_fail_ok: "(\<And>f. fo = Some f \<Longrightarrow> entry_ok maxf lock f) \<Longrightarrow>
    entry_ok maxf lock (entry_fail maxf win lock now fo)"
  using maxf_pos by (auto simp: entry_fail_def entry_ok_def fresh_entry_def Let_def split: option.splits)

lemma entry_check_SomeD: "entry_check win now fo = Some f \<Longrightarrow> fo = Some f"
  by (auto simp: entry_check_def split: option.splits if_splits)

lemma allowed_ok: "map_ok m \<Longrightarrow> counted k \<Longrightarrow> map_ok (snd (allowed now k m))"
  by (auto simp: allowed_entry split: if_splits dest!: entry_check_SomeD)

lemma fail_ok: "map_ok m \<Longrightarrow> counted k \<Longrightarrow> map_ok (fail now k m)"
  by (auto simp: fail_entry split: if_splits intro!: entry_fail_ok)

lemma succeed_ok: "map_ok m \<Longrightarrow> counted k \<Longrightarrow> map_ok (succeed k m)"
  by (auto simp: succeed_entry split: if_splits)

lemma prune_ok: "map_ok m \<Longrightarrow> map_ok (prune now m)"
  by (auto simp: prune_entry split: option.splits if_splits)

text \<open>
  The budget of a key over an interval of the length of a lockout: how many more failed attempts
  it can have admitted before the interval ends.
\<close>

definition budget :: "time \<Rightarrow> loginFails option \<Rightarrow> int" where
  "budget a fo = (case fo of None \<Rightarrow> maxf
     | Some f \<Rightarrow> (case lf_until f of
         Some u \<Rightarrow> if a + lock \<le> u then 0 else maxf
       | None \<Rightarrow> if a \<le> lf_window f then maxf - lf_count f else 2 * maxf - 1 - lf_count f))"

lemma budget_fail:
  assumes "a \<le> t" "t < a + lock" "\<not> is_locked t fo" "\<And>f. fo = Some f \<Longrightarrow> entry_ok maxf lock f"
  shows "1 + budget a (Some (entry_fail maxf win lock t (entry_check win t fo))) \<le> budget a fo"
  using assms maxf_pos lock_le_win lock_pos
  by (auto simp: budget_def entry_fail_def entry_check_def fresh_entry_def is_locked_def entry_ok_def
      Let_def split: option.splits if_splits)

lemma budget_check:
  assumes "a \<le> t" "t < a + lock" "\<And>f. fo = Some f \<Longrightarrow> entry_ok maxf lock f"
  shows "budget a (entry_check win t fo) \<le> budget a fo"
  using assms maxf_pos lock_le_win lock_pos
  by (auto simp: budget_def entry_check_def entry_ok_def split: option.splits if_splits)

lemma budget_prune:
  assumes "a \<le> t" "t < a + lock" "\<And>f. fo = Some f \<Longrightarrow> entry_ok maxf lock f"
  shows "budget a (case fo of None \<Rightarrow> None | Some f \<Rightarrow> if t - lf_window f > win then None else Some f)
    \<le> budget a fo"
  using assms maxf_pos lock_le_win lock_pos
  by (auto simp: budget_def entry_ok_def split: option.splits)

lemma budget_bounds:
  assumes "\<And>f. fo = Some f \<Longrightarrow> entry_ok maxf lock f"
  shows "0 \<le> budget a fo" "budget a fo \<le> 2 * maxf - 1"
  using assms maxf_pos by (auto simp: budget_def entry_ok_def split: option.splits)

text \<open>
  What a guess costs: an admitted attempt that is recorded as a failure takes at least one from the
  budget of its key, a mere check and a pruning add nothing to that of any key, and neither does a failure or a
  success of another key.
\<close>

lemma spend_fail:
  assumes "map_ok m" "counted k" "a \<le> t" "t < a + lock" "fst (allowed t k m)"
  shows "(if norm k = j then 1 else 0) + budget a (entry (fail t k (snd (allowed t k m))) j) \<le> budget a (entry m j)"
  using assms budget_fail [OF assms(3,4), of "entry m j"] by (auto simp: fail_entry allowed_entry allowed_fst)

lemma spend_check:
  assumes "map_ok m" "counted k" "a \<le> t" "t < a + lock"
  shows "budget a (entry (snd (allowed t k m)) j) \<le> budget a (entry m j)"
  using assms budget_check [OF assms(3,4), of "entry m j"] by (auto simp: allowed_entry)

lemma spend_succeed:
  assumes "map_ok m" "counted k" "a \<le> t" "t < a + lock" "norm k \<noteq> j"
  shows "budget a (entry (succeed k (snd (allowed t k m))) j) \<le> budget a (entry m j)"
  using spend_check [OF assms(1-4), of j] assms(2,5) by (simp add: succeed_entry)

lemma spend_prune:
  assumes "map_ok m" "a \<le> t" "t < a + lock"
  shows "budget a (entry (prune t m) j) \<le> budget a (entry m j)"
  using budget_prune [OF assms(2,3), of "entry m j"] assms(1) by (auto simp: prune_entry)

lemma budget_initial: "map_ok m \<Longrightarrow> 0 \<le> budget a (entry m j) \<and> budget a (entry m j) \<le> 2 * maxf - 1"
  using budget_bounds [of "entry m j" a] by auto

text \<open>The threshold: exactly the last of the admitted failures starts the lockout.\<close>

lemma entry_after_fails:
  assumes "counted k" "entry m (norm k) = None" "ts \<noteq> []" "int (length ts) < maxf"
    "\<forall>t \<in> set ts. t - hd ts \<le> win"
  shows "entry (foldl (\<lambda>m t. fail t k m) m ts) (norm k) =
    Some \<lparr>lf_count = int (length ts), lf_window = hd ts, lf_until = None\<rparr>"
  using assms(3-5)
proof (induction ts rule: rev_induct)
  case (snoc t ts)
  show ?case
  proof (cases "ts = []")
    case True
    then show ?thesis using snoc.prems assms(1,2) by (simp add: fail_entry entry_fail_def fresh_entry_def)
  next
    case False
    then have "hd (ts @ [t]) = hd ts" by simp
    with snoc False show ?thesis
      using assms(1) by (simp add: fail_entry entry_fail_def hd_append Let_def)
  qed
qed simp

lemma locked_iff_threshold:
  assumes "counted k" "entry m (norm k) = None" "ts \<noteq> []" "int (length ts) \<le> maxf"
    "\<forall>t \<in> set ts. t - hd ts \<le> win"
  shows "fst (allowed now k (foldl (\<lambda>m t. fail t k m) m ts)) \<longleftrightarrow>
    int (length ts) < maxf \<or> last ts + lock \<le> now"
proof (cases "int (length ts) < maxf")
  case True
  then show ?thesis using entry_after_fails [OF assms(1-3) _ assms(5)] assms(1)
    by (simp add: allowed_fst is_locked_def)
next
  case False
  with assms(4) maxf_pos have n: "int (length ts) = maxf" "1 < length ts" by auto
  obtain us t where ts: "ts = us @ [t]" "us \<noteq> []"
    using n(2) by (cases ts rule: rev_cases) auto
  with n(1) have us: "maxf = int (length us) + 1" by simp
  have "entry (foldl (\<lambda>m t. fail t k m) m us) (norm k) =
      Some \<lparr>lf_count = int (length us), lf_window = hd us, lf_until = None\<rparr>"
    by (rule entry_after_fails) (use assms ts us in auto)
  with ts us assms(1,5) show ?thesis
    by (auto simp: allowed_fst fail_entry entry_fail_def is_locked_def Let_def)
qed

lemma prune_keeps_refusals:
  assumes "map_ok m" "counted k"
  shows "fst (allowed now k (prune now m)) = fst (allowed now k m)"
proof -
  have "is_locked now (entry (prune now m) (norm k)) = is_locked now (entry m (norm k))"
  proof (cases "entry m (norm k)")
    case (Some f)
    then have "entry_ok maxf lock f" using assms(1) by blast
    with Some show ?thesis using lock_le_win
      by (auto simp: prune_entry is_locked_def entry_ok_def split: option.splits)
  qed (simp add: prune_entry)
  with assms(2) show ?thesis by (simp add: allowed_fst)
qed

end

section \<open>The three limiters are limiters\<close>

lemma fmlookup_fmdelete_if:
  "fmlookup (fmdelete_if P m) j =
     (case fmlookup m j of None \<Rightarrow> None | Some v \<Rightarrow> if P v then None else Some v)"
  by (auto simp: fmdelete_if_def split: option.splits)

lemmas limiter_defs = is_locked_def entry_check_def entry_fail_def fresh_entry_def Let_def
  fmlookup_fmdelete_if

lemmas limiter_consts = loginMaxFails_def loginFailWindow_def loginLockoutTime_def
  proxyMaxFails_def proxyFailWindow_def proxyCooldown_def minute_def second_def

definition prune_fails :: "time \<Rightarrow> time \<Rightarrow> fails \<Rightarrow> fails" where
  "prune_fails win now = fmdelete_if (\<lambda>f. now - lf_window f > win)"

interpretation login: limiter loginAllowed loginFail loginOK "prune_fails loginFailWindow"
  fmlookup "\<lambda>k. k" "\<lambda>k. True" loginMaxFails loginFailWindow loginLockoutTime
  by unfold_locales
    (auto simp: loginAllowed_def loginFail_def loginOK_def prune_fails_def limiter_defs limiter_consts
      split: option.splits)

interpretation account: limiter accountAllowed accountFail accountOK "prune_fails loginFailWindow"
  fmlookup ToLower "\<lambda>k. k \<noteq> []" loginMaxFails loginFailWindow loginLockoutTime
  by unfold_locales
    (auto simp: accountAllowed_def accountFail_def accountOK_def prune_fails_def limiter_defs limiter_consts
      split: option.splits)

interpretation proxyAuth: limiter proxyAuthAllowed proxyAuthFail proxyAuthOK "prune_fails proxyFailWindow"
  fmlookup "\<lambda>k. k" "\<lambda>k. True" proxyMaxFails proxyFailWindow proxyCooldown
  by unfold_locales
    (auto simp: proxyAuthAllowed_def proxyAuthFail_def proxyAuthOK_def prune_fails_def limiter_defs
      limiter_consts split: option.splits)


lemma fails_ok_iff: "fails_ok maxf lock m \<longleftrightarrow> (\<forall>j f. fmlookup m j = Some f \<longrightarrow> entry_ok maxf lock f)"
  by (auto simp: fails_ok_def fmpred_iff)

abbreviation login_fails_ok :: "fails \<Rightarrow> bool" where
  "login_fails_ok \<equiv> fails_ok 10 (10 * minute)"

abbreviation proxy_fails_ok :: "fails \<Rightarrow> bool" where
  "proxy_fails_ok \<equiv> fails_ok 30 (60 * second)"

text \<open>Every operation of the three limiters keeps its map well-formed.\<close>

lemma loginFails_invariant:
  assumes "login_fails_ok m"
  shows "login_fails_ok (snd (loginAllowed now ip m))" "login_fails_ok (loginFail now ip m)"
    "login_fails_ok (loginOK ip m)" "login_fails_ok (prune_fails loginFailWindow now m)"
  using assms login.allowed_ok [where m = m] login.fail_ok [where m = m] login.succeed_ok [where m = m]
    login.prune_ok [where m = m]
  unfolding fails_ok_iff by (simp_all add: loginMaxFails_def loginLockoutTime_def)

lemma accountFails_invariant:
  assumes "login_fails_ok m"
  shows "login_fails_ok (snd (accountAllowed now name m))" "login_fails_ok (accountFail now name m)"
    "login_fails_ok (accountOK name m)"
proof -
  have "login_fails_ok (snd (accountAllowed now name m)) \<and> login_fails_ok (accountFail now name m)
    \<and> login_fails_ok (accountOK name m)"
  proof (cases "name = []")
    case False
    with assms account.allowed_ok [where m = m and k = name] account.fail_ok [where m = m and k = name]
      account.succeed_ok [where m = m and k = name]
    show ?thesis unfolding fails_ok_iff by (simp add: loginMaxFails_def loginLockoutTime_def)
  qed (simp add: assms accountAllowed_def accountFail_def accountOK_def)
  then show "login_fails_ok (snd (accountAllowed now name m))" "login_fails_ok (accountFail now name m)"
    "login_fails_ok (accountOK name m)" by simp_all
qed

lemma proxyAuthFails_invariant:
  assumes "proxy_fails_ok m"
  shows "proxy_fails_ok (snd (proxyAuthAllowed now ip m))" "proxy_fails_ok (proxyAuthFail now ip m)"
    "proxy_fails_ok (proxyAuthOK ip m)" "proxy_fails_ok (prune_fails proxyFailWindow now m)"
  using assms proxyAuth.allowed_ok [where m = m] proxyAuth.fail_ok [where m = m]
    proxyAuth.succeed_ok [where m = m] proxyAuth.prune_ok [where m = m]
  unfolding fails_ok_iff by (simp_all add: proxyMaxFails_def proxyCooldown_def)

lemma fails_ok_empty [simp]: "fails_ok maxf lock fmempty"
  by (simp add: fails_ok_def)

section \<open>Properties of the limiters\<close>

text \<open>
  The login limiter locks an address out at exactly the tenth failure. After up to ten
  failures of an address with no record, all within 15 minutes of the first, a login attempt is
  admitted if and only if there were fewer than ten of them or ten minutes have passed since the
  last one.
\<close>

theorem login_lockout_threshold:
  assumes "fmlookup m ip = None" "ts \<noteq> []" "length ts \<le> 10" "\<forall>t \<in> set ts. t - hd ts \<le> 15 * minute"
  shows "fst (loginAllowed now ip (foldl (\<lambda>m t. loginFail t ip m) m ts)) \<longleftrightarrow>
    length ts < 10 \<or> last ts + 10 * minute \<le> now"
  using login.locked_iff_threshold [where k = ip and m = m and ts = ts and now = now] assms
  by (auto simp: loginMaxFails_def loginFailWindow_def loginLockoutTime_def)

theorem login_lockout_threshold_witness:
  "fst (loginAllowed 700 ''10.0.0.7'' (foldl (\<lambda>m t. loginFail t ''10.0.0.7'' m) fmempty [100, 200, 300]))
   \<and> \<not> fst (loginAllowed 700 ''10.0.0.7'' (foldl (\<lambda>m t. loginFail t ''10.0.0.7'' m) fmempty [0, 1, 2, 3, 4, 5, 6, 7, 8, 9]))"
  using login_lockout_threshold [of fmempty "''10.0.0.7''" "[100, 200, 300]" 700]
    login_lockout_threshold [of fmempty "''10.0.0.7''" "[0, 1, 2, 3, 4, 5, 6, 7, 8, 9]" 700]
  by (simp add: minute_def second_def)

text \<open>
  Pruning the failure maps on the statistics tick never lifts a lockout and never starts
  one: each of the three limiters answers as it did before.
\<close>

theorem prune_keeps_lockouts:
  assumes "login_fails_ok lf" "login_fails_ok af" "proxy_fails_ok pf"
    and "pruneAuthFailures now (lf, af, pf) = (lf', af', pf')"
  shows "fst (loginAllowed now ip lf') = fst (loginAllowed now ip lf)
    \<and> fst (accountAllowed now name af') = fst (accountAllowed now name af)
    \<and> fst (proxyAuthAllowed now ip pf') = fst (proxyAuthAllowed now ip pf)"
proof -
  have p: "lf' = prune_fails loginFailWindow now lf" "af' = prune_fails loginFailWindow now af"
    "pf' = prune_fails proxyFailWindow now pf"
    using assms(4) by (simp_all add: pruneAuthFailures_def prune_fails_def)
  have "fst (loginAllowed now ip lf') = fst (loginAllowed now ip lf)"
    unfolding p by (rule login.prune_keeps_refusals)
      (use assms(1) in \<open>simp_all add: fails_ok_iff loginMaxFails_def loginLockoutTime_def\<close>)
  moreover have "fst (accountAllowed now name af') = fst (accountAllowed now name af)"
  proof (cases "name = []")
    case False
    show ?thesis unfolding p
      by (rule account.prune_keeps_refusals)
        (use assms(2) False in \<open>simp_all add: fails_ok_iff loginMaxFails_def loginLockoutTime_def\<close>)
  qed (simp add: accountAllowed_def)
  moreover have "fst (proxyAuthAllowed now ip pf') = fst (proxyAuthAllowed now ip pf)"
    unfolding p by (rule proxyAuth.prune_keeps_refusals)
      (use assms(3) in \<open>simp_all add: fails_ok_iff proxyMaxFails_def proxyCooldown_def\<close>)
  ultimately show ?thesis by simp
qed

theorem prune_keeps_lockouts_witness:
  "let m = fmupd ''10.0.0.7'' \<lparr>lf_count = 0, lf_window = 5, lf_until = Some (5 + 10 * minute)\<rparr> fmempty in
   fst (loginAllowed 9 ''10.0.0.7'' (fst (pruneAuthFailures 9 (m, fmempty, fmempty))))
     = fst (loginAllowed 9 ''10.0.0.7'' m)"
  using prune_keeps_lockouts
    [of "fmupd ''10.0.0.7'' \<lparr>lf_count = 0, lf_window = 5, lf_until = Some (5 + 10 * minute)\<rparr> fmempty"
      fmempty fmempty 9 _ _ _ "''10.0.0.7''" "[]"]
  by (auto simp: fails_ok_iff entry_ok_def split_beta Let_def pruneAuthFailures_def split: if_splits)

end
