(* ===== verification/Store.thy ===== *)
theory Store
  imports Config_Json Credentials
begin

text \<open>
  \<^verbatim>\<open>config.go\<close>: loading, migrating, changing and saving the configuration, and the lookup
  indexes over its users.

  The data directory is a record of the three files the store writes. What the environment decides
  is an argument: the random bytes drawn, the current time, environment variables, and for every
  file operation whether it succeeds (a failed write leaves an arbitrary content behind). A
  function passed to \<open>Update\<close> is a function from the configuration to an error or a new
  configuration: on an error the source restores the snapshot it took, which is the configuration
  before the call (\<^verbatim>\<open>In_Place\<close> models how, and shows this).
\<close>

section \<open>State\<close>

record authCacheEntry =
  ac_ok :: bool
  ac_expires :: time

record Store =
  s_cfg :: Config
  s_byID :: "(string, nat) gomap"
  s_byName :: "(string, nat) gomap"
  s_authCache :: "(string, authCacheEntry) gomap"

record Disk =
  dk_config :: "string option"
  dk_bak :: "string option"
  dk_tmp :: "string option"

text \<open>The outcome of the file operations of one save; \<open>Some\<close> is a failure.\<close>

record SaveIO =
  io_read_fails :: bool
  io_bak_partial :: "string option"
  io_tmp_partial :: "string option"
  io_tmp_error :: string
  io_rename_error :: "string option"

record Entropy =
  en_salt :: "string option"
  en_id :: string
  en_key :: string

section \<open>Users and defaults\<close>

definition randomHex :: "string \<Rightarrow> string" where
  "randomHex bytes = hex_encode bytes"

definition NewUser :: "Entropy \<Rightarrow> time \<Rightarrow> string \<Rightarrow> string \<Rightarrow> string \<Rightarrow> error + User" where
  "NewUser en now username password role =
     (case HashPassword (en_salt en) password of
        None \<Rightarrow> Inl (ErrMsg ''entropy source failed'')
      | Some hash \<Rightarrow>
         Inr \<lparr>u_ID = randomHex (en_id en), u_Username = TrimSpace username, u_PasswordHash = hash,
              u_Enabled = True, u_Role = (if role \<noteq> ''admin'' then ''user'' else role),
              u_WhitelistOnly = False, u_Whitelist = [], u_Blacklist = [], u_MaxConns = 0,
              u_DailyTrafficMB = 0, u_CreatedAt = FormatRFC3339 now, u_LastUsedAt = [],
              u_Stats = zero_stats, u_TokenEpoch = 0\<rparr>)"

definition envOr :: "(string \<Rightarrow> string) \<Rightarrow> string \<Rightarrow> string \<Rightarrow> string" where
  "envOr env key def = (if env key \<noteq> [] then env key else def)"

text \<open>\<^const>\<open>None\<close>: the nil user of a failed \<open>NewUser\<close> is dereferenced, a panic.\<close>

definition defaultConfig :: "Entropy \<Rightarrow> time \<Rightarrow> (string \<Rightarrow> string) \<Rightarrow> Config option" where
  "defaultConfig en now env =
     (case NewUser en now ''admin'' ''admin123'' ''admin'' of
        Inl _ \<Rightarrow> None
      | Inr admin \<Rightarrow>
         Some \<lparr>c_Version = 1, c_SessionKey = randomHex (en_key en),
           c_Proxy = \<lparr>px_Enabled = True, px_ListenAddr = envOr env ''PROXY_ADDR'' '':3128'',
             px_AdminListenAddr = envOr env ''ADMIN_ADDR'' '':8080'', px_RequireAuth = True,
             px_AllowHTTP = True, px_AllowHTTPS = True, px_ConnectTimeoutSec = 15,
             px_ReadTimeoutSec = 300, px_DefaultMaxConns = 25, px_MaxGlobalConns = 0\<rparr>,
           c_GlobalRules = zero_rules,
           c_Logs = \<lparr>lg_RingSize = 20000, lg_FileMaxMB = 10, lg_ToFile = True\<rparr>,
           c_Users = [admin]\<rparr>)"

definition logsNeverWritten :: "LogSettings \<Rightarrow> bool" where
  "logsNeverWritten l \<longleftrightarrow> lg_RingSize l = 0 \<and> lg_FileMaxMB l = 0 \<and> \<not> lg_ToFile l"

definition migrate :: "Entropy \<Rightarrow> Config \<Rightarrow> Config" where
  "migrate en c =
     (let c1 = c\<lparr>c_SessionKey := randomHex (en_key en)\<rparr>;
          c2 = (if c_Version c1 < 1 then c1\<lparr>c_Version := 1\<rparr> else c1);
          p0 = c_Proxy c2;
          p1 = (if px_ConnectTimeoutSec p0 = 0 then p0\<lparr>px_ConnectTimeoutSec := 15\<rparr> else p0);
          p2 = (if px_ReadTimeoutSec p1 = 0 then p1\<lparr>px_ReadTimeoutSec := 300\<rparr> else p1);
          c3 = c2\<lparr>c_Proxy := p2\<rparr>
      in if logsNeverWritten (c_Logs c3)
         then c3\<lparr>c_Logs := \<lparr>lg_RingSize = 20000, lg_FileMaxMB = 10, lg_ToFile = True\<rparr>\<rparr> else c3)"

section \<open>Indexes\<close>

fun index_loop :: "(User \<Rightarrow> string) \<Rightarrow> nat \<Rightarrow> User list \<Rightarrow> (string, nat) gomap \<Rightarrow> (string, nat) gomap" where
  "index_loop key i [] m = m"
| "index_loop key i (u # us) m = index_loop key (Suc i) us (fmupd (key u) i m)"

definition rebuildIndex :: "Store \<Rightarrow> Store" where
  "rebuildIndex s =
     s\<lparr>s_byID := index_loop u_ID 0 (c_Users (s_cfg s)) fmempty,
       s_byName := index_loop (\<lambda>u. ToLower (u_Username u)) 0 (c_Users (s_cfg s)) fmempty\<rparr>"

definition FindUser :: "Store \<Rightarrow> string \<Rightarrow> User option" where
  "FindUser s uid =
     (case fmlookup (s_byID s) uid of None \<Rightarrow> None
      | Some i \<Rightarrow>
         let us = c_Users (s_cfg s) in
         if i < length us \<and> u_ID (us ! i) = uid then Some (us ! i) else None)"

definition FindUserByName :: "Store \<Rightarrow> string \<Rightarrow> User option" where
  "FindUserByName s name =
     (case fmlookup (s_byName s) (ToLower name) of None \<Rightarrow> None
      | Some i \<Rightarrow>
         let us = c_Users (s_cfg s) in
         if i < length us \<and> EqualFold (u_Username (us ! i)) name then Some (us ! i) else None)"

section \<open>Saving\<close>

text \<open>
  The data directory after each file operation of a save, in order: the backup copy, the write of
  the temporary file, the rename over the configuration file. A failed operation ends the list. These are the
  states that other processes, or a restart of this one, can find; nothing is synced to the disk, so
  after a power loss the files may have other contents, empty ones among them.
\<close>

definition save_bak :: "SaveIO \<Rightarrow> Disk \<Rightarrow> Disk" where
  "save_bak io d =
     (case dk_config d of None \<Rightarrow> d
      | Some cur \<Rightarrow>
         if io_read_fails io then d
         else d\<lparr>dk_bak := Some (case io_bak_partial io of None \<Rightarrow> cur | Some part \<Rightarrow> part)\<rparr>)"

definition save_states :: "SaveIO \<Rightarrow> Disk \<Rightarrow> Config \<Rightarrow> Disk list" where
  "save_states io d cfg =
     (let d1 = save_bak io d;
          d2 = d1\<lparr>dk_tmp := Some (case io_tmp_partial io of None \<Rightarrow> enc_doc cfg | Some part \<Rightarrow> part)\<rparr>;
          d3 = d2\<lparr>dk_config := dk_tmp d2, dk_tmp := None\<rparr>
      in d1 # d2 # (if io_tmp_partial io = None \<and> io_rename_error io = None then [d3] else []))"

definition saveLocked :: "SaveIO \<Rightarrow> Disk \<Rightarrow> Config \<Rightarrow> error option \<times> Disk" where
  "saveLocked io d cfg =
     (if io_tmp_partial io \<noteq> None then Some (ErrMsg (io_tmp_error io))
      else map_option ErrMsg (io_rename_error io),
      last (save_states io d cfg))"

definition Save :: "SaveIO \<Rightarrow> Disk \<Rightarrow> Store \<Rightarrow> error option \<times> Disk" where
  "Save io d s = saveLocked io d (s_cfg s)"

section \<open>Changing the configuration\<close>

text \<open>
  The result: the error if any, the store, the directory, and the snapshot the listeners are called
  with, if they are.
\<close>

definition store_update ::
  "SaveIO \<Rightarrow> (Config \<Rightarrow> error + Config) \<Rightarrow> bool \<Rightarrow> Store \<Rightarrow> Disk
   \<Rightarrow> error option \<times> Store \<times> Disk \<times> Config option"
where
  "store_update io fn notify s d =
     (case fn (s_cfg s) of
        Inl e \<Rightarrow> (Some e, s, d, None)
      | Inr c \<Rightarrow>
         (case saveLocked io d c of
            (Some e, d') \<Rightarrow> (Some e, s\<lparr>s_cfg := c\<rparr>, d', None)
          | (None, d') \<Rightarrow>
              (None, rebuildIndex (s\<lparr>s_cfg := c\<rparr>), d', if notify then Some c else None)))"

definition Update where
  "Update io fn = store_update io fn True"

definition UpdateSilent where
  "UpdateSilent io fn = store_update io fn False"

text \<open>
  \<open>NewStore\<close>: an error message, or a store and the directory. \<open>mkdir\<close> is the error of
  creating the directory, if any. The whole result is \<^const>\<open>None\<close> on a panic.
\<close>

definition NewStore ::
  "string option \<Rightarrow> Entropy \<Rightarrow> time \<Rightarrow> (string \<Rightarrow> string) \<Rightarrow> bool \<Rightarrow> SaveIO \<Rightarrow> Disk
   \<Rightarrow> (error + Store \<times> Disk) option"
where
  "NewStore mkdir en now env read_fails io d =
     (case mkdir of Some e \<Rightarrow> Some (Inl (ErrMsg (''create data dir: '' @ e)))
      | None \<Rightarrow>
        (let raw = (if read_fails then None else dk_config d);
             s0 = \<lparr>s_cfg = zero_config, s_byID = fmempty, s_byName = fmempty, s_authCache = fmempty\<rparr>
         in if raw \<noteq> None \<and> raw \<noteq> Some [] then
              (case dec_doc (the raw) zero_config of
                 None \<Rightarrow> Some (Inl (ErrMsg ''parse config.json''))
               | Some c \<Rightarrow> Some (Inr (rebuildIndex (s0\<lparr>s_cfg := migrate en c\<rparr>), d)))
            else
              (case defaultConfig en now env of
                 None \<Rightarrow> None
               | Some c \<Rightarrow>
                  (case Save io d (s0\<lparr>s_cfg := c\<rparr>) of
                     (Some e, d') \<Rightarrow> Some (Inl e)
                   | (None, d') \<Rightarrow> Some (Inr (rebuildIndex (s0\<lparr>s_cfg := c\<rparr>), d'))))))"

section \<open>Lookup through an index\<close>

text \<open>
  What a client may rely on: an index maps a key to the position of the last user with that key.
\<close>

locale user_index =
  fixes key :: "User \<Rightarrow> string"
    and build :: "User list \<Rightarrow> (string, nat) gomap"
  assumes build_Some: "fmlookup (build us) k = Some i \<Longrightarrow> i < length us \<and> key (us ! i) = k"
    and build_None: "fmlookup (build us) k = None \<Longrightarrow> u \<in> set us \<Longrightarrow> key u \<noteq> k"
begin

definition via :: "User list \<Rightarrow> string \<Rightarrow> User option" where
  "via us k = map_option (\<lambda>i. us ! i) (fmlookup (build us) k)"

lemma via_sound: "via us k = Some u \<Longrightarrow> u \<in> set us \<and> key u = k"
  using build_Some by (fastforce simp: via_def)

lemma via_complete: "via us k = None \<longleftrightarrow> (\<forall>u \<in> set us. key u \<noteq> k)"
proof
  assume "\<forall>u \<in> set us. key u \<noteq> k"
  then show "via us k = None" using via_sound [of us k] by (cases "via us k") auto
qed (use build_None in \<open>auto simp: via_def\<close>)

lemma via_unique:
  assumes "distinct (map key us)" "u \<in> set us"
  shows "via us (key u) = Some u"
proof -
  have "via us (key u) \<noteq> None" using assms(2) via_complete by blast
  then obtain v where "via us (key u) = Some v" by blast
  moreover from this have "v \<in> set us" "key v = key u" using via_sound by blast+
  with assms have "v = u" by (auto simp: distinct_map inj_on_def)
  ultimately show ?thesis by simp
qed

end

lemma index_loop_cases:
  "fmlookup (index_loop key i us m) k = Some j \<Longrightarrow>
     (i \<le> j \<and> j < i + length us \<and> key (us ! (j - i)) = k) \<or> fmlookup m k = Some j"
proof (induction us arbitrary: i m)
  case (Cons u us)
  then consider "Suc i \<le> j \<and> j < Suc i + length us \<and> key (us ! (j - Suc i)) = k"
    | "fmlookup (fmupd (key u) i m) k = Some j" by fastforce
  then show ?case
  proof cases
    case 1
    then have "(u # us) ! (j - i) = us ! (j - Suc i)" by (simp add: nth_Cons')
    with 1 show ?thesis by auto
  qed (auto split: if_splits)
qed simp

lemma index_loop_Some:
  "fmlookup (index_loop key 0 us fmempty) k = Some i \<Longrightarrow> i < length us \<and> key (us ! i) = k"
  using index_loop_cases [of key 0 us fmempty k i] by simp

lemma index_loop_keeps: "fmlookup (index_loop key i us m) k = None \<Longrightarrow> fmlookup m k = None"
proof (induction us arbitrary: i m)
  case (Cons u us)
  from Cons.prems have "fmlookup (index_loop key (Suc i) us (fmupd (key u) i m)) k = None" by simp
  then have "fmlookup (fmupd (key u) i m) k = None" by (rule Cons.IH)
  then show ?case by (simp split: if_splits)
qed simp

lemma index_loop_None:
  "fmlookup (index_loop key i us m) k = None \<Longrightarrow> u \<in> set us \<Longrightarrow> key u \<noteq> k"
proof (induction us arbitrary: i m)
  case (Cons v us)
  from Cons.prems(1) have "fmlookup (index_loop key (Suc i) us (fmupd (key v) i m)) k = None" by simp
  then have "fmlookup (fmupd (key v) i m) k = None" by (rule index_loop_keeps)
  then have "key v \<noteq> k" by (simp split: if_splits)
  with Cons show ?case by auto
qed simp

interpretation byID: user_index u_ID "\<lambda>us. index_loop u_ID 0 us fmempty"
  by unfold_locales (use index_loop_Some index_loop_None in blast)+

interpretation byName: user_index "\<lambda>u. ToLower (u_Username u)" "\<lambda>us. index_loop (\<lambda>u. ToLower (u_Username u)) 0 us fmempty"
  by unfold_locales (use index_loop_Some index_loop_None in blast)+

section \<open>Lemmas on the store\<close>

lemma rebuildIndex_sel [simp]: "s_cfg (rebuildIndex s) = s_cfg s"
  "s_authCache (rebuildIndex s) = s_authCache s"
  by (simp_all add: rebuildIndex_def)

text \<open>The store's indexes are those of its configuration.\<close>

definition index_ok :: "Store \<Rightarrow> bool" where
  "index_ok s \<longleftrightarrow> s_byID s = index_loop u_ID 0 (c_Users (s_cfg s)) fmempty
     \<and> s_byName s = index_loop (\<lambda>u. ToLower (u_Username u)) 0 (c_Users (s_cfg s)) fmempty"

lemma index_ok_rebuildIndex [simp]: "index_ok (rebuildIndex s)"
  by (simp add: index_ok_def rebuildIndex_def)

lemma FindUser_via: "index_ok s \<Longrightarrow> FindUser s uid = byID.via (c_Users (s_cfg s)) uid"
  using index_loop_Some [of u_ID "c_Users (s_cfg s)" uid]
  by (auto simp: FindUser_def byID.via_def index_ok_def Let_def split: option.splits)

lemma FindUserByName_via:
  "index_ok s \<Longrightarrow> FindUserByName s name = byName.via (c_Users (s_cfg s)) (ToLower name)"
  using index_loop_Some [of "\<lambda>u. ToLower (u_Username u)" "c_Users (s_cfg s)" "ToLower name"]
  by (auto simp: FindUserByName_def byName.via_def index_ok_def EqualFold_def Let_def split: option.splits)

text \<open>Whatever the state of the indexes, a lookup returns only what was asked for.\<close>

lemma FindUser_SomeD: "FindUser s uid = Some u \<Longrightarrow> u \<in> set (c_Users (s_cfg s)) \<and> u_ID u = uid"
  by (auto simp: FindUser_def Let_def split: option.splits if_splits)

lemma FindUserByName_SomeD:
  "FindUserByName s name = Some u \<Longrightarrow> u \<in> set (c_Users (s_cfg s)) \<and> EqualFold (u_Username u) name"
  by (auto simp: FindUserByName_def Let_def split: option.splits if_splits)

text \<open>Identifiers are unique, and names are unique without regard to case.\<close>

definition users_distinct :: "Config \<Rightarrow> bool" where
  "users_distinct c \<longleftrightarrow> distinct (map u_ID (c_Users c)) \<and> distinct (map (\<lambda>u. ToLower (u_Username u)) (c_Users c))"

lemma FindUser_iff:
  assumes "index_ok s" "distinct (map u_ID (c_Users (s_cfg s)))"
  shows "FindUser s uid = Some u \<longleftrightarrow> u \<in> set (c_Users (s_cfg s)) \<and> u_ID u = uid"
  using assms byID.via_sound [of "c_Users (s_cfg s)"] byID.via_unique [OF assms(2)]
  by (auto simp: FindUser_via)

lemma FindUserByName_iff:
  assumes "index_ok s" "distinct (map (\<lambda>u. ToLower (u_Username u)) (c_Users (s_cfg s)))"
  shows "FindUserByName s name = Some u \<longleftrightarrow> u \<in> set (c_Users (s_cfg s)) \<and> EqualFold (u_Username u) name"
  using assms byName.via_sound [of "c_Users (s_cfg s)"] byName.via_unique [OF assms(2)]
  by (auto simp: FindUserByName_via EqualFold_def) metis+

lemma dk_config_save_bak [simp]: "dk_config (save_bak io d) = dk_config d" "dk_tmp (save_bak io d) = dk_tmp d"
  by (auto simp: save_bak_def split: option.splits)

lemma saveLocked_ok:
  "saveLocked io d c = (None, d') \<Longrightarrow> dk_config d' = Some (enc_doc c) \<and> dk_tmp d' = None"
  by (auto simp: saveLocked_def save_states_def Let_def split: if_splits)

lemma saveLocked_error: "saveLocked io d c = (Some e, d') \<Longrightarrow> dk_config d' = dk_config d"
  by (auto simp: saveLocked_def save_states_def Let_def split: if_splits)

section \<open>Properties of the store\<close>

text \<open>
  A change is all or nothing when the function or the disk write succeeds or the function
  fails. A failing function changes neither the store nor the directory and no listener runs.
  After a successful update the store holds the new configuration with fresh indexes, the file on
  disk decodes to it, and the listeners, if notified, get it.
\<close>

theorem update_atomic:
  assumes "store_update io fn notify s d = (r, s', d', sn)"
  shows "(\<forall>e. fn (s_cfg s) = Inl e \<longrightarrow> r = Some e \<and> s' = s \<and> d' = d \<and> sn = None)
    \<and> (r = None \<longrightarrow> (\<exists>c. fn (s_cfg s) = Inr c \<and> s_cfg s' = c \<and> index_ok s'
         \<and> (config_fits c \<longrightarrow> map_option (\<lambda>t. dec_doc t z) (dk_config d') = Some (Some c))
         \<and> sn = (if notify then Some c else None)))"
proof (cases "fn (s_cfg s)")
  case (Inr c)
  obtain e d1 where sv: "saveLocked io d c = (e, d1)" by fastforce
  then show ?thesis using assms Inr saveLocked_ok [of io d c d1]
    by (cases e) (auto simp: store_update_def dec_doc_enc_doc)
qed (use assms in \<open>auto simp: store_update_def\<close>)

theorem update_atomic_witness:
  "store_update \<lparr>io_read_fails = False, io_bak_partial = None, io_tmp_partial = None, io_tmp_error = [],
       io_rename_error = None\<rparr> (\<lambda>c. Inr (c\<lparr>c_Version := 7\<rparr>)) True
     \<lparr>s_cfg = zero_config, s_byID = fmempty, s_byName = fmempty, s_authCache = fmempty\<rparr>
     \<lparr>dk_config = None, dk_bak = None, dk_tmp = None\<rparr> =
   (None, rebuildIndex \<lparr>s_cfg = zero_config\<lparr>c_Version := 7\<rparr>, s_byID = fmempty, s_byName = fmempty, s_authCache = fmempty\<rparr>,
      \<lparr>dk_config = Some (enc_doc (zero_config\<lparr>c_Version := 7\<rparr>)), dk_bak = None, dk_tmp = None\<rparr>,
      Some (zero_config\<lparr>c_Version := 7\<rparr>))
   \<and> dec_doc (enc_doc (zero_config\<lparr>c_Version := 7\<rparr>)) zero_config = Some (zero_config\<lparr>c_Version := 7\<rparr>)"
  (is "?run = ?res \<and> _")
proof -
  have eq: "?run = ?res"
    by (simp add: store_update_def saveLocked_def save_states_def save_bak_def Let_def)
  have "config_fits (zero_config\<lparr>c_Version := 7\<rparr>)"
    by (simp add: config_fits_def zero_config_def zero_proxy_def zero_logs_def in_int64_def)
  with update_atomic [OF eq, of zero_config] eq show ?thesis by simp
qed

text \<open>
  Restarting on the file of a saved configuration yields the same users, rules and
  settings (with a new session key, and defaults where a setting was zero), ready to be looked up.
\<close>

theorem restart_restores:
  assumes "dk_config d = Some (enc_doc c)" "config_fits c"
  shows "\<exists>s. NewStore None en now env False io d = Some (Inr (s, d)) \<and> index_ok s
    \<and> s_cfg s = migrate en c \<and> c_Users (s_cfg s) = c_Users c \<and> c_GlobalRules (s_cfg s) = c_GlobalRules c
    \<and> (1 \<le> c_Version c \<and> px_ConnectTimeoutSec (c_Proxy c) \<noteq> 0 \<and> px_ReadTimeoutSec (c_Proxy c) \<noteq> 0
       \<and> \<not> logsNeverWritten (c_Logs c) \<longrightarrow> s_cfg s = c\<lparr>c_SessionKey := randomHex (en_key en)\<rparr>)"
proof -
  have "enc_doc c \<noteq> []" by (simp add: enc_doc_def MarshalIndent_def enc_config_def)
  then show ?thesis using assms
    by (simp add: NewStore_def dec_doc_enc_doc Let_def) (simp add: migrate_def Let_def)
qed

theorem restart_restores_witness:
  "\<exists>s. NewStore None \<lparr>en_salt = None, en_id = [], en_key = ''k''\<rparr> 0 (\<lambda>_. []) False
       \<lparr>io_read_fails = False, io_bak_partial = None, io_tmp_partial = None, io_tmp_error = [], io_rename_error = None\<rparr>
       \<lparr>dk_config = Some (enc_doc zero_config), dk_bak = None, dk_tmp = None\<rparr> =
       Some (Inr (s, \<lparr>dk_config = Some (enc_doc zero_config), dk_bak = None, dk_tmp = None\<rparr>))
     \<and> c_Users (s_cfg s) = []"
proof -
  have "config_fits zero_config"
    by (simp add: config_fits_def zero_config_def zero_proxy_def zero_logs_def in_int64_def)
  moreover have "c_Users zero_config = []" by (simp add: zero_config_def)
  ultimately show ?thesis
    using restart_restores [of "\<lparr>dk_config = Some (enc_doc zero_config), dk_bak = None, dk_tmp = None\<rparr>" zero_config]
    by (metis Disk.select_convs(1))
qed

text \<open>
  The indexed lookups find exactly the users of the configuration: by identifier, and by
  name without regard to case, when these keys are distinct.
\<close>

theorem lookup_exact:
  assumes "index_ok s" "distinct (map u_ID (c_Users (s_cfg s)))"
    "distinct (map (\<lambda>u. ToLower (u_Username u)) (c_Users (s_cfg s)))"
  shows "(FindUser s uid = Some u \<longleftrightarrow> u \<in> set (c_Users (s_cfg s)) \<and> u_ID u = uid)
    \<and> (FindUserByName s name = Some u \<longleftrightarrow> u \<in> set (c_Users (s_cfg s)) \<and> EqualFold (u_Username u) name)"
  using assms FindUser_iff FindUserByName_iff by blast

theorem lookup_exact_witness:
  "let u = zero_user\<lparr>u_ID := ''a1'', u_Username := ''Bob''\<rparr>;
       s = rebuildIndex \<lparr>s_cfg = zero_config\<lparr>c_Users := [u]\<rparr>, s_byID = fmempty, s_byName = fmempty, s_authCache = fmempty\<rparr>
   in FindUser s ''a1'' = Some u \<and> FindUserByName s ''bOB'' = Some u"
proof -
  have e: "EqualFold ''Bob'' ''bOB''" by code_simp
  show ?thesis
    using e lookup_exact [OF index_ok_rebuildIndex, of "\<lparr>s_cfg = zero_config\<lparr>c_Users := [zero_user\<lparr>u_ID := ''a1'', u_Username := ''Bob''\<rparr>]\<rparr>,
        s_byID = fmempty, s_byName = fmempty, s_authCache = fmempty\<rparr>" "''a1''" "zero_user\<lparr>u_ID := ''a1'', u_Username := ''Bob''\<rparr>" "''bOB''"]
    by (simp add: Let_def)
qed

text \<open>
  A failed save leaves memory and disk apart: the error is reported, but the change stays
  in force in memory while the configuration file is the old one.
\<close>

theorem failed_save_keeps_change:
  assumes "fn (s_cfg s) = Inr c" "saveLocked io d c = (Some e, d1)"
  shows "store_update io fn notify s d = (Some e, s\<lparr>s_cfg := c\<rparr>, d1, None) \<and> dk_config d1 = dk_config d"
  using assms saveLocked_error by (simp add: store_update_def)

theorem failed_save_keeps_change_witness:
  "let io = \<lparr>io_read_fails = False, io_bak_partial = None, io_tmp_partial = Some ''{'', io_tmp_error = ''disk full'', io_rename_error = None\<rparr>;
       s = \<lparr>s_cfg = zero_config, s_byID = fmempty, s_byName = fmempty, s_authCache = fmempty\<rparr>;
       d = \<lparr>dk_config = Some ''old'', dk_bak = None, dk_tmp = None\<rparr>
   in fst (store_update io (\<lambda>c. Inr (c\<lparr>c_Version := 7\<rparr>)) True s d) = Some (ErrMsg ''disk full'')
     \<and> s_cfg (fst (snd (store_update io (\<lambda>c. Inr (c\<lparr>c_Version := 7\<rparr>)) True s d))) = zero_config\<lparr>c_Version := 7\<rparr>"
  using failed_save_keeps_change
    [of "\<lambda>c. Inr (c\<lparr>c_Version := 7\<rparr>)" "\<lparr>s_cfg = zero_config, s_byID = fmempty, s_byName = fmempty, s_authCache = fmempty\<rparr>"
      "zero_config\<lparr>c_Version := 7\<rparr>"
      "\<lparr>io_read_fails = False, io_bak_partial = None, io_tmp_partial = Some ''{'', io_tmp_error = ''disk full'', io_rename_error = None\<rparr>"
      "\<lparr>dk_config = Some ''old'', dk_bak = None, dk_tmp = None\<rparr>" "ErrMsg ''disk full''"
      "\<lparr>dk_config = Some ''old'', dk_bak = Some ''old'', dk_tmp = Some ''{''\<rparr>" True]
  by (simp add: saveLocked_def save_states_def save_bak_def Let_def)

end
