(* ===== verification/LogStore.thy ===== *)
theory LogStore
  imports Store
begin

text \<open>
  \<^verbatim>\<open>logstore.go\<close>: the activity log, a bounded list of entries in memory and a JSON-lines file
  behind a buffered writer. The file is the record field \<open>l_disk\<close> (what has reached the disk)
  and \<open>l_buf\<close> (what the writer still holds); \<open>l_open\<close> says whether there is a handle.
  Which file operations fail is an argument. The warning of a failed write is a flag; the text that
  is printed with it is not modelled. Sizes and positions in a file are natural numbers.
\<close>

section \<open>Entries\<close>

record LogEntry =
  le_Time :: string
  le_User :: string
  le_Method :: string
  le_Host :: string
  le_Path :: string
  le_Status :: int
  le_Outcome :: string
  le_BytesIn :: uint64
  le_BytesOut :: uint64
  le_DurationMs :: int
  le_Client :: string
  le_t :: int

definition zero_entry :: LogEntry where
  "zero_entry = \<lparr>le_Time = [], le_User = [], le_Method = [], le_Host = [], le_Path = [], le_Status = 0,
     le_Outcome = [], le_BytesIn = 0, le_BytesOut = 0, le_DurationMs = 0, le_Client = [], le_t = 0\<rparr>"

definition enc_entry :: "LogEntry \<Rightarrow> json" where
  "enc_entry e = JObj
     [(''time'', JStr (le_Time e)), (''user'', JStr (le_User e)), (''method'', JStr (le_Method e)),
      (''host'', JStr (le_Host e)), (''path'', JStr (le_Path e)), (''status'', jint (le_Status e)),
      (''outcome'', JStr (le_Outcome e)), (''bytes_in'', juint (le_BytesIn e)),
      (''bytes_out'', juint (le_BytesOut e)), (''duration_ms'', jint (le_DurationMs e)),
      (''client'', JStr (le_Client e))]"

definition dec_entry :: "(string \<times> json) list \<Rightarrow> LogEntry \<Rightarrow> LogEntry option" where
  "dec_entry ms x = do {
     a \<leftarrow> dec_field ''time'' dec_string ms (le_Time x);
     b \<leftarrow> dec_field ''user'' dec_string ms (le_User x);
     c \<leftarrow> dec_field ''method'' dec_string ms (le_Method x);
     d \<leftarrow> dec_field ''host'' dec_string ms (le_Host x);
     e \<leftarrow> dec_field ''path'' dec_string ms (le_Path x);
     f \<leftarrow> dec_field ''status'' dec_int ms (le_Status x);
     g \<leftarrow> dec_field ''outcome'' dec_string ms (le_Outcome x);
     h \<leftarrow> dec_field ''bytes_in'' dec_uint64 ms (le_BytesIn x);
     i \<leftarrow> dec_field ''bytes_out'' dec_uint64 ms (le_BytesOut x);
     j \<leftarrow> dec_field ''duration_ms'' dec_int ms (le_DurationMs x);
     k \<leftarrow> dec_field ''client'' dec_string ms (le_Client x);
     Some \<lparr>le_Time = a, le_User = b, le_Method = c, le_Host = d, le_Path = e, le_Status = f,
       le_Outcome = g, le_BytesIn = h, le_BytesOut = i, le_DurationMs = j, le_Client = k,
       le_t = le_t x\<rparr>}"

definition stamp :: "LogEntry \<Rightarrow> LogEntry" where
  "stamp e = (case ParseRFC3339 (le_Time e) of None \<Rightarrow> e | Some t \<Rightarrow> e\<lparr>le_t := unix t\<rparr>)"

section \<open>The store\<close>

record LogStore =
  l_entries :: "LogEntry list"
  l_open :: bool
  l_buf :: string
  l_disk :: "string option"
  l_fileSize :: int
  l_warned :: bool

text \<open>
  Which operations on the file fail; \<open>lio_rot_read\<close> stands for open, stat and seek. The last field
  says how many bytes the one read of a rotation returns, if not all.
\<close>

record LogIO =
  lio_open_fails :: bool
  lio_stat_fails :: bool
  lio_write_fails :: bool
  lio_rot_read_fails :: bool
  lio_rot_write_fails :: bool
  lio_read_fails :: bool
  lio_rot_got :: "nat option"

definition buf_cap :: nat where "buf_cap = 64 * 1024"

text \<open>\<open>bufio.Writer.Write\<close> and \<open>Flush\<close>.\<close>

definition bufio_write :: "nat \<Rightarrow> string \<times> string \<Rightarrow> string \<Rightarrow> string \<times> string" where
  "bufio_write cap = (\<lambda>(disk, buf) p.
     (if length p \<le> cap - length buf then (disk, buf @ p)
      else if buf = [] then (disk @ p, [])
      else let n = cap - length buf; p' = drop n p; disk' = disk @ buf @ take n p
           in if cap < length p' then (disk' @ p', []) else (disk', p')))"

definition disk_content :: "LogStore \<Rightarrow> string" where
  "disk_content l = (case l_disk l of None \<Rightarrow> [] | Some c \<Rightarrow> c)"

definition bw_flush :: "LogStore \<Rightarrow> LogStore" where
  "bw_flush l = (if l_open l then l\<lparr>l_disk := Some (disk_content l @ l_buf l), l_buf := []\<rparr> else l)"

definition openFile :: "LogIO \<Rightarrow> LogStore \<Rightarrow> LogStore" where
  "openFile io l =
     (if lio_open_fails io then l
      else let l1 = l\<lparr>l_open := True, l_buf := [], l_disk := Some (disk_content l)\<rparr>
           in if lio_stat_fails io then l1 else l1\<lparr>l_fileSize := int (length (disk_content l))\<rparr>)"

text \<open>\<open>ioReadAll\<close>: one read, whose error is dropped; what it has returned is all there is.\<close>

definition ioReadAll :: "LogIO \<Rightarrow> string \<Rightarrow> string" where
  "ioReadAll io s = (case lio_rot_got io of None \<Rightarrow> s | Some m \<Rightarrow> take m s)"

definition rotateLocked :: "LogIO \<Rightarrow> LogStore \<Rightarrow> LogStore" where
  "rotateLocked io l =
     (let l1 = (bw_flush l)\<lparr>l_open := False, l_buf := [], l_fileSize := 0\<rparr>;
          c = disk_content l1;
          keep = length c div 2;
          l2 = (if lio_rot_read_fails io \<or> keep = 0 \<or> lio_rot_write_fails io then l1
                else l1\<lparr>l_disk := Some (ioReadAll io (drop keep c))\<rparr>)
      in openFile io l2)"

definition log_line :: "LogEntry \<Rightarrow> string" where
  "log_line e = Marshal (enc_entry e)"

definition writeFileLocked :: "LogIO \<Rightarrow> LogEntry \<Rightarrow> int \<Rightarrow> LogStore \<Rightarrow> LogStore" where
  "writeFileLocked io e maxBytes l =
     (if \<not> l_open l then l
      else
        let line = log_line e;
            l1 = (if l_fileSize l + int (length line) > maxBytes then rotateLocked io l else l)
        in if \<not> l_open l1 then l1
           else if lio_write_fails io then l1\<lparr>l_warned := True\<rparr>
           else let (dk, bf) = bufio_write buf_cap (disk_content l1, l_buf l1) (line @ [newline])
                in l1\<lparr>l_disk := Some dk, l_buf := bf, l_warned := False,
                      l_fileSize := l_fileSize l1 + int (length line + 1)\<rparr>)"

definition ring_max :: "LogSettings \<Rightarrow> int" where
  "ring_max ls = (if lg_RingSize ls \<le> 0 then 20000 else lg_RingSize ls)"

text \<open>The newest \<open>n\<close> elements.\<close>

definition keep_last :: "int \<Rightarrow> 'a list \<Rightarrow> 'a list" where
  "keep_last n xs = (if int (length xs) > n then drop (length xs - nat n) xs else xs)"

definition Add :: "LogIO \<Rightarrow> time \<Rightarrow> LogSettings \<Rightarrow> LogEntry \<Rightarrow> LogStore \<Rightarrow> LogStore" where
  "Add io now ls e0 l =
     (let e1 = (if le_Time e0 = [] then e0\<lparr>le_Time := FormatRFC3339 now\<rparr> else e0);
          e = stamp e1;
          l1 = l\<lparr>l_entries := keep_last (ring_max ls) (l_entries l @ [e])\<rparr>
      in if lg_ToFile ls \<and> lg_FileMaxMB ls > 0
         then writeFileLocked io e (int64 (lg_FileMaxMB ls * 1024 * 1024)) l1 else l1)"

definition Count :: "LogStore \<Rightarrow> nat" where
  "Count l = length (l_entries l)"

definition Flush :: "LogStore \<Rightarrow> LogStore" where
  "Flush l = bw_flush l"

definition Clear :: "LogIO \<Rightarrow> LogStore \<Rightarrow> LogStore" where
  "Clear io l =
     (let l0 = l\<lparr>l_entries := []\<rparr> in
      if \<not> l_open l0 then l0
      else
        let l1 = (bw_flush l0)\<lparr>l_open := False, l_buf := [], l_fileSize := 0\<rparr>
        in if lio_open_fails io then l1 else l1\<lparr>l_open := True, l_disk := Some []\<rparr>)"

section \<open>Loading the file\<close>

text \<open>
  One chunk of the backward walk: reading the bytes from the last to the first, \<open>rem\<close>
  newlines are still to be found. \<open>Inl i\<close>: the last of them is at position \<open>i\<close>;
  \<open>Inr rem\<close>: the chunk is used up.
\<close>

fun scan_back :: "string \<Rightarrow> nat \<Rightarrow> nat + nat" where
  "scan_back [] rem = Inr rem"
| "scan_back (c # cs) rem =
     (if c = newline
      then (if rem = 1 then Inl (length cs) else scan_back cs (rem - 1))
      else scan_back cs rem)"

function chunk_walk :: "nat \<Rightarrow> string \<Rightarrow> nat \<Rightarrow> nat \<Rightarrow> nat" where
  "chunk_walk chunk content rem pos =
     (if pos = 0 \<or> chunk = 0 then 0
      else let start = pos - chunk in
        (case scan_back (rev (drop start (take pos content))) rem of
           Inl i \<Rightarrow> start + i + 1
         | Inr rem' \<Rightarrow> chunk_walk chunk content rem' start))"
  by pat_completeness auto
termination
  by (relation "measure (\<lambda>(_, _, _, pos). pos)") auto

declare chunk_walk.simps [simp del]

definition load_chunk :: nat where "load_chunk = 2 ^ 20"
definition load_maxRead :: nat where "load_maxRead = 2 ^ 26"
definition load_maxLine :: nat where "load_maxLine = 2 ^ 20"

text \<open>The newline-terminated, non-empty lines that are not too long.\<close>

definition load_lines :: "string \<Rightarrow> string list" where
  "load_lines tail = filter (\<lambda>s. s \<noteq> [] \<and> length s \<le> load_maxLine) (butlast (SplitByte tail newline))"

definition load_entry :: "string \<Rightarrow> LogEntry option" where
  "load_entry line = map_option stamp (Unmarshal (dec_struct dec_entry) line zero_entry)"

definition loadFile :: "LogIO \<Rightarrow> LogSettings \<Rightarrow> LogStore \<Rightarrow> LogStore" where
  "loadFile io ls l =
     (if \<not> l_open l \<or> \<not> lg_ToFile ls \<or> lg_FileMaxMB ls = 0 then l
      else
        let mx = nat (ring_max ls); content = disk_content l; size = length content in
        if lio_read_fails io \<or> size = 0 then l
        else
          let off0 = chunk_walk load_chunk content (mx + 1) size;
              off = (if size - off0 > load_maxRead then size - load_maxRead else off0);
              lines0 = load_lines (drop off content);
              lines1 = (if off > 0 \<and> lines0 \<noteq> [] \<and> content ! (off - 1) \<noteq> newline
                        then tl lines0 else lines0);
              lines = keep_last (int mx) lines1
          in l\<lparr>l_entries := List.map_filter load_entry lines\<rparr>)"

definition NewLogStore :: "bool \<Rightarrow> LogIO \<Rightarrow> LogSettings \<Rightarrow> string option \<Rightarrow> LogStore" where
  "NewLogStore mkdir_fails io ls disk =
     (let l = \<lparr>l_entries = [], l_open = False, l_buf = [], l_disk = disk, l_fileSize = 0, l_warned = False\<rparr>
      in if mkdir_fails then l else loadFile io ls (openFile io l))"

section \<open>Queries\<close>

definition entry_selected :: "string \<Rightarrow> string \<Rightarrow> LogEntry \<Rightarrow> bool" where
  "entry_selected user query e \<longleftrightarrow>
     (user = [] \<or> EqualFold (le_User e) user)
     \<and> (query = [] \<or> Contains (ToLower (le_Method e @ '' '' @ le_Host e @ '' '' @ le_Path e @ '' ''
          @ le_Outcome e @ '' '' @ le_User e)) (ToLower query))"

text \<open>The loop of \<open>Recent\<close> over the entries from the newest on, with the results so far.\<close>

fun recent_loop :: "int \<Rightarrow> string \<Rightarrow> string \<Rightarrow> LogEntry list \<Rightarrow> LogEntry list \<Rightarrow> LogEntry list" where
  "recent_loop limit user query [] out = out"
| "recent_loop limit user query (e # es) out =
     (if int (length out) < limit
      then recent_loop limit user query es (if entry_selected user query e then out @ [e] else out)
      else out)"

definition Recent :: "int \<Rightarrow> string \<Rightarrow> string \<Rightarrow> LogStore \<Rightarrow> LogEntry list" where
  "Recent limit0 user query l =
     (let limit1 = (if limit0 \<le> 0 then 200 else limit0);
          limit = (if limit1 > 5000 then 5000 else limit1)
      in recent_loop limit user query (rev (l_entries l)) [])"

definition csv_special :: "char \<Rightarrow> bool" where
  "csv_special c \<longleftrightarrow> byte_of c = 34 \<or> byte_of c = 44 \<or> byte_of c = 10 \<or> byte_of c = 13"

definition csvField :: "string \<Rightarrow> string" where
  "csvField s =
     (if list_ex csv_special s
      then [dquote] @ concat (map (\<lambda>c. if c = dquote then [dquote, dquote] else [c]) s) @ [dquote]
      else s)"

definition csv_columns :: "LogEntry \<Rightarrow> string list" where
  "csv_columns e =
     [le_Time e, le_User e, le_Method e, le_Host e, le_Path e, le_Outcome e, int_dec (le_Status e),
      pos_dec (uint (le_BytesIn e)), pos_dec (uint (le_BytesOut e)), int_dec (le_DurationMs e), le_Client e]"

definition csv_row :: "LogEntry \<Rightarrow> string" where
  "csv_row e = JoinBy '',''
     [csvField (le_Time e), csvField (le_User e), csvField (le_Method e), csvField (le_Host e),
      csvField (le_Path e), csvField (le_Outcome e), int_dec (le_Status e), pos_dec (uint (le_BytesIn e)),
      pos_dec (uint (le_BytesOut e)), int_dec (le_DurationMs e), csvField (le_Client e)] @ [newline]"

definition CSV :: "LogEntry list \<Rightarrow> string" where
  "CSV es =
     ''time,user,method,host,path,outcome,status,bytes_in,bytes_out,duration_ms,client'' @ [newline]
     @ concat (map csv_row es)"

section \<open>The timeline\<close>

record acc =
  a_requests :: int
  a_allowed :: int
  a_denied :: int
  a_errors :: int
  a_bin :: uint64
  a_bout :: uint64

definition zero_acc :: acc where
  "zero_acc = \<lparr>a_requests = 0, a_allowed = 0, a_denied = 0, a_errors = 0, a_bin = 0, a_bout = 0\<rparr>"

record TimelinePoint =
  tp_T :: int
  tp_Requests :: int
  tp_Allowed :: int
  tp_Denied :: int
  tp_Errors :: int
  tp_BytesIn :: uint64
  tp_BytesOut :: uint64

record UserAgg =
  ua_User :: string
  ua_Requests :: int
  ua_BytesIn :: uint64
  ua_BytesOut :: uint64

text \<open>Go's integer division truncates towards zero.\<close>

definition go_div :: "int \<Rightarrow> int \<Rightarrow> int" where
  "go_div a b = sgn a * sgn b * (\<bar>a\<bar> div \<bar>b\<bar>)"

definition entry_time :: "LogEntry \<Rightarrow> time option" where
  "entry_time e = (if le_t e \<noteq> 0 then Some (le_t e * second) else ParseRFC3339 (le_Time e))"

definition in_window :: "time \<Rightarrow> time \<Rightarrow> string \<Rightarrow> LogEntry \<Rightarrow> bool" where
  "in_window since now user e \<longleftrightarrow>
     (case entry_time e of None \<Rightarrow> False
      | Some t \<Rightarrow> \<not> t < since \<and> \<not> now < t \<and> (user = [] \<or> EqualFold (le_User e) user))"

definition bucket_of :: "int \<Rightarrow> LogEntry \<Rightarrow> int" where
  "bucket_of bk e = (case entry_time e of None \<Rightarrow> 0 | Some t \<Rightarrow> go_div (unix t) bk * bk)"

definition add_outcome :: "LogEntry \<Rightarrow> acc \<Rightarrow> acc" where
  "add_outcome e a =
     (let a1 = a\<lparr>a_requests := a_requests a + 1\<rparr>;
          a2 = (if HasPrefix (le_Outcome e) ''DENIED'' then a1\<lparr>a_denied := a_denied a1 + 1\<rparr>
                else if HasPrefix (le_Outcome e) ''ERROR'' then a1\<lparr>a_errors := a_errors a1 + 1\<rparr>
                else a1\<lparr>a_allowed := a_allowed a1 + 1\<rparr>)
      in a2\<lparr>a_bin := a_bin a2 + le_BytesIn e, a_bout := a_bout a2 + le_BytesOut e\<rparr>)"

definition fm_acc :: "('k, acc) gomap \<Rightarrow> 'k \<Rightarrow> acc" where
  "fm_acc m k = (case fmlookup m k of None \<Rightarrow> zero_acc | Some a \<Rightarrow> a)"

definition add_bucket :: "int \<Rightarrow> LogEntry \<Rightarrow> (int, acc) gomap \<Rightarrow> (int, acc) gomap" where
  "add_bucket bk e m = fmupd (bucket_of bk e) (add_outcome e (fm_acc m (bucket_of bk e))) m"

definition add_user :: "LogEntry \<Rightarrow> (string, acc) gomap \<Rightarrow> (string, acc) gomap" where
  "add_user e m =
     (if le_User e = [] then m
      else let a = fm_acc m (le_User e)
           in fmupd (le_User e) (a\<lparr>a_requests := a_requests a + 1, a_bin := a_bin a + le_BytesIn e,
                a_bout := a_bout a + le_BytesOut e\<rparr>) m)"

fun timeline_loop :: "time \<Rightarrow> time \<Rightarrow> int \<Rightarrow> string \<Rightarrow> LogEntry list \<Rightarrow>
    (int, acc) gomap \<times> (string, acc) gomap \<Rightarrow> (int, acc) gomap \<times> (string, acc) gomap" where
  "timeline_loop since now bk user [] st = st"
| "timeline_loop since now bk user (e # es) (bs, us) =
     timeline_loop since now bk user es
       (if in_window since now user e then (add_bucket bk e bs, add_user e us) else (bs, us))"

definition point_of :: "(int, acc) gomap \<Rightarrow> int \<Rightarrow> TimelinePoint" where
  "point_of m b = (case fmlookup m b of
       None \<Rightarrow> \<lparr>tp_T = b, tp_Requests = 0, tp_Allowed = 0, tp_Denied = 0, tp_Errors = 0,
                tp_BytesIn = 0, tp_BytesOut = 0\<rparr>
     | Some a \<Rightarrow>
        (let al = a_requests a - a_denied a - a_errors a
         in \<lparr>tp_T = b, tp_Requests = a_requests a, tp_Allowed = (if al < 0 then 0 else al),
             tp_Denied = a_denied a, tp_Errors = a_errors a, tp_BytesIn = a_bin a, tp_BytesOut = a_bout a\<rparr>))"

text \<open>The loop over the buckets; the callers keep \<open>bk\<close> positive.\<close>

function bucket_loop :: "int \<Rightarrow> int \<Rightarrow> int \<Rightarrow> int list" where
  "bucket_loop bk b hi = (if bk \<le> 0 \<or> hi < b then [] else b # bucket_loop bk (b + bk) hi)"
  by pat_completeness auto
termination
  by (relation "measure (\<lambda>(bk, b, hi). nat (hi - b + 1))") auto

declare bucket_loop.simps [simp del]

definition agg_of :: "(string, acc) gomap \<Rightarrow> string \<Rightarrow> UserAgg" where
  "agg_of m name = (let a = fm_acc m name in
     \<lparr>ua_User = name, ua_Requests = a_requests a, ua_BytesIn = a_bin a, ua_BytesOut = a_bout a\<rparr>)"

definition agg_key :: "UserAgg \<Rightarrow> int \<times> int" where
  "agg_key a = (- uint (ua_BytesOut a), - ua_Requests a)"

text \<open>
  The order in which a Go map is walked is unspecified; \<open>order\<close> lists the users in the order
  of this walk, which also settles how the unstable sort leaves equal elements.
\<close>

fun insert_agg :: "UserAgg \<Rightarrow> UserAgg list \<Rightarrow> UserAgg list" where
  "insert_agg a [] = [a]"
| "insert_agg a (b # bs) =
     (if fst (agg_key a) < fst (agg_key b) \<or> (fst (agg_key a) = fst (agg_key b) \<and> snd (agg_key a) \<le> snd (agg_key b))
      then a # b # bs else b # insert_agg a bs)"

definition top_users :: "string list \<Rightarrow> (string, acc) gomap \<Rightarrow> UserAgg list" where
  "top_users order m = take 10 (foldr insert_agg (map (agg_of m) order) [])"

definition Timeline ::
  "string list \<Rightarrow> time \<Rightarrow> time \<Rightarrow> int \<Rightarrow> string \<Rightarrow> LogStore \<Rightarrow> TimelinePoint list \<times> UserAgg list"
where
  "Timeline order now since bk user l =
     (let (bs, us) = timeline_loop since now bk user (l_entries l) (fmempty, fmempty);
          first = go_div (unix since) bk * bk;
          final = go_div (unix now) bk * bk
      in (map (point_of bs) (bucket_loop bk first final), top_users order us))"

section \<open>The ring\<close>

lemma length_keep_last: "0 \<le> n \<Longrightarrow> int (length (keep_last n xs)) \<le> n"
  by (auto simp: keep_last_def)

lemma ring_max_pos: "0 < ring_max ls"
  by (simp add: ring_max_def)

lemma keep_last_append: "0 \<le> n \<Longrightarrow> keep_last n (keep_last n xs @ ys) = keep_last n (xs @ ys)"
  by (auto simp: keep_last_def add.commute)

lemma bw_flush_entries [simp]: "l_entries (bw_flush l) = l_entries l"
  by (simp add: bw_flush_def)

lemma openFile_entries [simp]: "l_entries (openFile io l) = l_entries l"
  by (simp add: openFile_def Let_def)

lemma rotateLocked_entries [simp]: "l_entries (rotateLocked io l) = l_entries l"
  by (simp add: rotateLocked_def Let_def)

lemma writeFileLocked_entries [simp]: "l_entries (writeFileLocked io e m l) = l_entries l"
  by (simp add: writeFileLocked_def Let_def split: prod.splits)

definition stamped :: "time \<Rightarrow> LogEntry \<Rightarrow> LogEntry" where
  "stamped now e = stamp (if le_Time e = [] then e\<lparr>le_Time := FormatRFC3339 now\<rparr> else e)"

lemma Add_entries: "l_entries (Add io now ls e l) = keep_last (ring_max ls) (l_entries l @ [stamped now e])"
  by (simp add: Add_def stamped_def Let_def)

lemma foldl_Add_entries:
  "l_entries l = keep_last (ring_max ls) xs \<Longrightarrow>
    l_entries (foldl (\<lambda>l (io, now, e). Add io now ls e l) l es) =
    keep_last (ring_max ls) (xs @ map (\<lambda>(io, now, e). stamped now e) es)"
proof (induction es arbitrary: l xs)
  case (Cons x es)
  obtain io now e where x: "x = (io, now, e)" by (cases x)
  have "l_entries (Add io now ls e l) = keep_last (ring_max ls) (xs @ [stamped now e])"
    using Cons.prems ring_max_pos [of ls] by (simp add: Add_entries keep_last_append)
  from Cons.IH [OF this] show ?case by (simp add: x)
qed simp

text \<open>The loop of \<open>Recent\<close> is a filter of the reversed ring, cut at the limit.\<close>

lemma recent_loop_take:
  "int (length out) \<le> n \<Longrightarrow> recent_loop n u q es out = out @ take (nat n - length out) (filter (entry_selected u q) es)"
proof (induction es arbitrary: out)
  case (Cons e es)
  show ?case
  proof (cases "int (length out) < n")
    case True
    then have "nat n - length out = Suc (nat n - Suc (length out))" by linarith
    with Cons True show ?thesis by simp
  next
    case False
    then show ?thesis using Cons.prems by simp
  qed
qed simp

definition clamp_limit :: "int \<Rightarrow> int" where
  "clamp_limit k = (if k \<le> 0 then 200 else if k > 5000 then 5000 else k)"

lemma Recent_take: "Recent k u q l = take (nat (clamp_limit k)) (filter (entry_selected u q) (rev (l_entries l)))"
  by (simp add: Recent_def Let_def recent_loop_take clamp_limit_def)

section \<open>The file\<close>

text \<open>What the file will hold once the buffer is flushed.\<close>

definition content :: "LogStore \<Rightarrow> string" where
  "content l = disk_content l @ l_buf l"

lemma bufio_write_content:
  "bufio_write cap (d, b) p = (d', b') \<Longrightarrow> d' @ b' = d @ b @ p"
  by (auto simp: bufio_write_def Let_def split: if_splits)

lemma content_bw_flush [simp]: "content (bw_flush l) = content l"
  by (auto simp: content_def bw_flush_def disk_content_def)

text \<open>The recorded size is the size of the file.\<close>

definition size_ok :: "LogStore \<Rightarrow> bool" where
  "size_ok l \<longleftrightarrow> (l_open l \<longrightarrow> l_fileSize l = int (length (content l))) \<and> (\<not> l_open l \<longrightarrow> l_buf l = [])"

definition no_failures :: "LogIO \<Rightarrow> bool" where
  "no_failures io \<longleftrightarrow> \<not> lio_open_fails io \<and> \<not> lio_stat_fails io \<and> \<not> lio_write_fails io
     \<and> \<not> lio_rot_read_fails io \<and> \<not> lio_rot_write_fails io \<and> \<not> lio_read_fails io \<and> lio_rot_got io = None"

lemma ioReadAll_length: "length (ioReadAll io s) \<le> length s"
  by (simp add: ioReadAll_def split: option.split)

text \<open>A rotation whose read fails replaces the log by nothing.\<close>

lemma short_read_loses_log:
  assumes "l_open l" "2 \<le> length (content l)" "lio_rot_got io = Some 0"
    and "\<not> lio_rot_read_fails io" "\<not> lio_rot_write_fails io"
  shows "disk_content (rotateLocked io l) = []"
  using assms by (auto simp: rotateLocked_def ioReadAll_def openFile_def content_def bw_flush_def disk_content_def Let_def)

lemma rotateLocked_ok:
  assumes "no_failures io" "l_open l"
  shows "l_open (rotateLocked io l)" "content (rotateLocked io l) = drop (length (content l) div 2) (content l)"
    "l_fileSize (rotateLocked io l) = int (length (content (rotateLocked io l)))"
  using assms
  by (auto simp: rotateLocked_def ioReadAll_def openFile_def no_failures_def content_def bw_flush_def disk_content_def Let_def)

lemma writeFileLocked_ok:
  assumes "no_failures io" "l_open l" "size_ok l"
  shows "l_open (writeFileLocked io e m l) \<and> size_ok (writeFileLocked io e m l)
    \<and> content (writeFileLocked io e m l) =
      (if l_fileSize l + int (length (log_line e)) > m then drop (length (content l) div 2) (content l) else content l)
      @ log_line e @ [newline]"
proof -
  define l1 where "l1 = (if l_fileSize l + int (length (log_line e)) > m then rotateLocked io l else l)"
  have l1: "l_open l1" "l_fileSize l1 = int (length (content l1))"
    using assms rotateLocked_ok [OF assms(1,2)] by (auto simp: l1_def size_ok_def)
  obtain d b where w: "bufio_write buf_cap (disk_content l1, l_buf l1) (log_line e @ [newline]) = (d, b)" by fastforce
  have db: "d @ b = content l1 @ log_line e @ [newline]"
    using bufio_write_content [OF w] by (simp add: content_def)
  define r where "r = writeFileLocked io e m l"
  have r: "r = l1\<lparr>l_disk := Some d, l_buf := b, l_warned := False,
      l_fileSize := l_fileSize l1 + int (length (log_line e) + 1)\<rparr>"
    using assms(1,2) l1 w by (simp add: r_def writeFileLocked_def l1_def [symmetric] no_failures_def Let_def)
  then have c: "content r = content l1 @ log_line e @ [newline]"
    using db by (simp add: content_def disk_content_def)
  then have "l_fileSize r = int (length (content r))" using r l1(2) by simp
  moreover have "content l1 = (if l_fileSize l + int (length (log_line e)) > m
      then drop (length (content l) div 2) (content l) else content l)"
    using rotateLocked_ok(2) [OF assms(1,2)] by (simp add: l1_def)
  ultimately show ?thesis using c l1(1) r unfolding r_def [symmetric] size_ok_def by simp
qed

section \<open>Reloading the file\<close>

text \<open>Where the last \<open>k - 1\<close> lines of a text begin: the reference of the chunked walk.\<close>

definition tail_start :: "string \<Rightarrow> nat \<Rightarrow> nat" where
  "tail_start c k = (case scan_back (rev c) k of Inl i \<Rightarrow> i + 1 | Inr _ \<Rightarrow> 0)"

lemma scan_back_append:
  "scan_back (xs @ ys) k = (case scan_back xs k of Inl i \<Rightarrow> Inl (i + length ys) | Inr k' \<Rightarrow> scan_back ys k')"
  by (induction xs arbitrary: k) auto

lemma chunk_walk_tail_start: "0 < chunk \<Longrightarrow> chunk_walk chunk c k pos = tail_start (take pos c) k"
proof (induction pos arbitrary: k rule: less_induct)
  case (less pos)
  show ?case
  proof (cases "pos = 0")
    case True
    then show ?thesis by (simp add: chunk_walk.simps tail_start_def)
  next
    case False
    let ?s = "pos - chunk"
    have t: "take pos c = take ?s c @ drop ?s (take pos c)"
      by (metis append_take_drop_id diff_le_self min.absorb1 take_take)
    have ih: "chunk_walk chunk c k' ?s = tail_start (take ?s c) k'" for k' using less False by simp
    have len: "length (take ?s c) = ?s \<or> drop ?s (take pos c) = []" by auto
    have "tail_start (take pos c) k = (case scan_back (rev (drop ?s (take pos c))) k of
        Inl i \<Rightarrow> ?s + i + 1 | Inr k' \<Rightarrow> tail_start (take ?s c) k')"
      using len by (subst t) (auto simp: tail_start_def scan_back_append split: sum.splits)
    then show ?thesis using False less.prems by (subst chunk_walk.simps) (simp add: ih Let_def split: sum.splits)
  qed
qed

definition text_of :: "string list \<Rightarrow> string" where
  "text_of ls = concat (map (\<lambda>l. l @ [newline]) ls)"

lemma text_of_append: "text_of (xs @ ys) = text_of xs @ text_of ys"
  by (simp add: text_of_def)

lemma scan_back_line: "newline \<notin> set l \<Longrightarrow> scan_back l k = Inr k"
  by (induction l) auto

lemma scan_back_text:
  "\<forall>l \<in> set ls. newline \<notin> set l \<Longrightarrow> length ls < k \<Longrightarrow> scan_back (rev (text_of ls)) k = Inr (k - length ls)"
proof (induction ls)
  case (Cons l ls)
  have "text_of (l # ls) = l @ newline # text_of ls" by (simp add: text_of_def)
  with Cons show ?case by (simp add: scan_back_append scan_back_line)
qed (simp add: text_of_def)

lemma drop_tail_start:
  assumes "\<forall>l \<in> set ls. newline \<notin> set l"
  shows "drop (tail_start (text_of ls) (Suc n)) (text_of ls) = text_of (drop (length ls - n) ls)
    \<and> (tail_start (text_of ls) (Suc n) = 0 \<or> text_of ls ! (tail_start (text_of ls) (Suc n) - 1) = newline)"
proof (cases "length ls \<le> n")
  case True
  then show ?thesis using assms by (simp add: tail_start_def scan_back_text)
next
  case False
  define as where "as = take (length ls - n) ls"
  define bs where "bs = drop (length ls - n) ls"
  have ls: "ls = as @ bs" and len: "length bs = n" using False by (simp_all add: as_def bs_def)
  have "as \<noteq> []" using False by (auto simp: as_def)
  then obtain xs x where as': "as = xs @ [x]" by (cases as rule: rev_cases) auto
  have b: "scan_back (rev (text_of bs)) (Suc n) = Inr 1"
    using assms ls len by (subst scan_back_text) auto
  have a: "text_of as = (text_of xs @ x) @ [newline]" by (simp add: as' text_of_def)
  then have "scan_back (rev (text_of as)) 1 = Inl (length (text_of as) - 1)" by simp
  with b have "tail_start (text_of ls) (Suc n) = length (text_of as)"
    using a by (simp add: tail_start_def ls text_of_append scan_back_append)
  then show ?thesis using a by (simp add: ls text_of_append len nth_append)
qed

lemma SplitByte_nonempty [simp]: "SplitByte s c \<noteq> []"
  by (induction s) (auto split: list.splits)

lemma load_lines_text:
  "\<forall>l \<in> set ls. newline \<notin> set l \<Longrightarrow>
     load_lines (text_of ls) = filter (\<lambda>s. s \<noteq> [] \<and> length s \<le> load_maxLine) ls"
proof (induction ls)
  case (Cons l ls)
  have "text_of (l # ls) = l @ newline # text_of ls" by (simp add: text_of_def)
  with Cons show ?case by (simp add: load_lines_def SplitByte_append)
qed (simp add: text_of_def load_lines_def)

lemma esc_char_no_newline: "newline \<notin> set (esc_char c)"
  by (auto simp: esc_char_def Let_def newline_def bslash_def hex_digit_def byte_of_eq_iff [symmetric])

lemma jstring_no_newline: "newline \<notin> set (jstring s)"
  using esc_char_no_newline by (auto simp: jstring_def newline_def dquote_def byte_of_eq_iff [symmetric])

lemma int_dec_no_newline: "newline \<notin> set (int_dec i)"
proof -
  have "list_all is_digit (pos_dec \<bar>i\<bar>)" by simp
  then have "newline \<notin> set (pos_dec \<bar>i\<bar>)" by (auto simp: list_all_iff newline_def is_digit_def)
  then show ?thesis by (auto simp: int_dec_def newline_def byte_of_eq_iff [symmetric])
qed

lemma newline_neq: "newline \<noteq> c" if "byte_of c \<noteq> 10" for c
  using that by (auto simp: newline_def)

lemma log_line_no_newline: "newline \<notin> set (log_line e)"
proof -
  have u: "pos_dec (uint x) = int_dec (uint x)" for x :: uint64 by (simp add: int_dec_def)
  have k: "newline \<noteq> CHR ''{''" "newline \<noteq> CHR ''}''" "newline \<noteq> CHR '',''" "newline \<noteq> CHR '':''"
    by (simp_all add: newline_neq)
  show ?thesis
    using jstring_no_newline int_dec_no_newline k
    by (simp add: log_line_def Marshal_def enc_entry_def jint_def juint_def u)
qed

definition entry_fits :: "LogEntry \<Rightarrow> bool" where
  "entry_fits e \<longleftrightarrow> in_int64 (le_Status e) \<and> in_int64 (le_DurationMs e)
     \<and> length (log_line e) \<le> load_maxLine \<and> stamp (e\<lparr>le_t := 0\<rparr>) = e"

lemma entry_tags: "ToLower ''time'' = ''time''" "ToLower ''user'' = ''user''" "ToLower ''method'' = ''method''"
  "ToLower ''host'' = ''host''" "ToLower ''path'' = ''path''" "ToLower ''status'' = ''status''"
  "ToLower ''outcome'' = ''outcome''" "ToLower ''duration_ms'' = ''duration_ms''" "ToLower ''client'' = ''client''"
  by code_simp+

lemma load_entry_log_line: "entry_fits e \<Longrightarrow> load_entry (log_line e) = Some e"
proof -
  assume e: "entry_fits e"
  have "json_ok (enc_entry e)" by (rule json_okI) (simp_all add: enc_entry_def)
  then have "load_entry (log_line e) = map_option stamp (dec_struct dec_entry (enc_entry e) zero_entry)"
    by (simp add: load_entry_def log_line_def Unmarshal_Marshal)
  also have "dec_struct dec_entry (enc_entry e) zero_entry = Some (e\<lparr>le_t := 0\<rparr>)"
    using e by (simp add: enc_entry_def dec_entry_def tag_simps entry_tags entry_fits_def zero_entry_def)
  finally show ?thesis using e by (simp add: entry_fits_def)
qed

lemma load_log_lines: "\<forall>e \<in> set es. entry_fits e \<Longrightarrow> List.map_filter load_entry (map log_line es) = es"
  by (induction es) (auto simp: load_entry_log_line)

lemma log_line_nonempty: "log_line e \<noteq> []"
  by (simp add: log_line_def Marshal_def enc_entry_def)


lemma loadFile_text:
  assumes "l_open l" "lg_ToFile ls" "lg_FileMaxMB ls \<noteq> 0" "\<not> lio_read_fails io"
    "disk_content l = text_of (map log_line es)" "length (text_of (map log_line es)) \<le> load_maxRead"
    "\<forall>e \<in> set es. entry_fits e" "es \<noteq> []"
  shows "l_entries (loadFile io ls l) = keep_last (ring_max ls) es"
proof -
  let ?c = "text_of (map log_line es)" and ?m = "nat (ring_max ls)"
  let ?off = "tail_start ?c (Suc ?m)"
  let ?tl = "drop (length es - ?m) es"
  have nl: "\<forall>s \<in> set (map log_line xs). newline \<notin> set s" for xs using log_line_no_newline by auto
  have off: "chunk_walk load_chunk ?c (Suc ?m) (length ?c) = ?off"
    by (simp add: chunk_walk_tail_start load_chunk_def)
  have d: "drop ?off ?c = text_of (map log_line ?tl)"
    "?off = 0 \<or> ?c ! (?off - 1) = newline"
    using drop_tail_start [OF nl, of es ?m] by (simp_all add: drop_map)
  have "filter (\<lambda>s. s \<noteq> [] \<and> length s \<le> load_maxLine) (map log_line ?tl) = map log_line ?tl"
    using assms(7) log_line_nonempty by (auto simp: filter_id_conv entry_fits_def dest: in_set_dropD)
  then have lines: "load_lines (drop ?off ?c) = map log_line ?tl"
    unfolding d(1) by (simp add: load_lines_text [OF nl])
  have kl: "keep_last (int ?m) (map log_line ?tl) = map log_line ?tl" by (auto simp: keep_last_def)
  have "\<forall>e \<in> set ?tl. entry_fits e" using assms(7) by (auto dest: in_set_dropD)
  note le = load_log_lines [OF this]
  have ne: "?c \<noteq> []" using assms(8) by (cases es) (simp_all add: text_of_def)
  have "\<not> load_maxRead < length ?c - ?off" using assms(6) by linarith
  then have o: "(if load_maxRead < length ?c - ?off then length ?c - load_maxRead else ?off) = ?off" by simp
  have f: "(if 0 < ?off \<and> map log_line ?tl \<noteq> [] \<and> ?c ! (?off - 1) \<noteq> newline then tl (map log_line ?tl)
      else map log_line ?tl) = map log_line ?tl"
    using d(2) by auto
  have m1: "?m + 1 = Suc ?m" by simp
  have "l_entries (loadFile io ls l) = ?tl"
    unfolding loadFile_def Let_def assms(5) m1 off o lines f kl le using assms(1-4) ne by simp
  then show ?thesis using ring_max_pos [of ls] by (auto simp: keep_last_def)
qed

section \<open>Reading a CSV export\<close>

text \<open>A reader of RFC 4180 records: the fields of one record and what follows its line break.\<close>

fun read_quoted :: "string \<Rightarrow> (string \<times> string) option" where
  "read_quoted [] = None"
| "read_quoted [c] = (if c = dquote then Some ([], []) else None)"
| "read_quoted (c # d # s) =
     (if c = dquote
      then (if d = dquote then map_option (\<lambda>(f, r). (dquote # f, r)) (read_quoted s) else Some ([], d # s))
      else map_option (\<lambda>(f, r). (c # f, r)) (read_quoted (d # s)))"

definition plain_char :: "char \<Rightarrow> bool" where
  "plain_char c \<longleftrightarrow> c \<noteq> CHR '','' \<and> c \<noteq> newline"

definition read_field :: "string \<Rightarrow> (string \<times> string) option" where
  "read_field s = (if HasPrefix s [dquote] then read_quoted (tl s)
     else Some (takeWhile plain_char s, dropWhile plain_char s))"

fun read_record :: "nat \<Rightarrow> string \<Rightarrow> (string list \<times> string) option" where
  "read_record 0 s = None"
| "read_record (Suc n) s =
     (case read_field s of None \<Rightarrow> None
      | Some (f, r) \<Rightarrow>
         (case r of [] \<Rightarrow> None
          | c # r' \<Rightarrow>
             if c = CHR '','' then map_option (\<lambda>(fs, r2). (f # fs, r2)) (read_record n r')
             else if c = newline then Some ([f], r') else None))"

fun read_records :: "nat \<Rightarrow> string \<Rightarrow> string list list option" where
  "read_records 0 s = (if s = [] then Some [] else None)"
| "read_records (Suc n) s =
     (if s = [] then Some []
      else (case read_record (Suc (length s)) s of None \<Rightarrow> None
        | Some (fs, r) \<Rightarrow> map_option (Cons fs) (read_records n r)))"

definition quote_body :: "string \<Rightarrow> string" where
  "quote_body s = concat (map (\<lambda>c. if c = dquote then [dquote, dquote] else [c]) s)"

lemma read_quoted_body:
  "c \<noteq> dquote \<Longrightarrow> read_quoted (quote_body s @ dquote # c # r) = Some (s, c # r)"
proof (induction s)
  case (Cons x s)
  then show ?case by (cases "quote_body s @ dquote # c # r") (auto simp: quote_body_def)
qed (simp add: quote_body_def)

lemma csv_plain: "\<not> list_ex csv_special s \<Longrightarrow> list_all plain_char s \<and> dquote \<notin> set s"
  by (induction s) (auto simp: csv_special_def plain_char_def newline_def)

lemma read_plain: "list_all plain_char s \<Longrightarrow> \<not> plain_char c \<Longrightarrow>
    takeWhile plain_char (s @ c # r) = s \<and> dropWhile plain_char (s @ c # r) = c # r"
  by (induction s) auto

lemma read_field_csvField:
  assumes "c = CHR '','' \<or> c = newline"
  shows "read_field (csvField s @ c # r) = Some (s, c # r)"
proof (cases "list_ex csv_special s")
  case True
  have "c \<noteq> dquote" using assms by (auto simp: newline_def byte_of_eq_iff [symmetric])
  then show ?thesis using True read_quoted_body [of c s r]
    by (simp add: read_field_def csvField_def HasPrefix_def quote_body_def)
next
  case False
  have "\<not> HasPrefix (s @ c # r) [dquote]"
    using csv_plain [OF False] assms by (cases s) (auto simp: HasPrefix_def newline_def byte_of_eq_iff [symmetric])
  moreover have "\<not> plain_char c" using assms by (auto simp: plain_char_def)
  ultimately show ?thesis using False csv_plain [OF False] read_plain [of s c r]
    by (simp add: read_field_def csvField_def)
qed

lemma read_record_join:
  "fs \<noteq> [] \<Longrightarrow> length fs \<le> n \<Longrightarrow> read_record n (JoinBy '','' (map csvField fs) @ newline # r) = Some (fs, r)"
proof (induction fs arbitrary: n)
  case (Cons f fs)
  obtain k where n: "n = Suc k" using Cons.prems(2) by (cases n) auto
  have nc: "newline \<noteq> CHR '',''" by (simp add: newline_neq)
  show ?case
  proof (cases fs)
    case Nil
    then show ?thesis using n nc by (simp add: read_field_csvField)
  next
    case (Cons g gs)
    then show ?thesis using Cons.IH [of k] \<open>length (f # fs) \<le> n\<close> n by (simp add: read_field_csvField)
  qed
qed simp

lemma csvField_number: "csvField (int_dec i) = int_dec i"
proof -
  have "\<not> csv_special c" if "c \<in> set (int_dec i)" for c
  proof -
    have "c = CHR ''-'' \<or> is_digit c"
      using that list_all_digit_pos_dec [of "\<bar>i\<bar>"] by (auto simp: int_dec_def list_all_iff split: if_splits)
    then show ?thesis by (auto simp: csv_special_def is_digit_def)
  qed
  then show ?thesis by (auto simp: csvField_def list_ex_iff)
qed

lemma csv_row_join: "csv_row e = JoinBy '','' (map csvField (csv_columns e)) @ [newline]"
proof -
  have u: "pos_dec (uint x) = int_dec (uint x)" for x :: uint64 by (simp add: int_dec_def)
  show ?thesis unfolding csv_row_def csv_columns_def u by (simp add: csvField_number)
qed

lemma read_records_rows:
  "length es \<le> n \<Longrightarrow> read_records n (concat (map csv_row es)) = Some (map csv_columns es)"
proof (induction es arbitrary: n)
  case (Cons e es)
  obtain k where n: "n = Suc k" using Cons.prems by (cases n) auto
  let ?r = "concat (map csv_row es)"
  have cols: "csv_columns e \<noteq> []" "length (csv_columns e) = 11" by (simp_all add: csv_columns_def)
  have "read_record m (csv_row e @ ?r) = Some (csv_columns e, ?r)" if "11 \<le> m" for m
    unfolding csv_row_join [of e] using read_record_join [OF cols(1), of m ?r] that cols(2) by simp
  moreover have "11 \<le> Suc (length (csv_row e @ ?r))" by (simp add: csv_row_def)
  ultimately have "read_record (Suc (length (csv_row e @ ?r))) (csv_row e @ ?r) = Some (csv_columns e, ?r)"
    by blast
  moreover have "csv_row e \<noteq> []" by (simp add: csv_row_def)
  ultimately show ?case using Cons n by (simp del: read_record.simps)
next
  case Nil
  then show ?case by (cases n) simp_all
qed

section \<open>Counting in the timeline\<close>

definition denied :: "LogEntry \<Rightarrow> bool" where
  "denied e \<longleftrightarrow> HasPrefix (le_Outcome e) ''DENIED''"

definition errored :: "LogEntry \<Rightarrow> bool" where
  "errored e \<longleftrightarrow> \<not> denied e \<and> HasPrefix (le_Outcome e) ''ERROR''"

definition bucket_count :: "(LogEntry \<Rightarrow> bool) \<Rightarrow> int \<Rightarrow> int \<Rightarrow> LogEntry list \<Rightarrow> int" where
  "bucket_count P bk b es = int (length (filter (\<lambda>e. P e \<and> bucket_of bk e = b) es))"

lemma fm_acc_upd: "fm_acc (fmupd k a m) j = (if j = k then a else fm_acc m j)"
  by (simp add: fm_acc_def)

lemma add_outcome_sel:
  "a_requests (add_outcome e a) = a_requests a + 1"
  "a_denied (add_outcome e a) = a_denied a + (if denied e then 1 else 0)"
  "a_errors (add_outcome e a) = a_errors a + (if errored e then 1 else 0)"
  by (auto simp: add_outcome_def denied_def errored_def Let_def)

lemma timeline_loop_counts:
  fixes since now user
  defines "w \<equiv> in_window since now user"
  shows "a_requests (fm_acc (fst (timeline_loop since now bk user es (bs, us))) b)
      = a_requests (fm_acc bs b) + bucket_count w bk b es"
    "a_denied (fm_acc (fst (timeline_loop since now bk user es (bs, us))) b)
      = a_denied (fm_acc bs b) + bucket_count (\<lambda>e. w e \<and> denied e) bk b es"
    "a_errors (fm_acc (fst (timeline_loop since now bk user es (bs, us))) b)
      = a_errors (fm_acc bs b) + bucket_count (\<lambda>e. w e \<and> errored e) bk b es"
  by (induction es arbitrary: bs us)
    (simp_all add: w_def add_bucket_def fm_acc_upd add_outcome_sel bucket_count_def)

lemma point_of_acc:
  "tp_T (point_of m b) = b"
  "tp_Requests (point_of m b) = a_requests (fm_acc m b)"
  "tp_Denied (point_of m b) = a_denied (fm_acc m b)"
  "tp_Errors (point_of m b) = a_errors (fm_acc m b)"
  "tp_Allowed (point_of m b) = max 0 (a_requests (fm_acc m b) - a_denied (fm_acc m b) - a_errors (fm_acc m b))"
  by (auto simp: point_of_def fm_acc_def zero_acc_def Let_def split: option.splits)

lemma count_split:
  "length (filter P es) = length (filter (\<lambda>e. P e \<and> Q e) es) + length (filter (\<lambda>e. P e \<and> \<not> Q e) es)"
  by (induction es) auto

lemma bucket_count_outcomes:
  "bucket_count (\<lambda>e. w e \<and> denied e) bk b es + bucket_count (\<lambda>e. w e \<and> errored e) bk b es \<le> bucket_count w bk b es"
  by (induction es) (auto simp: bucket_count_def errored_def)

lemma bucket_loop_mem:
  "0 < bk \<Longrightarrow> b \<in> set (bucket_loop bk lo hi) \<longleftrightarrow> lo \<le> b \<and> b \<le> hi \<and> bk dvd b - lo"
proof (induction bk lo hi rule: bucket_loop.induct)
  case (1 bk lo hi)
  show ?case
  proof (cases "hi < lo")
    case True
    then show ?thesis by (simp add: bucket_loop.simps)
  next
    case False
    have "b - (lo + bk) = (b - lo) - bk" by simp
    then have d: "bk dvd b - (lo + bk) \<longleftrightarrow> bk dvd b - lo" by (metis dvd_diff dvd_diff_commute dvd_refl diff_diff_eq2 add_diff_cancel)
    have le: "lo + bk \<le> b" if "lo < b" "bk dvd b - lo" using that zdvd_imp_le [of bk "b - lo"] by simp
    have "b \<in> set (bucket_loop bk lo hi) \<longleftrightarrow> b = lo \<or> (lo + bk \<le> b \<and> b \<le> hi \<and> bk dvd b - lo)"
      using 1 False d by (subst bucket_loop.simps) auto
    then show ?thesis using False le 1(2) by auto
  qed
qed

lemma bucket_loop_distinct: "0 < bk \<Longrightarrow> distinct (bucket_loop bk lo hi)"
proof (induction bk lo hi rule: bucket_loop.induct)
  case (1 bk lo hi)
  then show ?case by (subst bucket_loop.simps) (auto simp: bucket_loop_mem)
qed

lemma go_div_nonneg: "0 \<le> a \<Longrightarrow> 0 < b \<Longrightarrow> go_div a b = a div b"
  by (auto simp: go_div_def sgn_if)

lemma bucket_in_loop:
  assumes "0 < bk" "0 \<le> since" "in_window since now user e"
  shows "bucket_of bk e \<in> set (bucket_loop bk (go_div (unix since) bk * bk) (go_div (unix now) bk * bk))"
proof -
  obtain t where t: "entry_time e = Some t" "since \<le> t" "t \<le> now"
    using assms(3) by (auto simp: in_window_def split: option.splits)
  have s: "0 < second" by (simp add: second_def)
  have u: "0 \<le> unix since" "unix since \<le> unix t" "unix t \<le> unix now"
    using t assms(2) s by (auto simp: unix_def zdiv_mono1 pos_imp_zdiv_nonneg_iff)
  then have "unix since div bk \<le> unix t div bk" "unix t div bk \<le> unix now div bk"
    using assms(1) by (auto simp: zdiv_mono1)
  then have "unix since div bk * bk \<le> unix t div bk * bk" "unix t div bk * bk \<le> unix now div bk * bk"
    using assms(1) by auto
  then show ?thesis
    using u assms(1) t(1) by (simp add: bucket_of_def go_div_nonneg bucket_loop_mem)
qed

lemma sum_counts:
  "distinct bs \<Longrightarrow> \<forall>e \<in> set es. P e \<longrightarrow> f e \<in> set bs \<Longrightarrow>
     sum_list (map (\<lambda>b. int (length (filter (\<lambda>e. P e \<and> f e = b) es))) bs) = int (length (filter P es))"
proof (induction es)
  case (Cons e es)
  have one: "sum_list (map (\<lambda>b. if f e = b then 1 else 0) bs) = (if f e \<in> set bs then 1 else (0::int))"
    using Cons.prems(1) by (induction bs) auto
  have "sum_list (map (\<lambda>b. int (length (filter (\<lambda>e. P e \<and> f e = b) (e # es)))) bs) =
      sum_list (map (\<lambda>b. (if P e \<and> f e = b then 1 else 0) + int (length (filter (\<lambda>e. P e \<and> f e = b) es))) bs)"
    by (intro arg_cong [where f = sum_list] map_cong) auto
  also have "\<dots> = (if P e then 1 else 0) + int (length (filter P es))"
    using Cons one by (simp add: sum_list_addf)
  finally show ?case by simp
qed simp

section \<open>Properties of the activity log\<close>

text \<open>
  The log answers a query from the newest entries. From an empty log, after any sequence
  of additions under fixed settings, whatever happens to the file, a query returns the newest
  matching entries, newest first, among the last ring-size entries added, as many as the limit
  (200 by default, at most 5000) admits.
\<close>

theorem Recent_after_adds:
  assumes "l_entries l = []"
  shows "Recent k user query (foldl (\<lambda>l (io, now, e). Add io now ls e l) l adds) =
    take (nat (clamp_limit k)) (filter (entry_selected user query)
      (rev (keep_last (ring_max ls) (map (\<lambda>(io, now, e). stamped now e) adds))))"
proof -
  have "l_entries l = keep_last (ring_max ls) []" using assms ring_max_pos [of ls] by (simp add: keep_last_def)
  from foldl_Add_entries [OF this] show ?thesis by (simp add: Recent_take)
qed

theorem Recent_after_adds_witness:
  "let io = \<lparr>lio_open_fails = True, lio_stat_fails = True, lio_write_fails = True, lio_rot_read_fails = True,
       lio_rot_write_fails = True, lio_read_fails = True, lio_rot_got = None\<rparr> in
   Recent 1 [] [] (foldl (\<lambda>l (io, now, e). Add io now \<lparr>lg_RingSize = 100, lg_FileMaxMB = 0, lg_ToFile = False\<rparr> e l)
     \<lparr>l_entries = [], l_open = False, l_buf = [], l_disk = None, l_fileSize = 0, l_warned = False\<rparr>
     [(io, 5 * second, zero_entry\<lparr>le_User := ''a''\<rparr>), (io, 6 * second, zero_entry\<lparr>le_User := ''b''\<rparr>)])
   = [stamped (6 * second) (zero_entry\<lparr>le_User := ''b''\<rparr>)]"
  unfolding Let_def
  by (subst Recent_after_adds) (simp_all add: clamp_limit_def entry_selected_def keep_last_def ring_max_def)



text \<open>
  C36: the activity file stays within its limit. While no file operation fails, adding an
  entry whose line is at most half the limit, less one byte, keeps the recorded size equal to the
  real one and the file at most one byte larger than the limit.
\<close>

theorem activity_file_bounded:
  assumes "no_failures io" "l_open l" "size_ok l" "int (length (content l)) \<le> m + 1"
    "2 * int (length (log_line e)) + 2 \<le> m"
  shows "size_ok (writeFileLocked io e m l) \<and> int (length (content (writeFileLocked io e m l))) \<le> m + 1"
  using writeFileLocked_ok [OF assms(1-3), of e m] assms(2-5) by (auto simp: size_ok_def)

theorem activity_file_bounded_witness:
  "let io = \<lparr>lio_open_fails = False, lio_stat_fails = False, lio_write_fails = False, lio_rot_read_fails = False,
         lio_rot_write_fails = False, lio_read_fails = False, lio_rot_got = None\<rparr>;
       l = \<lparr>l_entries = [], l_open = True, l_buf = replicate 200 CHR ''x'', l_disk = Some (replicate 100 CHR ''y''),
         l_fileSize = 300, l_warned = False\<rparr>
   in int (length (content (writeFileLocked io zero_entry 300 l))) \<le> 301"
proof -
  have l: "length (log_line zero_entry) = 132" by code_simp
  show ?thesis unfolding Let_def
    using l activity_file_bounded [of "\<lparr>lio_open_fails = False, lio_stat_fails = False, lio_write_fails = False,
        lio_rot_read_fails = False, lio_rot_write_fails = False, lio_read_fails = False, lio_rot_got = None\<rparr>"
        "\<lparr>l_entries = [], l_open = True, l_buf = replicate 200 CHR ''x'', l_disk = Some (replicate 100 CHR ''y''),
         l_fileSize = 300, l_warned = False\<rparr>" 300 zero_entry]
    by (simp add: no_failures_def size_ok_def content_def disk_content_def)
qed

text \<open>
  Clearing is durable. After a clear whose file can be reopened, nothing is left to
  query, and a restart on the same file finds nothing either.
\<close>

theorem clear_is_durable:
  assumes "\<not> lio_open_fails io" "l_open l"
  shows "Recent k user query (Clear io l) = [] \<and> l_open (Clear io l) \<and> size_ok (Clear io l)
    \<and> l_entries (NewLogStore b io' ls (l_disk (Clear io l))) = []"
  using assms
  by (simp add: Clear_def Recent_take size_ok_def content_def disk_content_def NewLogStore_def loadFile_def
      openFile_def bw_flush_def Let_def)

theorem clear_is_durable_witness:
  "let io = \<lparr>lio_open_fails = False, lio_stat_fails = False, lio_write_fails = False, lio_rot_read_fails = False,
         lio_rot_write_fails = False, lio_read_fails = False, lio_rot_got = None\<rparr>
   in Recent 5 [] [] (Clear io \<lparr>l_entries = [zero_entry], l_open = True, l_buf = [], l_disk = None, l_fileSize = 0,
        l_warned = False\<rparr>) = []"
  unfolding Let_def by (rule clear_is_durable [THEN conjunct1]) simp_all

text \<open>
  C37: a CSV export can be read back: an RFC 4180 reader recovers the heading and every
  column of every entry, whatever commas, quotes and line breaks the entries contain.
\<close>

theorem csv_export_reads_back:
  "read_records (Suc (length es)) (CSV es) =
     Some ([''time'', ''user'', ''method'', ''host'', ''path'', ''outcome'', ''status'', ''bytes_in'', ''bytes_out'',
       ''duration_ms'', ''client''] # map csv_columns es)"
proof -
  let ?h = "[''time'', ''user'', ''method'', ''host'', ''path'', ''outcome'', ''status'', ''bytes_in'', ''bytes_out'',
       ''duration_ms'', ''client'']"
  let ?r = "concat (map csv_row es)"
  have h: "''time,user,method,host,path,outcome,status,bytes_in,bytes_out,duration_ms,client'' = JoinBy '','' (map csvField ?h)"
    by code_simp
  have c: "CSV es = JoinBy '','' (map csvField ?h) @ newline # ?r" unfolding CSV_def h by simp
  have "read_record m (CSV es) = Some (?h, ?r)" if "11 \<le> m" for m
    unfolding c by (rule read_record_join) (use that in simp_all)
  moreover have "11 \<le> Suc (length (CSV es))" by (simp add: CSV_def)
  ultimately have "read_record (Suc (length (CSV es))) (CSV es) = Some (?h, ?r)" by blast
  moreover have "CSV es \<noteq> []" by (simp add: CSV_def)
  ultimately show ?thesis using read_records_rows [of es "length es"] by (simp del: read_record.simps)
qed

text \<open>
  The timeline accounts for every entry of its window exactly once. Over a window that
  starts after 1970, with a positive bucket width, the points are at distinct times, their request
  counts add up to the number of entries in the window, and at every point the allowed, denied and
  failed requests add up to the requests.
\<close>

theorem timeline_counts_every_entry:
  assumes "0 < bk" "0 \<le> since"
  shows "(let points = fst (Timeline order now since bk user l) in
      distinct (map tp_T points)
      \<and> sum_list (map tp_Requests points) = int (length (filter (in_window since now user) (l_entries l)))
      \<and> list_all (\<lambda>p. tp_Allowed p + tp_Denied p + tp_Errors p = tp_Requests p) points)"
proof -
  let ?w = "in_window since now user"
  let ?m = "fst (timeline_loop since now bk user (l_entries l) (fmempty, fmempty))"
  let ?bs = "bucket_loop bk (go_div (unix since) bk * bk) (go_div (unix now) bk * bk)"
  have pts: "fst (Timeline order now since bk user l) = map (point_of ?m) ?bs"
    by (simp add: Timeline_def split_beta Let_def)
  have z: "fm_acc fmempty b = zero_acc" for b :: int by (simp add: fm_acc_def)
  note counts = timeline_loop_counts [of since now bk user "l_entries l" fmempty fmempty, unfolded z]
  have rq: "tp_Requests (point_of ?m b) = bucket_count ?w bk b (l_entries l)" for b
    by (simp add: point_of_acc counts zero_acc_def)
  have "sum_list (map (\<lambda>b. bucket_count ?w bk b (l_entries l)) ?bs) = int (length (filter ?w (l_entries l)))"
    unfolding bucket_count_def using assms
    by (intro sum_counts) (auto simp: bucket_loop_distinct bucket_in_loop)
  moreover have "tp_Allowed (point_of ?m b) + tp_Denied (point_of ?m b) + tp_Errors (point_of ?m b) = tp_Requests (point_of ?m b)" for b
    using bucket_count_outcomes [of ?w bk b "l_entries l"] by (simp add: point_of_acc counts zero_acc_def)
  ultimately show ?thesis
    using bucket_loop_distinct [OF assms(1)] by (simp add: pts o_def rq point_of_acc(1) list_all_iff)
qed

theorem timeline_counts_every_entry_witness:
  "sum_list (map tp_Requests (fst (Timeline [] (90 * second) 0 60 []
     \<lparr>l_entries = [zero_entry\<lparr>le_t := 30\<rparr>, zero_entry\<lparr>le_t := 70\<rparr>, zero_entry\<lparr>le_t := 100\<rparr>], l_open = False,
       l_buf = [], l_disk = None, l_fileSize = 0, l_warned = False\<rparr>))) = 2"
proof -
  have "length (filter (in_window 0 (90 * second) []) [zero_entry\<lparr>le_t := 30\<rparr>, zero_entry\<lparr>le_t := 70\<rparr>, zero_entry\<lparr>le_t := 100\<rparr>]) = 2"
    by (simp add: in_window_def entry_time_def second_def)
  then show ?thesis
    using timeline_counts_every_entry [of 60 0 "[]" "90 * second" "[]" "\<lparr>l_entries = [zero_entry\<lparr>le_t := 30\<rparr>,
        zero_entry\<lparr>le_t := 70\<rparr>, zero_entry\<lparr>le_t := 100\<rparr>], l_open = False, l_buf = [], l_disk = None,
        l_fileSize = 0, l_warned = False\<rparr>"] by (simp add: Let_def)
qed

end
