(* ===== verification/Conns.thy ===== *)
theory Conns
  imports Config_Data
begin

text \<open>
  The connection counters of \<^verbatim>\<open>proxy.go\<close>: \<open>tryEnterConn\<close> and \<open>exitConn\<close>, first
  as functions run without interference, then as a step relation in which the atomic actions of
  many handlers interleave. A counter is an \<open>atomic.Int32\<close>: both models add to it modulo
  \<open>2^32\<close>, keep the conversion \<open>int32(cap)\<close> and the early return of
  \<open>exitConn\<close> on an empty identifier.
\<close>

section \<open>The operations\<close>

record Conns =
  cn_user :: "(string, int) gomap"
  cn_global :: int

definition userConnCount :: "string \<Rightarrow> Conns \<Rightarrow> int" where
  "userConnCount uid c = (case fmlookup (cn_user c) uid of None \<Rightarrow> 0 | Some n \<Rightarrow> n)"

definition ActiveConns :: "string \<Rightarrow> Conns \<Rightarrow> int \<times> int" where
  "ActiveConns uid c = (cn_global c, userConnCount uid c)"

text \<open>\<open>c.Add(d)\<close> wraps at 32 bits.\<close>

definition add32 :: "int \<Rightarrow> int \<Rightarrow> int" where
  "add32 n d = int32 (n + d)"

definition user_cap :: "User \<Rightarrow> ProxySettings \<Rightarrow> int" where
  "user_cap u px = (if u_MaxConns u = 0 then px_DefaultMaxConns px else u_MaxConns u)"

definition tryEnterConn :: "User option \<Rightarrow> ProxySettings \<Rightarrow> Conns \<Rightarrow> (int \<times> string) \<times> Conns" where
  "tryEnterConn user px c =
     (let reserve = (case user of None \<Rightarrow> Some c
          | Some u \<Rightarrow>
             (let cap = user_cap u px; n = add32 (userConnCount (u_ID u) c) 1 in
              if cap > 0 \<and> n > int32 cap then None
              else Some (c\<lparr>cn_user := fmupd (u_ID u) n (cn_user c)\<rparr>)))
      in case reserve of
           None \<Rightarrow> ((429, ''per-user concurrent connection limit reached''),
                   (case user of None \<Rightarrow> c
                    | Some u \<Rightarrow> c\<lparr>cn_user := fmupd (u_ID u) (add32 (add32 (userConnCount (u_ID u) c) 1) (-1)) (cn_user c)\<rparr>))
         | Some c1 \<Rightarrow>
            (let g = add32 (cn_global c1) 1 in
             if px_MaxGlobalConns px > 0 \<and> g > px_MaxGlobalConns px
             then ((503, ''global concurrent connection limit reached''),
                   (case user of None \<Rightarrow> c1\<lparr>cn_global := add32 g (-1)\<rparr>
                    | Some u \<Rightarrow> c1\<lparr>cn_global := add32 g (-1),
                        cn_user := fmupd (u_ID u) (add32 (userConnCount (u_ID u) c1) (-1)) (cn_user c1)\<rparr>))
             else ((0, []), c1\<lparr>cn_global := g\<rparr>)))"

definition exitConn :: "string \<Rightarrow> Conns \<Rightarrow> Conns" where
  "exitConn uid c =
     (let c1 = c\<lparr>cn_global := add32 (cn_global c) (-1)\<rparr> in
      if uid = [] then c1
      else (case fmlookup (cn_user c1) uid of None \<Rightarrow> c1
        | Some n \<Rightarrow> c1\<lparr>cn_user := fmupd uid (add32 n (-1)) (cn_user c1)\<rparr>))"

text \<open>One more or one less in a counter; a missing counter of a user is created.\<close>

definition count_user :: "string \<Rightarrow> int \<Rightarrow> Conns \<Rightarrow> Conns" where
  "count_user u d c = c\<lparr>cn_user := fmupd u (add32 (userConnCount u c) d) (cn_user c)\<rparr>"

definition count_global :: "int \<Rightarrow> Conns \<Rightarrow> Conns" where
  "count_global d c = c\<lparr>cn_global := add32 (cn_global c) d\<rparr>"

section \<open>Interleaved handlers\<close>

text \<open>
  What a handler brings: the identifier of its user (\<^const>\<open>None\<close> for anonymous access), the
  cap of that user and the global cap, both as read from the configuration when the request was
  taken, so that handlers with different caps may run side by side.
\<close>

record job =
  jb_user :: "string option"
  jb_cap :: int
  jb_gmax :: int

definition job_of :: "User option \<Rightarrow> ProxySettings \<Rightarrow> job" where
  "job_of user px = \<lparr>jb_user = map_option u_ID user,
     jb_cap = (case user of None \<Rightarrow> 0 | Some u \<Rightarrow> user_cap u px), jb_gmax = px_MaxGlobalConns px\<rparr>"

text \<open>
  Where a handler stands between two atomic actions. In \<open>UserAdded\<close> and \<open>UserOver\<close>
  it holds the lock of the counter table. The global counter is incremented and loaded in two
  atomic operations without the lock, and \<open>exitConn\<close> looks the counter up under the lock but
  decrements it outside (\<open>LeaveFound\<close>).
\<close>

datatype stage = Start | UserAdded | UserOver | UserReserved | GlobalAdded | GlobalOver | RollUser
  | Admitted | LeaveUser | LeaveFound

record Shared =
  sh_conns :: Conns
  sh_handlers :: "nat \<Rightarrow> (job \<times> stage) option"

definition goto :: "nat \<Rightarrow> (job \<times> stage) option \<Rightarrow> (Conns \<Rightarrow> Conns) \<Rightarrow> Shared \<Rightarrow> Shared" where
  "goto i h f s = s\<lparr>sh_conns := f (sh_conns s), sh_handlers := (sh_handlers s)(i := h)\<rparr>"

definition holds_lock :: "job \<times> stage \<Rightarrow> bool" where
  "holds_lock h \<longleftrightarrow> snd h \<in> {UserAdded, UserOver}"

definition locked :: "Shared \<Rightarrow> bool" where
  "locked s \<longleftrightarrow> (\<exists>h \<in> ran (sh_handlers s). holds_lock h)"

definition over_user :: "job \<Rightarrow> string \<Rightarrow> Conns \<Rightarrow> bool" where
  "over_user j u c \<longleftrightarrow> jb_cap j > 0 \<and> userConnCount u c > int32 (jb_cap j)"

definition over_global :: "job \<Rightarrow> Conns \<Rightarrow> bool" where
  "over_global j c \<longleftrightarrow> jb_gmax j > 0 \<and> cn_global c > jb_gmax j"

text \<open>
  One atomic action of handler \<open>i\<close>. A handler that has returned is removed. The exchange with
  the upstream server, between \<open>Admitted\<close> and \<open>exitConn\<close>, touches no counter.
\<close>

inductive conn_step :: "nat \<Rightarrow> Shared \<Rightarrow> Shared \<Rightarrow> bool" for i s where
  anonymous: "sh_handlers s i = Some (j, Start) \<Longrightarrow> jb_user j = None \<Longrightarrow>
    conn_step i s (goto i (Some (j, UserReserved)) id s)"
| user_add: "sh_handlers s i = Some (j, Start) \<Longrightarrow> jb_user j = Some u \<Longrightarrow> \<not> locked s \<Longrightarrow>
    conn_step i s (goto i (Some (j, UserAdded)) (count_user u 1) s)"
| user_ok: "sh_handlers s i = Some (j, UserAdded) \<Longrightarrow> jb_user j = Some u \<Longrightarrow> \<not> over_user j u (sh_conns s) \<Longrightarrow>
    conn_step i s (goto i (Some (j, UserReserved)) id s)"
| user_over: "sh_handlers s i = Some (j, UserAdded) \<Longrightarrow> jb_user j = Some u \<Longrightarrow> over_user j u (sh_conns s) \<Longrightarrow>
    conn_step i s (goto i (Some (j, UserOver)) id s)"
| user_refuse: "sh_handlers s i = Some (j, UserOver) \<Longrightarrow> jb_user j = Some u \<Longrightarrow>
    conn_step i s (goto i None (count_user u (-1)) s)"
| add_global: "sh_handlers s i = Some (j, UserReserved) \<Longrightarrow>
    conn_step i s (goto i (Some (j, GlobalAdded)) (count_global 1) s)"
| admit: "sh_handlers s i = Some (j, GlobalAdded) \<Longrightarrow> \<not> over_global j (sh_conns s) \<Longrightarrow>
    conn_step i s (goto i (Some (j, Admitted)) id s)"
| refuse_global: "sh_handlers s i = Some (j, GlobalAdded) \<Longrightarrow> over_global j (sh_conns s) \<Longrightarrow>
    conn_step i s (goto i (Some (j, GlobalOver)) id s)"
| roll_global: "sh_handlers s i = Some (j, GlobalOver) \<Longrightarrow>
    conn_step i s (goto i (Some (j, RollUser)) (count_global (-1)) s)"
| roll_anonymous: "sh_handlers s i = Some (j, RollUser) \<Longrightarrow> jb_user j = None \<Longrightarrow>
    conn_step i s (goto i None id s)"
| roll_user: "sh_handlers s i = Some (j, RollUser) \<Longrightarrow> jb_user j = Some u \<Longrightarrow> \<not> locked s \<Longrightarrow>
    conn_step i s (goto i None (if u |\<in>| fmdom (cn_user (sh_conns s)) then count_user u (-1) else id) s)"
| leave_global: "sh_handlers s i = Some (j, Admitted) \<Longrightarrow>
    conn_step i s (goto i (Some (j, LeaveUser)) (count_global (-1)) s)"
| leave_nobody: "sh_handlers s i = Some (j, LeaveUser) \<Longrightarrow> jb_user j = None \<or> jb_user j = Some [] \<Longrightarrow>
    conn_step i s (goto i None id s)"
| leave_lookup: "sh_handlers s i = Some (j, LeaveUser) \<Longrightarrow> jb_user j = Some u \<Longrightarrow> u \<noteq> [] \<Longrightarrow> \<not> locked s \<Longrightarrow>
    conn_step i s (goto i (if u |\<in>| fmdom (cn_user (sh_conns s)) then Some (j, LeaveFound) else None) id s)"
| leave_user: "sh_handlers s i = Some (j, LeaveFound) \<Longrightarrow> jb_user j = Some u \<Longrightarrow>
    conn_step i s (goto i None (count_user u (-1)) s)"

definition conn_init :: Shared where
  "conn_init = \<lparr>sh_conns = \<lparr>cn_user = fmempty, cn_global = 0\<rparr>, sh_handlers = (\<lambda>_. None)\<rparr>"

text \<open>
  What interleaving reaches, the handlers bringing jobs that satisfy \<open>ok\<close>. At every moment
  fewer than \<open>2^31\<close> handlers are in progress; how many come in all is not bounded.
\<close>

inductive conn_reachable :: "(job \<Rightarrow> bool) \<Rightarrow> Shared \<Rightarrow> bool" for ok where
  init: "conn_reachable ok conn_init"
| arrive: "conn_reachable ok s \<Longrightarrow> ok j \<Longrightarrow> sh_handlers s i = None \<Longrightarrow>
    Suc (card (dom (sh_handlers s))) < 2 ^ 31 \<Longrightarrow> conn_reachable ok (goto i (Some (j, Start)) id s)"
| step: "conn_reachable ok s \<Longrightarrow> conn_step i s s' \<Longrightarrow> conn_reachable ok s'"

text \<open>The handlers that hold a slot of a user or of the global counter.\<close>

definition holds_user :: "string \<Rightarrow> job \<times> stage \<Rightarrow> bool" where
  "holds_user u h \<longleftrightarrow> jb_user (fst h) = Some u \<and> snd h \<noteq> Start"

definition past_user_cap :: "string \<Rightarrow> job \<times> stage \<Rightarrow> bool" where
  "past_user_cap u h \<longleftrightarrow> jb_user (fst h) = Some u \<and> snd h \<notin> {Start, UserAdded, UserOver}"

definition holds_global :: "job \<times> stage \<Rightarrow> bool" where
  "holds_global h \<longleftrightarrow> snd h \<in> {GlobalAdded, GlobalOver, Admitted}"

definition is_admitted :: "job \<times> stage \<Rightarrow> bool" where
  "is_admitted h \<longleftrightarrow> snd h = Admitted"

definition handlers_with :: "(job \<times> stage \<Rightarrow> bool) \<Rightarrow> Shared \<Rightarrow> nat set" where
  "handlers_with P s = {i. \<exists>h. sh_handlers s i = Some h \<and> P h}"

text \<open>How many steps a handler has at most before it.\<close>

fun rank :: "stage \<Rightarrow> nat" where
  "rank Start = 7"
| "rank UserAdded = 6"
| "rank UserOver = 1"
| "rank UserReserved = 5"
| "rank GlobalAdded = 4"
| "rank GlobalOver = 2"
| "rank RollUser = 1"
| "rank Admitted = 3"
| "rank LeaveUser = 2"
| "rank LeaveFound = 1"

section \<open>Lemmas\<close>

lemma goto_sel [simp]: "sh_conns (goto i h f s) = f (sh_conns s)" "sh_handlers (goto i h f s) = (sh_handlers s)(i := h)"
  by (simp_all add: goto_def)

lemma goto_goto: "goto i h' f' (goto i h f s) = goto i h' (f' \<circ> f) s"
  by (simp add: goto_def)

lemma count_sel [simp]: "cn_global (count_user u d c) = cn_global c"
  "userConnCount v (count_user u d c) = (if v = u then add32 (userConnCount u c) d else userConnCount v c)"
  "cn_global (count_global d c) = add32 (cn_global c) d" "userConnCount v (count_global d c) = userConnCount v c"
  "cn_user (count_global d c) = cn_user c"
  by (simp_all add: count_user_def count_global_def userConnCount_def)

lemma userConnCount_dom: "userConnCount u c \<noteq> 0 \<Longrightarrow> u |\<in>| fmdom (cn_user c)"
  by (auto simp: userConnCount_def split: option.splits intro: fmdomI)

definition slots :: "(job \<times> stage \<Rightarrow> bool) \<Rightarrow> (nat \<Rightarrow> (job \<times> stage) option) \<Rightarrow> int" where
  "slots P m = int (card {i. \<exists>h. m i = Some h \<and> P h})"

definition weight :: "(job \<times> stage \<Rightarrow> bool) \<Rightarrow> (job \<times> stage) option \<Rightarrow> int" where
  "weight P ho = (case ho of None \<Rightarrow> 0 | Some h \<Rightarrow> if P h then 1 else 0)"

lemma weight_simps [simp]: "weight P None = 0" "weight P (Some h) = (if P h then 1 else 0)"
  by (simp_all add: weight_def)

lemma slots_upd:
  assumes "finite (dom m)"
  shows "slots P (m(i := x)) = slots P m - weight P (m i) + weight P x"
proof -
  let ?A = "{j. \<exists>h. m j = Some h \<and> P h}"
  have fin: "finite ?A" by (rule finite_subset [OF _ assms]) auto
  have i: "i \<in> ?A \<longleftrightarrow> weight P (m i) = 1" "weight P (m i) = 0 \<or> weight P (m i) = 1"
    by (auto simp: weight_def split: option.splits)
  have x: "weight P x = (if \<exists>h. x = Some h \<and> P h then 1 else 0)" by (auto simp: weight_def split: option.splits)
  have "{j. \<exists>h'. (m(i := x)) j = Some h' \<and> P h'} = (if \<exists>h. x = Some h \<and> P h then insert i ?A else ?A - {i})" by auto
  moreover have "int (card (?A - {i})) = int (card ?A) - weight P (m i)"
  proof (cases "i \<in> ?A")
    case True
    then have "card (?A - {i}) = card ?A - 1" "0 < card ?A" using fin card_gt_0_iff by auto
    with i True show ?thesis by auto
  next
    case False
    then have "?A - {i} = ?A" by blast
    with i False show ?thesis by auto
  qed
  moreover have "card (insert i ?A) = Suc (card (?A - {i}))" using fin by (rule card.insert_remove)
  ultimately show ?thesis by (simp add: slots_def x)
qed

lemma slots_mono: "finite (dom m) \<Longrightarrow> (\<And>h. P h \<Longrightarrow> Q h) \<Longrightarrow> slots P m \<le> slots Q m"
proof -
  assume "finite (dom m)" "\<And>h. P h \<Longrightarrow> Q h"
  then have "{i. \<exists>h. m i = Some h \<and> P h} \<subseteq> {i. \<exists>h. m i = Some h \<and> Q h}"
    "finite {i. \<exists>h. m i = Some h \<and> Q h}" by (auto intro: finite_subset [of _ "dom m"])
  then show ?thesis by (simp add: slots_def card_mono)
qed

lemma slots_True: "slots (\<lambda>_. True) m = int (card (dom m))"
  by (simp add: slots_def dom_def)

lemma slots_bounds: "finite (dom m) \<Longrightarrow> 0 \<le> slots P m \<and> slots P m \<le> int (card (dom m))"
  using slots_mono [of m P "\<lambda>_. True"] by (simp add: slots_True slots_def)

lemma slots_pos: "finite (dom m) \<Longrightarrow> m i = Some h \<Longrightarrow> P h \<Longrightarrow> 0 < slots P m"
  using slots_upd [of m P i None] slots_bounds [of "m(i := None)" P] by (simp split: if_splits)

lemma handlers_with_slots: "int (card (handlers_with P s)) = slots P (sh_handlers s)"
  by (simp add: handlers_with_def slots_def)

lemma int32_id: "- (2 ^ 31) \<le> x \<Longrightarrow> x < 2 ^ 31 \<Longrightarrow> int32 x = x"
  by (simp add: int32_def signed_take_bit_int_eq_self)

lemma add32_slots:
  assumes "finite (dom m)" "card (dom m) < 2 ^ 31" "n + d = slots P m"
  shows "add32 n d = slots P m"
  using slots_bounds [OF assms(1), of P] assms(2) unfolding add32_def assms(3) by (intro int32_id) auto

text \<open>
  The invariant: a bounded number of handlers, all with jobs of the allowed kind, at most one of
  them holding the lock, and counters that are exactly the numbers of handlers that hold a slot.
\<close>

definition conn_inv :: "(job \<Rightarrow> bool) \<Rightarrow> Shared \<Rightarrow> bool" where
  "conn_inv ok s \<longleftrightarrow> finite (dom (sh_handlers s)) \<and> card (dom (sh_handlers s)) < 2 ^ 31
     \<and> (\<forall>h \<in> ran (sh_handlers s). ok (fst h)) \<and> slots holds_lock (sh_handlers s) \<le> 1
     \<and> cn_global (sh_conns s) = slots holds_global (sh_handlers s)
     \<and> (\<forall>u. u \<noteq> [] \<longrightarrow> userConnCount u (sh_conns s) = slots (holds_user u) (sh_handlers s))"


lemma conn_invD:
  assumes "conn_inv ok s"
  shows "finite (dom (sh_handlers s))" "card (dom (sh_handlers s)) < 2 ^ 31" "\<And>i h. sh_handlers s i = Some h \<Longrightarrow> ok (fst h)"
    "cn_global (sh_conns s) = slots holds_global (sh_handlers s)"
    "\<And>u. u \<noteq> [] \<Longrightarrow> userConnCount u (sh_conns s) = slots (holds_user u) (sh_handlers s)"
    "slots holds_lock (sh_handlers s) \<le> 1"
  using assms by (auto simp: conn_inv_def intro: ranI)

lemma unlocked_slots: "finite (dom (sh_handlers s)) \<Longrightarrow> \<not> locked s \<Longrightarrow> slots holds_lock (sh_handlers s) = 0"
  by (auto simp: locked_def slots_def ran_def card_eq_0_iff)

text \<open>
  A step of a handler keeps the invariant when the counters move with the slots the handler takes
  or gives back.
\<close>

lemma conn_inv_goto:
  fixes x :: "(job \<times> stage) option"
  assumes inv: "conn_inv ok s" and h: "sh_handlers s i = Some h"
    and ok: "\<And>h'. x = Some h' \<Longrightarrow> fst h' = fst h"
    and lock: "weight holds_lock x \<le> weight holds_lock (Some h) \<or> \<not> locked s"
    and g: "cn_global (f (sh_conns s)) \<in> {cn_global (sh_conns s) + d, add32 (cn_global (sh_conns s)) d}"
      "d = weight holds_global x - weight holds_global (Some h)"
    and u: "\<And>u. u \<noteq> [] \<Longrightarrow> userConnCount u (f (sh_conns s)) \<in> {userConnCount u (sh_conns s) + e u, add32 (userConnCount u (sh_conns s)) (e u)}"
      "\<And>u. u \<noteq> [] \<Longrightarrow> e u = weight (holds_user u) x - weight (holds_user u) (Some h)"
  shows "conn_inv ok (goto i x f s)"
proof -
  let ?m = "(sh_handlers s)(i := x)"
  note I = conn_invD [OF inv]
  have fin: "finite (dom ?m)" using I(1) by simp
  have "dom ?m \<subseteq> dom (sh_handlers s)" using h by auto
  then have card: "card (dom ?m) < 2 ^ 31" using card_mono [OF I(1)] I(2) by (meson le_less_trans)
  note sl = add32_slots [OF fin card]
  have "slots holds_lock ?m \<le> 1"
  proof (cases "locked s")
    case True then show ?thesis using lock I(6) h by (simp add: slots_upd [OF I(1)])
  next
    case False then show ?thesis using unlocked_slots [OF I(1)] by (auto simp: slots_upd [OF I(1)] weight_def split: option.splits)
  qed
  moreover have "cn_global (f (sh_conns s)) = slots holds_global ?m"
    using g I(4) h sl [of "cn_global (sh_conns s)" d holds_global] by (auto simp: slots_upd [OF I(1)])
  moreover have "userConnCount v (f (sh_conns s)) = slots (holds_user v) ?m" if "v \<noteq> []" for v
    using u [OF that] I(5) [OF that] h sl [of "userConnCount v (sh_conns s)" "e v" "holds_user v"]
    by (auto simp: slots_upd [OF I(1)])
  moreover have "ok (fst h')" if r: "h' \<in> ran ?m" for h'
  proof -
    obtain k where "?m k = Some h'" using r by (auto simp: ran_def)
    then show ?thesis using I(3) [OF h] I(3) [of k h'] ok by (cases "k = i") auto
  qed
  ultimately show ?thesis unfolding conn_inv_def goto_sel using fin card by blast
qed

lemmas slot_defs = holds_user_def holds_global_def holds_lock_def

lemma conn_step_inv:
  assumes "conn_step i s s'" "conn_inv ok s"
  shows "conn_inv ok s'"
  using assms(1)
proof (cases rule: conn_step.cases)
  case (roll_user j u)
  have "u |\<in>| fmdom (cn_user (sh_conns s))" if "u \<noteq> []"
    using slots_pos [of "sh_handlers s" i "(j, RollUser)" "holds_user u"] conn_invD(1,5) [OF assms(2)] roll_user(2,3) that
    by (intro userConnCount_dom) (simp add: slot_defs)
  then show ?thesis unfolding roll_user(1)
    by (intro conn_inv_goto [OF assms(2) roll_user(2), where e = "\<lambda>v. if v = u then -1 else 0" and d = 0])
      (use roll_user in \<open>auto simp: slot_defs\<close>)
next
  case (leave_lookup j u)
  have "u |\<in>| fmdom (cn_user (sh_conns s))"
    using slots_pos [of "sh_handlers s" i "(j, LeaveUser)" "holds_user u"] conn_invD(1,5) [OF assms(2)] leave_lookup(2-4)
    by (intro userConnCount_dom) (simp add: slot_defs)
  then show ?thesis unfolding leave_lookup(1)
    by (intro conn_inv_goto [OF assms(2) leave_lookup(2), where e = "\<lambda>v. 0" and d = 0])
      (use leave_lookup in \<open>auto simp: slot_defs\<close>)
next
  case (user_add j u)
  then show ?thesis unfolding user_add(1)
    by (intro conn_inv_goto [OF assms(2) user_add(2), where e = "\<lambda>v. if v = u then 1 else 0" and d = 0]) (auto simp: slot_defs)
next
  case (user_refuse j u)
  then show ?thesis unfolding user_refuse(1)
    by (intro conn_inv_goto [OF assms(2) user_refuse(2), where e = "\<lambda>v. if v = u then -1 else 0" and d = 0]) (auto simp: slot_defs)
next
  case (leave_user j u)
  then show ?thesis unfolding leave_user(1)
    by (intro conn_inv_goto [OF assms(2) leave_user(2), where e = "\<lambda>v. if v = u then -1 else 0" and d = 0]) (auto simp: slot_defs)
next
  case (add_global j)
  then show ?thesis unfolding add_global(1)
    by (intro conn_inv_goto [OF assms(2) add_global(2), where e = "\<lambda>v. 0" and d = 1]) (auto simp: slot_defs)
next
  case (roll_global j)
  then show ?thesis unfolding roll_global(1)
    by (intro conn_inv_goto [OF assms(2) roll_global(2), where e = "\<lambda>v. 0" and d = "-1"]) (auto simp: slot_defs)
next
  case (leave_global j)
  then show ?thesis unfolding leave_global(1)
    by (intro conn_inv_goto [OF assms(2) leave_global(2), where e = "\<lambda>v. 0" and d = "-1"]) (auto simp: slot_defs)
qed (auto intro!: conn_inv_goto [OF assms(2), where e = "\<lambda>v. 0" and d = 0] simp: slot_defs)

lemma conn_init_inv: "conn_inv ok conn_init"
  by (simp add: conn_inv_def conn_init_def slots_def userConnCount_def)

lemma conn_arrive_inv:
  assumes "conn_inv ok s" "ok j" "sh_handlers s i = None" "Suc (card (dom (sh_handlers s))) < 2 ^ 31"
  shows "conn_inv ok (goto i (Some (j, Start)) id s)"
proof -
  have "ran ((sh_handlers s)(i \<mapsto> (j, Start))) = insert (j, Start) (ran (sh_handlers s))"
    using assms(3) by (simp add: ran_map_upd)
  then show ?thesis using assms by (auto simp: conn_inv_def slots_upd slot_defs card_insert_if)
qed

lemma conn_reachable_inv: "conn_reachable ok s \<Longrightarrow> conn_inv ok s"
  by (induction rule: conn_reachable.induct) (simp_all add: conn_init_inv conn_arrive_inv conn_step_inv)

section \<open>Caps\<close>

lemma start_holds_nothing [simp]: "\<not> past_user_cap u (j, Start)" "\<not> is_admitted (j, Start)"
  by (simp_all add: past_user_cap_def is_admitted_def)

lemma slots_goto_le:
  assumes "finite (dom (sh_handlers s))" "sh_handlers s i = Some h" "weight P x \<le> weight P (Some h)"
  shows "slots P (sh_handlers (goto i x f s)) \<le> slots P (sh_handlers s)"
  using assms by (simp add: slots_upd)

lemma user_cap_step:
  assumes step: "conn_step i s s'" and inv: "conn_inv ok s" and u: "u \<noteq> []"
    and cap: "\<And>j. ok j \<Longrightarrow> jb_user j = Some u \<Longrightarrow> 0 < jb_cap j \<and> int32 (jb_cap j) \<le> k"
    and le: "slots (past_user_cap u) (sh_handlers s) \<le> max 0 k"
  shows "slots (past_user_cap u) (sh_handlers s') \<le> max 0 k"
proof (cases "\<exists>j. sh_handlers s i = Some (j, UserAdded) \<and> jb_user j = Some u \<and> \<not> over_user j u (sh_conns s)")
  case True
  then obtain j where j: "sh_handlers s i = Some (j, UserAdded)" "jb_user j = Some u" "\<not> over_user j u (sh_conns s)"
    by blast
  have "0 < jb_cap j \<and> int32 (jb_cap j) \<le> k" using conn_invD(3) [OF inv j(1)] j(2) cap by simp
  with j(3) have "userConnCount u (sh_conns s) \<le> k" by (simp add: over_user_def)
  moreover have "s' = goto i (Some (j, UserReserved)) id s"
    using step j by (cases rule: conn_step.cases) auto
  then have "slots (holds_user u) (sh_handlers s') = slots (holds_user u) (sh_handlers s)"
    using j conn_invD(1) [OF inv] by (simp add: slots_upd slot_defs)
  moreover have "finite (dom (sh_handlers s'))" using conn_step_inv [OF step inv] by (rule conn_invD)
  then have "slots (past_user_cap u) (sh_handlers s') \<le> slots (holds_user u) (sh_handlers s')"
    by (rule slots_mono) (auto simp: past_user_cap_def holds_user_def)
  ultimately show ?thesis using conn_invD(5) [OF inv u] by simp
next
  case False
  have "slots (past_user_cap u) (sh_handlers s') \<le> slots (past_user_cap u) (sh_handlers s)"
    using step by (cases rule: conn_step.cases)
      (use False in \<open>auto intro!: slots_goto_le [OF conn_invD(1) [OF inv]] simp: past_user_cap_def simp del: goto_sel\<close>)
  with le show ?thesis by simp
qed

lemma global_cap_step:
  assumes step: "conn_step i s s'" and inv: "conn_inv ok s" and cap: "\<And>j. ok j \<Longrightarrow> 0 < jb_gmax j \<and> jb_gmax j \<le> k"
    and le: "slots is_admitted (sh_handlers s) \<le> max 0 k"
  shows "slots is_admitted (sh_handlers s') \<le> max 0 k"
proof (cases "\<exists>j. sh_handlers s i = Some (j, GlobalAdded) \<and> \<not> over_global j (sh_conns s)")
  case True
  then obtain j where j: "sh_handlers s i = Some (j, GlobalAdded)" "\<not> over_global j (sh_conns s)" by blast
  have "0 < jb_gmax j \<and> jb_gmax j \<le> k" using conn_invD(3) [OF inv j(1)] cap by simp
  with j(2) have "cn_global (sh_conns s) \<le> k" by (simp add: over_global_def)
  moreover have "s' = goto i (Some (j, Admitted)) id s"
    using step j by (cases rule: conn_step.cases) auto
  then have "slots holds_global (sh_handlers s') = slots holds_global (sh_handlers s)"
    using j conn_invD(1) [OF inv] by (simp add: slots_upd slot_defs)
  moreover have "finite (dom (sh_handlers s'))" using conn_step_inv [OF step inv] by (rule conn_invD)
  then have "slots is_admitted (sh_handlers s') \<le> slots holds_global (sh_handlers s')"
    by (rule slots_mono) (auto simp: is_admitted_def holds_global_def)
  ultimately show ?thesis using conn_invD(4) [OF inv] by simp
next
  case False
  have "slots is_admitted (sh_handlers s') \<le> slots is_admitted (sh_handlers s)"
    using step by (cases rule: conn_step.cases)
      (use False in \<open>auto intro!: slots_goto_le [OF conn_invD(1) [OF inv]] simp: is_admitted_def simp del: goto_sel\<close>)
  with le show ?thesis by simp
qed

lemma user_cap_reachable:
  assumes "conn_reachable ok s" "u \<noteq> []" "\<And>j. ok j \<Longrightarrow> jb_user j = Some u \<Longrightarrow> 0 < jb_cap j \<and> int32 (jb_cap j) \<le> k"
  shows "slots (past_user_cap u) (sh_handlers s) \<le> max 0 k"
  using assms(1)
proof (induction rule: conn_reachable.induct)
  case init
  show ?case by (simp add: conn_init_def slots_def)
next
  case (arrive s j i)
  have fin: "finite (dom (sh_handlers s))" using conn_reachable_inv [OF arrive(1)] by (rule conn_invD)
  show ?case unfolding goto_sel slots_upd [OF fin] using arrive(3,5) by simp
next
  case (step s i s')
  then show ?case using user_cap_step [OF _ conn_reachable_inv assms(2,3)] by blast
qed

lemma global_cap_reachable:
  assumes "conn_reachable ok s" "\<And>j. ok j \<Longrightarrow> 0 < jb_gmax j \<and> jb_gmax j \<le> k"
  shows "slots is_admitted (sh_handlers s) \<le> max 0 k"
  using assms(1)
proof (induction rule: conn_reachable.induct)
  case init
  show ?case by (simp add: conn_init_def slots_def)
next
  case (arrive s j i)
  have fin: "finite (dom (sh_handlers s))" using conn_reachable_inv [OF arrive(1)] by (rule conn_invD)
  show ?case unfolding goto_sel slots_upd [OF fin] using arrive(3,5) by simp
next
  case (step s i s')
  then show ?case using global_cap_step [OF _ conn_reachable_inv assms(2)] by blast
qed

section \<open>Steps come to an end\<close>

definition pending :: "Shared \<Rightarrow> nat" where
  "pending s = (\<Sum>i \<in> dom (sh_handlers s). rank (snd (the (sh_handlers s i))))"

lemma pending_goto:
  assumes "finite (dom (sh_handlers s))" "sh_handlers s i = Some h"
    "(case x of None \<Rightarrow> 0 | Some h' \<Rightarrow> rank (snd h')) < rank (snd h)"
  shows "pending (goto i x f s) < pending s"
proof -
  let ?D = "dom (sh_handlers s) - {i}" and ?r = "\<lambda>m k. rank (snd (the (m k)))"
  let ?m = "(sh_handlers s)(i := x)"
  have "pending s = rank (snd h) + (\<Sum>k \<in> ?D. ?r (sh_handlers s) k)"
    unfolding pending_def using assms(1,2) by (simp add: sum.remove [of _ i] domI)
  moreover have "(\<Sum>k \<in> ?D. ?r ?m k) = (\<Sum>k \<in> ?D. ?r (sh_handlers s) k)" by (rule sum.cong) auto
  moreover have "pending (goto i x f s) = (case x of None \<Rightarrow> 0 | Some h' \<Rightarrow> rank (snd h')) + (\<Sum>k \<in> ?D. ?r ?m k)"
  proof (cases x)
    case None
    then show ?thesis by (simp add: pending_def)
  next
    case (Some h')
    have "dom ?m = insert i ?D" using Some by auto
    then show ?thesis using assms(1) Some by (simp add: pending_def sum.insert [of ?D i] del: dom_fun_upd insert_Diff_single)
  qed
  ultimately show ?thesis using assms(3) by simp
qed

lemma conn_step_pending:
  assumes "conn_step i s s'" "finite (dom (sh_handlers s))"
  shows "pending s' < pending s \<and> finite (dom (sh_handlers s'))"
  using assms(1) by (cases rule: conn_step.cases) (auto intro!: pending_goto [OF assms(2)] simp: assms(2))

text \<open>Only the handler of a user comes to the stages that count for one.\<close>

definition staged :: "Shared \<Rightarrow> bool" where
  "staged s \<longleftrightarrow> (\<forall>i j g. sh_handlers s i = Some (j, g) \<longrightarrow> g \<in> {UserAdded, UserOver, LeaveFound} \<longrightarrow> jb_user j \<noteq> None)"

lemma conn_step_staged: "conn_step i s s' \<Longrightarrow> staged s \<Longrightarrow> staged s'"
  by (cases rule: conn_step.cases) (auto simp: staged_def split: if_splits)

lemma conn_reachable_staged: "conn_reachable ok s \<Longrightarrow> staged s"
  by (induction rule: conn_reachable.induct) (auto simp: conn_step_staged, auto simp: staged_def conn_init_def)

text \<open>No step can block for good: whoever holds the lock can go on, and if nobody does, everybody can.\<close>

lemma conn_step_exists:
  assumes "staged s" "sh_handlers s i = Some (j, g)" "g \<in> {UserAdded, UserOver} \<or> \<not> locked s"
  shows "\<exists>s'. conn_step i s s'"
proof -
  have "jb_user j \<noteq> None" if "g \<in> {UserAdded, UserOver, LeaveFound}" using assms(1,2) that unfolding staged_def by blast
  then show ?thesis using assms(2,3)
    by (cases g; cases "jb_user j"; cases "over_user j (the (jb_user j)) (sh_conns s)";
        cases "over_global j (sh_conns s)"; cases "jb_user j = Some []")
      (auto intro: conn_step.intros)
qed

lemma conn_progress:
  assumes "staged s" "sh_handlers s i = Some h"
  shows "\<exists>k s'. conn_step k s s'"
proof (cases "locked s")
  case True
  then obtain k j g where "sh_handlers s k = Some (j, g)" "g \<in> {UserAdded, UserOver}"
    by (auto simp: locked_def holds_lock_def ran_def)
  with conn_step_exists [OF assms(1) this(1)] show ?thesis by blast
next
  case False
  with conn_step_exists [OF assms(1)] assms(2) show ?thesis by (cases h) blast
qed

section \<open>The functions implement the steps\<close>

lemma unlocked_goto: "\<not> locked s \<Longrightarrow> (\<And>h. x = Some h \<Longrightarrow> \<not> holds_lock h) \<Longrightarrow> \<not> locked (goto i x f s)"
  by (auto simp: locked_def ran_def split: if_splits)

text \<open>What a handler does next is determined: its uninterrupted run is the only one.\<close>

lemma conn_step_det: "conn_step i s s1 \<Longrightarrow> conn_step i s s2 \<Longrightarrow> s1 = s2"
  by (elim conn_step.cases) simp_all

text \<open>The global half of an admission, from a slot of the user.\<close>

lemma global_run:
  assumes "sh_handlers s i = Some (j, UserReserved)"
  shows "(conn_step i)\<^sup>*\<^sup>* s (if over_global j (count_global 1 (sh_conns s))
     then goto i (Some (j, RollUser)) (count_global (-1) \<circ> count_global 1) s
     else goto i (Some (j, Admitted)) (count_global 1) s)"
proof -
  let ?s1 = "goto i (Some (j, GlobalAdded)) (count_global 1) s"
  have a: "conn_step i s ?s1" using assms by (rule conn_step.add_global)
  show ?thesis
  proof (cases "over_global j (count_global 1 (sh_conns s))")
    case True
    then have "conn_step i ?s1 (goto i (Some (j, GlobalOver)) (count_global 1) s)"
      using conn_step.refuse_global [of ?s1 i j] by (simp add: goto_goto)
    moreover have "conn_step i (goto i (Some (j, GlobalOver)) (count_global 1) s)
        (goto i (Some (j, RollUser)) (count_global (-1) \<circ> count_global 1) s)"
      using conn_step.roll_global [of "goto i (Some (j, GlobalOver)) (count_global 1) s" i j] by (simp add: goto_goto)
    ultimately show ?thesis using a True by (simp add: converse_rtranclp_into_rtranclp)
  next
    case False
    then have "conn_step i ?s1 (goto i (Some (j, Admitted)) (count_global 1) s)"
      using conn_step.admit [of ?s1 i j] by (simp add: goto_goto)
    then show ?thesis using a False by (simp add: converse_rtranclp_into_rtranclp)
  qed
qed

text \<open>The user's half: over the cap the handler is gone with its slot given back.\<close>

lemma user_run:
  assumes "sh_handlers s i = Some (j, Start)" "jb_user j = Some u" "\<not> locked s"
  shows "(conn_step i)\<^sup>*\<^sup>* s (if over_user j u (count_user u 1 (sh_conns s))
     then goto i None (count_user u (-1) \<circ> count_user u 1) s
     else goto i (Some (j, UserReserved)) (count_user u 1) s)"
proof -
  let ?s1 = "goto i (Some (j, UserAdded)) (count_user u 1) s"
  have a: "conn_step i s ?s1" using assms by (rule conn_step.user_add)
  show ?thesis
  proof (cases "over_user j u (count_user u 1 (sh_conns s))")
    case True
    then have "conn_step i ?s1 (goto i (Some (j, UserOver)) (count_user u 1) s)"
      using conn_step.user_over [of ?s1 i j u] assms(2) by (simp add: goto_goto)
    moreover have "conn_step i (goto i (Some (j, UserOver)) (count_user u 1) s)
        (goto i None (count_user u (-1) \<circ> count_user u 1) s)"
      using conn_step.user_refuse [of "goto i (Some (j, UserOver)) (count_user u 1) s" i j u] assms(2) by (simp add: goto_goto)
    ultimately show ?thesis using a True by (simp add: converse_rtranclp_into_rtranclp)
  next
    case False
    then have "conn_step i ?s1 (goto i (Some (j, UserReserved)) (count_user u 1) s)"
      using conn_step.user_ok [of ?s1 i j u] assms(2) by (simp add: goto_goto)
    then show ?thesis using a False by (simp add: converse_rtranclp_into_rtranclp)
  qed
qed

lemma count_dom [simp]: "u |\<in>| fmdom (cn_user (count_user u d c))"
  by (simp add: count_user_def)

lemma roll_run:
  assumes "sh_handlers s i = Some (j, RollUser)" "\<not> locked s"
    "\<And>u. jb_user j = Some u \<Longrightarrow> u |\<in>| fmdom (cn_user (sh_conns s))"
  shows "conn_step i s (goto i None (case jb_user j of None \<Rightarrow> id | Some u \<Rightarrow> count_user u (-1)) s)"
  using assms conn_step.roll_anonymous [OF assms(1)] conn_step.roll_user [OF assms(1) _ assms(2)]
  by (cases "jb_user j") auto

text \<open>The function, in terms of the counting of the steps.\<close>

lemma tryEnterConn_counts:
  "tryEnterConn user px c =
     (let j = job_of user px;
          c1 = (case user of None \<Rightarrow> c | Some u \<Rightarrow> count_user (u_ID u) 1 c);
          c2 = count_global 1 c1
      in if \<exists>u. jb_user j = Some u \<and> over_user j u c1
         then ((429, ''per-user concurrent connection limit reached''),
               count_user (the (jb_user j)) (-1) c1)
         else if over_global j c2
         then ((503, ''global concurrent connection limit reached''),
               (case jb_user j of None \<Rightarrow> id | Some u \<Rightarrow> count_user u (-1)) (count_global (-1) c2))
         else ((0, []), c2))"
  by (cases user) (simp_all add: tryEnterConn_def job_of_def over_user_def over_global_def count_user_def count_global_def
      userConnCount_def Let_def)

lemma exit_run:
  assumes "sh_handlers s i = Some (j, Admitted)" "\<not> locked s"
  shows "(conn_step i)\<^sup>*\<^sup>* s (goto i None (exitConn (case jb_user j of None \<Rightarrow> [] | Some u \<Rightarrow> u)) s)"
proof -
  let ?c = "count_global (-1) (sh_conns s)" and ?s1 = "goto i (Some (j, LeaveUser)) (count_global (-1)) s"
  have a: "conn_step i s ?s1" using assms(1) by (rule conn_step.leave_global)
  have free: "\<not> locked ?s1" using assms(2) by (rule unlocked_goto) (auto simp: holds_lock_def)
  have h: "sh_handlers ?s1 i = Some (j, LeaveUser)" by simp
  show ?thesis
  proof (cases "jb_user j = None \<or> jb_user j = Some []")
    case True
    then have "exitConn (case jb_user j of None \<Rightarrow> [] | Some u \<Rightarrow> u) (sh_conns s) = ?c"
      by (auto simp: exitConn_def count_global_def)
    then have "goto i None id ?s1 = goto i None (exitConn (case jb_user j of None \<Rightarrow> [] | Some u \<Rightarrow> u)) s" by (simp add: goto_def)
    then show ?thesis using a conn_step.leave_nobody [OF h True] by (simp add: converse_rtranclp_into_rtranclp)
  next
    case False
    then obtain u where u: "jb_user j = Some u" "u \<noteq> []" by auto
    note b = conn_step.leave_lookup [OF h u free]
    show ?thesis
    proof (cases "u |\<in>| fmdom (cn_user (sh_conns s))")
      case True
      then have "exitConn u (sh_conns s) = count_user u (-1) ?c"
        using u by (auto simp: exitConn_def count_global_def count_user_def userConnCount_def fmlookup_dom_iff)
      moreover have "conn_step i (goto i (Some (j, LeaveFound)) (count_global (-1)) s)
          (goto i None (count_user u (-1) \<circ> count_global (-1)) s)"
        using conn_step.leave_user [of "goto i (Some (j, LeaveFound)) (count_global (-1)) s" i j u] u by (simp add: goto_goto)
      ultimately have "conn_step i (goto i (Some (j, LeaveFound)) (count_global (-1)) s) (goto i None (exitConn u) s)"
        by (simp add: goto_def)
      then show ?thesis using a b True u by (simp add: goto_goto converse_rtranclp_into_rtranclp)
    next
      case False
      then have "exitConn u (sh_conns s) = ?c"
        using u by (auto simp: exitConn_def count_global_def fmdom_notD)
      then have "goto i None id ?s1 = goto i None (exitConn u) s" by (simp add: goto_def)
      then show ?thesis using a b False u by (simp add: converse_rtranclp_into_rtranclp)
    qed
  qed
qed

lemma enter_run:
  assumes free: "\<not> locked s" and start: "sh_handlers s i = Some (job_of user px, Start)"
    and ret: "tryEnterConn user px (sh_conns s) = ((st, msg), c')"
  shows "(conn_step i)\<^sup>*\<^sup>* s (goto i (if st = 0 then Some (job_of user px, Admitted) else None) (\<lambda>_. c') s)"
proof -
  let ?j = "job_of user px"
  define f where "f = (case user of None \<Rightarrow> id | Some u \<Rightarrow> count_user (u_ID u) 1)"
  define r where "r = (case jb_user ?j of None \<Rightarrow> id | Some u \<Rightarrow> count_user u (-1))"
  let ?s1 = "goto i (Some (?j, UserReserved)) f s"
  let ?s2 = "goto i (Some (?j, RollUser)) (count_global (-1) \<circ> count_global 1) ?s1"
  have c1: "(case user of None \<Rightarrow> c | Some u \<Rightarrow> count_user (u_ID u) 1 c) = f c" for c by (simp add: f_def split: option.splits)
  have ju: "jb_user ?j = map_option u_ID user" by (simp add: job_of_def)
  note T = ret [unfolded tryEnterConn_counts Let_def c1 r_def [symmetric]]
  show ?thesis
  proof (cases "\<exists>u. jb_user ?j = Some u \<and> over_user ?j u (f (sh_conns s))")
    case True
    then obtain u where u: "user = Some u" "f = count_user (u_ID u) 1" "over_user ?j (u_ID u) (f (sh_conns s))"
      by (auto simp: ju f_def)
    with T True ju have c': "st = 429" "c' = count_user (u_ID u) (-1) (f (sh_conns s))" by auto
    have "(conn_step i)\<^sup>*\<^sup>* s (goto i None (count_user (u_ID u) (-1) \<circ> count_user (u_ID u) 1) s)"
      using user_run [OF start _ free, of "u_ID u"] u ju by simp
    with c' u(2) show ?thesis by (simp add: goto_def)
  next
    case False
    have s1: "(conn_step i)\<^sup>*\<^sup>* s ?s1"
    proof (cases user)
      case None
      then show ?thesis using conn_step.anonymous [OF start] ju by (simp add: f_def)
    next
      case (Some u)
      then show ?thesis using user_run [OF start _ free, of "u_ID u"] False ju by (simp add: f_def)
    qed
    have g: "(conn_step i)\<^sup>*\<^sup>* ?s1 (if over_global ?j (count_global 1 (f (sh_conns s))) then ?s2
        else goto i (Some (?j, Admitted)) (count_global 1) ?s1)"
      using global_run [of ?s1 i ?j] by (simp cong: if_cong)
    show ?thesis
    proof (cases "over_global ?j (count_global 1 (f (sh_conns s)))")
      case True
      have "\<not> locked ?s2" by (rule unlocked_goto, rule unlocked_goto) (auto simp: free holds_lock_def)
      moreover have "u |\<in>| fmdom (cn_user (sh_conns ?s2))" if "jb_user ?j = Some u" for u
        using that by (auto simp: f_def ju)
      ultimately have "conn_step i ?s2 (goto i None r ?s2)" unfolding r_def by (intro roll_run) simp_all
      moreover have "st = 503" "c' = r (count_global (-1) (count_global 1 (f (sh_conns s))))" using T False True by auto
      ultimately show ?thesis using s1 g True by (simp add: goto_def)
    next
      case no: False
      have "st = 0" "c' = count_global 1 (f (sh_conns s))" using T False no by auto
      then show ?thesis using s1 g no by (simp add: goto_def)
    qed
  qed
qed

text \<open>Counters are \<open>int32\<close> values; adding one and subtracting it again gives the value back, wrapped or not.\<close>

definition conns32 :: "Conns \<Rightarrow> bool" where
  "conns32 c \<longleftrightarrow> int32 (cn_global c) = cn_global c \<and> (\<forall>u. int32 (userConnCount u c) = userConnCount u c)"

lemma add32_back: "int32 n = n \<Longrightarrow> add32 (add32 n 1) (-1) = n"
proof -
  have "int32 (int32 (n + 1) + -1) = int32 n"
    using signed_take_bit_add [of 31 "n + 1" "-1"] by (simp add: int32_def)
  then show "int32 n = n \<Longrightarrow> ?thesis" by (simp add: add32_def)
qed

lemma conn_run_reachable: "(conn_step i)\<^sup>*\<^sup>* s s' \<Longrightarrow> conn_reachable ok s \<Longrightarrow> conn_reachable ok s'"
  by (induction rule: rtranclp_induct) (auto intro: conn_reachable.step)

lemma conn_steps_reachable: "(\<lambda>a b. \<exists>i. conn_step i a b)\<^sup>*\<^sup>* s s' \<Longrightarrow> conn_reachable ok s \<Longrightarrow> conn_reachable ok s'"
  by (induction rule: rtranclp_induct) (auto intro: conn_reachable.step)

lemma conn_steps_pending:
  assumes "finite (dom (sh_handlers s))" "((\<lambda>a b. \<exists>i. conn_step i a b) ^^ n) s s'"
  shows "n + pending s' \<le> pending s \<and> finite (dom (sh_handlers s'))"
  using assms(2)
proof (induction n arbitrary: s')
  case (Suc n)
  then obtain a i where "((\<lambda>a b. \<exists>i. conn_step i a b) ^^ n) s a" "conn_step i a s'" by auto
  with Suc.IH [of a] conn_step_pending [of i a s'] show ?case by force
qed (simp add: assms(1))

lemma pending_le: "finite (dom (sh_handlers s)) \<Longrightarrow> pending s \<le> 7 * card (dom (sh_handlers s))"
proof -
  have "rank g \<le> 7" for g by (cases g) simp_all
  then have "pending s \<le> (\<Sum>i \<in> dom (sh_handlers s). 7)" unfolding pending_def by (intro sum_mono) simp
  then show ?thesis by simp
qed

section \<open>Properties of the connection counters\<close>

text \<open>
  C17: the caps hold under concurrency. Take any interleaving of the atomic steps of handlers, of
  which fewer than \<open>2^31\<close> are in progress at any moment, each with the caps that were configured
  when it came. The global counter is exactly the number of handlers that hold a global slot, the
  counter of every user with a non-empty identifier is exactly the number of handlers that hold a
  slot of that user; when every handler of such a user comes with a positive cap that is, as an
  \<open>int32\<close>, at most \<open>k\<close>, at most \<open>k\<close> handlers of the user are past that check;
  and when every handler comes with a positive global cap of at most \<open>k\<close>, at most \<open>k\<close>
  connections are admitted.
\<close>

theorem conn_caps_hold:
  assumes "conn_reachable ok s"
  shows "cn_global (sh_conns s) = int (card (handlers_with holds_global s))
    \<and> (\<forall>u. u \<noteq> [] \<longrightarrow> userConnCount u (sh_conns s) = int (card (handlers_with (holds_user u) s)))
    \<and> (\<forall>u k. u \<noteq> [] \<and> (\<forall>j. ok j \<and> jb_user j = Some u \<longrightarrow> 0 < jb_cap j \<and> int32 (jb_cap j) \<le> k)
         \<longrightarrow> int (card (handlers_with (past_user_cap u) s)) \<le> max 0 k)
    \<and> (\<forall>k. (\<forall>j. ok j \<longrightarrow> 0 < jb_gmax j \<and> jb_gmax j \<le> k) \<longrightarrow> int (card (handlers_with is_admitted s)) \<le> max 0 k)"
  using conn_invD(4,5) [OF conn_reachable_inv [OF assms]] user_cap_reachable [OF assms] global_cap_reachable [OF assms]
  unfolding handlers_with_slots by blast

text \<open>One connection of a user with a cap of one.\<close>

theorem conn_caps_hold_witness:
  "let j = \<lparr>jb_user = Some ''u'', jb_cap = 1, jb_gmax = 5\<rparr>;
       s = \<lparr>sh_conns = \<lparr>cn_user = fmupd ''u'' 1 fmempty, cn_global = 1\<rparr>, sh_handlers = [0 \<mapsto> (j, Admitted)]\<rparr>
   in userConnCount ''u'' (sh_conns s) = int (card (handlers_with (holds_user ''u'') s))
     \<and> int (card (handlers_with (past_user_cap ''u'') s)) \<le> 1 \<and> int (card (handlers_with is_admitted s)) \<le> 5"
proof -
  let ?j = "\<lparr>jb_user = Some ''u'', jb_cap = 1, jb_gmax = 5\<rparr>"
  let ?s0 = "goto 0 (Some (?j, Start)) id conn_init"
  let ?s1 = "goto 0 (Some (?j, UserReserved)) (count_user ''u'' 1) ?s0"
  let ?s2 = "goto 0 (Some (?j, Admitted)) (count_global 1) ?s1"
  let ?t = "\<lparr>sh_conns = \<lparr>cn_user = fmupd ''u'' 1 fmempty, cn_global = 1\<rparr>, sh_handlers = [0 \<mapsto> (?j, Admitted)]\<rparr>"
  have n: "add32 0 1 = 1" "int32 1 = 1" by (simp_all add: add32_def int32_id)
  have init: "sh_handlers conn_init = Map.empty" "cn_global (sh_conns conn_init) = 0" "userConnCount u (sh_conns conn_init) = 0" for u
    by (simp_all add: conn_init_def userConnCount_def)
  have "conn_reachable (\<lambda>j. j = ?j) ?s0"
    by (rule conn_reachable.arrive [OF conn_reachable.init]) (simp_all add: conn_init_def)
  moreover have "(conn_step 0)\<^sup>*\<^sup>* ?s0 ?s1"
    using user_run [of ?s0 0 ?j "''u''"] n by (simp add: locked_def holds_lock_def init over_user_def)
  moreover have "(conn_step 0)\<^sup>*\<^sup>* ?s1 ?s2"
    using global_run [of ?s1 0 ?j] n by (simp add: over_global_def init)
  ultimately have r: "conn_reachable (\<lambda>j. j = ?j) ?s2" by (blast intro: conn_run_reachable)
  have e: "?s2 = ?t" using n by (simp add: goto_def conn_init_def count_user_def count_global_def userConnCount_def)
  have "conn_reachable (\<lambda>j. j = ?j) ?t" using r by (simp only: e)
  note R = conn_caps_hold [OF this]
  have "userConnCount ''u'' (sh_conns ?t) = int (card (handlers_with (holds_user ''u'') ?t))" using R by blast
  moreover have "int (card (handlers_with (past_user_cap ''u'') ?t)) \<le> max 0 1"
    using R by (elim conjE allE [where x = "''u''"] allE [where x = 1]) (simp add: n)
  moreover have "int (card (handlers_with is_admitted ?t)) \<le> max 0 5"
    using R by (elim conjE allE [where x = 5]) simp
  ultimately show ?thesis by (simp add: Let_def)
qed

text \<open>
  C18: the functions implement the steps of one handler. Whatever the counters and the caps are,
  when nobody holds the lock, the steps a handler makes from its start, uninterrupted by others, lead
  to the counters \<open>tryEnterConn\<close> returns, with the handler admitted when the status is 0 and
  gone otherwise; and the steps it makes from its admission lead to the counters \<open>exitConn\<close>
  returns, with the handler gone. (A handler has at most one step at a time, so this run is the only one.)
\<close>

theorem tryEnterConn_refines:
  assumes "\<not> locked s"
  shows "(sh_handlers s i = Some (job_of user px, Start) \<and> tryEnterConn user px (sh_conns s) = ((st, msg), c')
       \<longrightarrow> (conn_step i)\<^sup>*\<^sup>* s (goto i (if st = 0 then Some (job_of user px, Admitted) else None) (\<lambda>_. c') s))
    \<and> (sh_handlers s i = Some (job_of user px, Admitted)
       \<longrightarrow> (conn_step i)\<^sup>*\<^sup>* s (goto i None (exitConn (case user of None \<Rightarrow> [] | Some u \<Rightarrow> u_ID u)) s))"
proof -
  have "(case jb_user (job_of user px) of None \<Rightarrow> [] | Some u \<Rightarrow> u) = (case user of None \<Rightarrow> [] | Some u \<Rightarrow> u_ID u)"
    by (simp add: job_of_def split: option.splits)
  with enter_run [OF assms] exit_run [OF _ assms] show ?thesis by metis
qed

theorem tryEnterConn_refines_witness:
  "let px = \<lparr>px_Enabled = True, px_ListenAddr = [], px_AdminListenAddr = [], px_RequireAuth = False, px_AllowHTTP = True,
        px_AllowHTTPS = True, px_ConnectTimeoutSec = 0, px_ReadTimeoutSec = 0, px_DefaultMaxConns = 0, px_MaxGlobalConns = 2\<rparr>;
       j = \<lparr>jb_user = None, jb_cap = 0, jb_gmax = 2\<rparr>;
       s = \<lparr>sh_conns = \<lparr>cn_user = fmempty, cn_global = 1\<rparr>, sh_handlers = [7 \<mapsto> (j, Start)]\<rparr>
   in (conn_step 7)\<^sup>*\<^sup>* s \<lparr>sh_conns = \<lparr>cn_user = fmempty, cn_global = 2\<rparr>, sh_handlers = [7 \<mapsto> (j, Admitted)]\<rparr>"
proof -
  let ?px = "\<lparr>px_Enabled = True, px_ListenAddr = [], px_AdminListenAddr = [], px_RequireAuth = False, px_AllowHTTP = True,
        px_AllowHTTPS = True, px_ConnectTimeoutSec = 0, px_ReadTimeoutSec = 0, px_DefaultMaxConns = 0, px_MaxGlobalConns = 2\<rparr>"
  let ?j = "\<lparr>jb_user = None, jb_cap = 0, jb_gmax = 2\<rparr>"
  let ?s = "\<lparr>sh_conns = \<lparr>cn_user = fmempty, cn_global = 1\<rparr>, sh_handlers = [7 \<mapsto> (?j, Start)]\<rparr>"
  have j: "job_of None ?px = ?j" by (simp add: job_of_def)
  have n: "add32 1 1 = 2" by (simp add: add32_def int32_id)
  have "\<not> locked ?s" by (simp add: locked_def holds_lock_def)
  moreover have "tryEnterConn None ?px (sh_conns ?s) = ((0, []), \<lparr>cn_user = fmempty, cn_global = 2\<rparr>)"
    by (simp add: tryEnterConn_def n)
  ultimately show ?thesis
    using tryEnterConn_refines [of ?s 7 None ?px 0 "[]" "\<lparr>cn_user = fmempty, cn_global = 2\<rparr>"]
    by (simp add: j Let_def goto_def)
qed

text \<open>
  C30: connections drain and leave nothing behind. Without new arrivals the handlers in progress make at
  most seven counter steps each, whatever the interleaving; and where no step is left every
  handler is gone, the global counter is zero and so is the counter of every user with a non-empty
  identifier. No interleaving deadlocks on the lock or leaks a slot. (What a handler does between its
  admission and its exit is taken to end.)
\<close>

theorem conn_drains:
  assumes "conn_reachable ok s"
  shows "(\<forall>n s'. ((\<lambda>a b. \<exists>i. conn_step i a b) ^^ n) s s' \<longrightarrow> n \<le> 7 * card (dom (sh_handlers s)))
    \<and> (\<forall>s'. (\<lambda>a b. \<exists>i. conn_step i a b)\<^sup>*\<^sup>* s s' \<and> (\<nexists>i t. conn_step i s' t)
        \<longrightarrow> sh_handlers s' = Map.empty \<and> cn_global (sh_conns s') = 0
            \<and> (\<forall>u. u \<noteq> [] \<longrightarrow> userConnCount u (sh_conns s') = 0))"
proof (intro conjI allI impI)
  have fin: "finite (dom (sh_handlers s))" using conn_reachable_inv [OF assms] by (rule conn_invD)
  show "n \<le> 7 * card (dom (sh_handlers s))" if "((\<lambda>a b. \<exists>i. conn_step i a b) ^^ n) s s'" for n s'
    using conn_steps_pending [OF fin that] pending_le [OF fin] by simp
next
  fix s' assume s': "(\<lambda>a b. \<exists>i. conn_step i a b)\<^sup>*\<^sup>* s s' \<and> (\<nexists>i t. conn_step i s' t)"
  then have r: "conn_reachable ok s'" using conn_steps_reachable [OF _ assms] by blast
  then show e: "sh_handlers s' = Map.empty" using conn_progress [OF conn_reachable_staged] s' by (meson not_Some_eq ext)
  note I = conn_invD(4,5) [OF conn_reachable_inv [OF r], unfolded e]
  show "cn_global (sh_conns s') = 0" using I(1) by (simp add: slots_def)
  show "userConnCount u (sh_conns s') = 0" if "u \<noteq> []" for u using I(2) [OF that] by (simp add: slots_def)
qed

theorem conn_drains_witness:
  "let j = \<lparr>jb_user = None, jb_cap = 0, jb_gmax = 2\<rparr>; s = goto 0 (Some (j, Start)) id conn_init
   in conn_step 0 s (goto 0 (Some (j, UserReserved)) id conn_init)
     \<and> (\<forall>n s'. ((\<lambda>a b. \<exists>i. conn_step i a b) ^^ n) s s' \<longrightarrow> n \<le> 7)"
proof -
  let ?j = "\<lparr>jb_user = None, jb_cap = 0, jb_gmax = 2\<rparr>"
  let ?s = "goto 0 (Some (?j, Start)) id conn_init"
  have "conn_reachable (\<lambda>j. True) ?s"
    by (rule conn_reachable.arrive [OF conn_reachable.init]) (simp_all add: conn_init_def)
  from conn_drains [OF this] have "\<forall>n s'. ((\<lambda>a b. \<exists>i. conn_step i a b) ^^ n) ?s s' \<longrightarrow> n \<le> 7"
    by (simp add: conn_init_def)
  moreover have "conn_step 0 ?s (goto 0 (Some (?j, UserReserved)) id conn_init)"
    using conn_step.anonymous [of ?s 0 ?j] by (simp add: goto_goto)
  ultimately show ?thesis by (simp add: Let_def)
qed

text \<open>
  A user is refused for its own cap only when it is full: at that moment at least as many other
  handlers of the user are past the check as the cap allows. The lock makes the difference to the
  global cap below.
\<close>

lemma refused_only_when_full:
  assumes "conn_reachable ok s" "conn_step i s s'" "sh_handlers s' i = Some (j, UserOver)" "jb_user j = Some u" "u \<noteq> []"
  shows "0 < jb_cap j \<and> int32 (jb_cap j) \<le> int (card (handlers_with (past_user_cap u) s))"
proof -
  note I = conn_invD [OF conn_reachable_inv [OF assms(1)]]
  have j: "sh_handlers s i = Some (j, UserAdded)" "over_user j u (sh_conns s)"
    using assms(2) by (cases rule: conn_step.cases; use assms(3,4) in \<open>force split: if_splits\<close>)+
  let ?m = "(sh_handlers s)(i := None)"
  have fin: "finite (dom ?m)" using I(1) by simp
  have lk: "slots holds_lock ?m = 0" using I(6) j(1) slots_bounds [OF fin, of holds_lock] by (simp add: slots_upd [OF I(1)] holds_lock_def)
  have "\<not> holds_lock h" if "sh_handlers s k = Some h" "k \<noteq> i" for k h
    using slots_pos [OF fin, of k h holds_lock] that unfolding lk by auto
  then have "{k. \<exists>h. ?m k = Some h \<and> holds_user u h} \<subseteq> {k. \<exists>h. ?m k = Some h \<and> past_user_cap u h}"
    by (force simp: holds_lock_def holds_user_def past_user_cap_def split: if_splits)
  then have "slots (holds_user u) ?m \<le> slots (past_user_cap u) ?m"
    unfolding slots_def by (intro zle_int [THEN iffD2] card_mono) (auto intro: finite_subset [OF _ fin])
  moreover have "slots (holds_user u) ?m = userConnCount u (sh_conns s) - 1"
    using I(5) [OF assms(5)] j(1) assms(4) by (simp add: slots_upd [OF I(1)] holds_user_def)
  moreover have "slots (past_user_cap u) ?m = slots (past_user_cap u) (sh_handlers s)"
    using j(1) by (simp add: slots_upd [OF I(1)] past_user_cap_def)
  ultimately show ?thesis using j(2) unfolding handlers_with_slots over_user_def by simp
qed

text \<open>
  An admission is undone by the exit: after a successful \<open>tryEnterConn\<close>,
  \<open>exitConn\<close> brings every counter back to what it was, unless the identifier of the user is
  empty. Then the user's counter stays one up.
\<close>

lemma refused_restores:
  assumes "conns32 c" "tryEnterConn user px c = ((st, msg), c')" "st \<noteq> 0"
  shows "ActiveConns v c' = ActiveConns v c"
  using assms unfolding tryEnterConn_counts Let_def
  by (cases user) (auto simp: ActiveConns_def conns32_def add32_back job_of_def split: if_splits)

lemma admitted_counts:
  assumes "tryEnterConn user px c = ((0, msg), c')"
  shows "c' = count_global 1 (case user of None \<Rightarrow> c | Some u \<Rightarrow> count_user (u_ID u) 1 c)"
  using assms unfolding tryEnterConn_counts Let_def by (auto split: if_splits)

lemma exitConn_counts:
  "ActiveConns v (exitConn uid c) = (add32 (cn_global c) (-1),
     if uid \<noteq> [] \<and> v = uid \<and> uid |\<in>| fmdom (cn_user c) then add32 (userConnCount uid c) (-1) else userConnCount v c)"
proof (cases "fmlookup (cn_user c) uid")
  case None
  then have "uid |\<notin>| fmdom (cn_user c)" by (rule fmdom_notI)
  with None show ?thesis by (simp add: ActiveConns_def exitConn_def userConnCount_def Let_def)
next
  case (Some n)
  then have "uid |\<in>| fmdom (cn_user c)" by (rule fmdomI)
  with Some show ?thesis by (simp add: ActiveConns_def exitConn_def userConnCount_def Let_def)
qed

lemma enter_exit:
  assumes "conns32 c" "tryEnterConn user px c = ((0, msg), c')"
  shows "ActiveConns v (exitConn (case user of None \<Rightarrow> [] | Some u \<Rightarrow> u_ID u) c') =
    (if v = [] \<and> (\<exists>u. user = Some u \<and> u_ID u = []) then (cn_global c, add32 (userConnCount [] c) 1) else ActiveConns v c)"
  using assms(1) unfolding admitted_counts [OF assms(2)] exitConn_counts
  by (cases user) (auto simp: ActiveConns_def conns32_def add32_back)

text \<open>
  The finding: a connection of a user with an empty identifier, which a configuration file may hold,
  leaves the counter of that identifier one up, so that a capped user of that kind is shut out for good.
\<close>

theorem empty_id_leaks:
  "let px = \<lparr>px_Enabled = True, px_ListenAddr = [], px_AdminListenAddr = [], px_RequireAuth = True, px_AllowHTTP = True,
        px_AllowHTTPS = True, px_ConnectTimeoutSec = 0, px_ReadTimeoutSec = 0, px_DefaultMaxConns = 1, px_MaxGlobalConns = 0\<rparr>;
       u = \<lparr>u_ID = [], u_Username = ''a'', u_PasswordHash = [], u_Enabled = True, u_Role = ''user'', u_WhitelistOnly = False,
        u_Whitelist = [], u_Blacklist = [], u_MaxConns = 0, u_DailyTrafficMB = 0, u_CreatedAt = [], u_LastUsedAt = [],
        u_Stats = \<lparr>st_Requests = 0, st_BytesIn = 0, st_BytesOut = 0, st_LastRequestAt = []\<rparr>, u_TokenEpoch = 0\<rparr>;
       c0 = \<lparr>cn_user = fmempty, cn_global = 0\<rparr>; c1 = exitConn [] (snd (tryEnterConn (Some u) px c0))
   in fst (tryEnterConn (Some u) px c0) = (0, []) \<and> ActiveConns [] c1 = (0, 1) \<and> fst (fst (tryEnterConn (Some u) px c1)) = 429"
  by (simp add: tryEnterConn_def exitConn_def ActiveConns_def userConnCount_def user_cap_def add32_def int32_id)

text \<open>
  The global counter is not checked under the lock of its increment: with a global cap of
  one and no connection open, two handlers that arrive together can both be refused.
\<close>

theorem simultaneous_arrivals_both_refused:
  "let j = \<lparr>jb_user = None, jb_cap = 0, jb_gmax = 1\<rparr>
   in \<exists>s. conn_reachable (\<lambda>k. k = j) s \<and> sh_handlers s = [0 \<mapsto> (j, GlobalOver), 2 \<mapsto> (j, GlobalOver)]"
proof -
  let ?j = "\<lparr>jb_user = None, jb_cap = 0, jb_gmax = 1\<rparr>"
  let ?R = "conn_reachable (\<lambda>k. k = ?j)"
  let ?s = "\<lambda>n g h. \<lparr>sh_conns = \<lparr>cn_user = fmempty, cn_global = n\<rparr>, sh_handlers = [0 \<mapsto> (?j, g), 2 \<mapsto> (?j, h)]\<rparr>"
  have g0: "goto 0 (Some (?j, g')) id (?s n g h) = ?s n g' h" "goto 0 (Some (?j, g')) (count_global 1) (?s n g h) = ?s (add32 n 1) g' h"
    and g1: "goto 2 (Some (?j, g')) id (?s n g h) = ?s n g g'" "goto 2 (Some (?j, g')) (count_global 1) (?s n g h) = ?s (add32 n 1) g g'"
    for g' n g h by (auto simp: goto_def count_global_def)
  note step = conn_reachable.step
  have n: "add32 0 1 = 1" "add32 1 1 = 2" by (simp_all add: add32_def int32_id)
  have a: "?R (goto 0 (Some (?j, Start)) id conn_init)"
    by (rule conn_reachable.arrive [OF conn_reachable.init]) (simp_all add: conn_init_def)
  have "?R (goto 2 (Some (?j, Start)) id (goto 0 (Some (?j, Start)) id conn_init))"
    by (rule conn_reachable.arrive [OF a]) (simp_all add: conn_init_def)
  then have "?R (?s 0 Start Start)" by (simp add: goto_def conn_init_def)
  from step [OF this conn_step.anonymous [of _ 0 ?j]] have "?R (?s 0 UserReserved Start)" by (simp add: g0)
  from step [OF this conn_step.anonymous [of _ 2 ?j]] have "?R (?s 0 UserReserved UserReserved)" by (simp add: g1)
  from step [OF this conn_step.add_global [of _ 0 ?j]] have "?R (?s 1 GlobalAdded UserReserved)" by (simp add: g0 n)
  from step [OF this conn_step.add_global [of _ 2 ?j]] have "?R (?s 2 GlobalAdded GlobalAdded)" by (simp add: g1 n)
  from step [OF this conn_step.refuse_global [of _ 0 ?j]] have "?R (?s 2 GlobalOver GlobalAdded)" by (simp add: g0 over_global_def)
  from step [OF this conn_step.refuse_global [of _ 2 ?j]] have "?R (?s 2 GlobalOver GlobalOver)" by (simp add: g1 over_global_def)
  then show ?thesis unfolding Let_def by (intro exI conjI, assumption) simp
qed

end
