(* ===== verification/Traffic.thy ===== *)
theory Traffic
  imports Config_Json Go_Time
begin

text \<open>
  Traffic accounting of \<^verbatim>\<open>proxy.go\<close>: the live counters per user, the daily counters, and the
  part of \<open>FlushStats\<close> that moves live counters into the configuration. All byte and request
  counters are 64-bit words and wrap around.
\<close>

section \<open>Live counters\<close>

record liveStats =
  lv_requests :: "(string, uint64) gomap"
  lv_bytesIn :: "(string, uint64) gomap"
  lv_bytesOut :: "(string, uint64) gomap"
  lv_lastUsed :: "(string, time) gomap"

definition newLiveStats :: liveStats where
  "newLiveStats = \<lparr>lv_requests = fmempty, lv_bytesIn = fmempty, lv_bytesOut = fmempty, lv_lastUsed = fmempty\<rparr>"

definition live_add :: "time \<Rightarrow> string \<Rightarrow> uint64 \<Rightarrow> uint64 \<Rightarrow> liveStats \<Rightarrow> liveStats" where
  "live_add now uid inb outb l =
     (if uid = [] then l
      else l\<lparr>lv_requests := fm_add uid 1 (lv_requests l), lv_bytesIn := fm_add uid inb (lv_bytesIn l),
             lv_bytesOut := fm_add uid outb (lv_bytesOut l), lv_lastUsed := fmupd uid now (lv_lastUsed l)\<rparr>)"

definition fm_get :: "(string, uint64) gomap \<Rightarrow> string \<Rightarrow> uint64" where
  "fm_get m k = (case fmlookup m k of None \<Rightarrow> 0 | Some v \<Rightarrow> v)"

definition MergedStats :: "liveStats \<Rightarrow> User \<Rightarrow> UserStats" where
  "MergedStats l u =
     (let s0 = u_Stats u;
          s1 = (case fmlookup (lv_requests l) (u_ID u) of None \<Rightarrow> s0
                | Some r \<Rightarrow> s0\<lparr>st_Requests := st_Requests s0 + r\<rparr>);
          s2 = (case fmlookup (lv_bytesIn l) (u_ID u) of None \<Rightarrow> s1
                | Some b \<Rightarrow> s1\<lparr>st_BytesIn := st_BytesIn s1 + b\<rparr>)
      in case fmlookup (lv_bytesOut l) (u_ID u) of None \<Rightarrow> s2
         | Some b \<Rightarrow> s2\<lparr>st_BytesOut := st_BytesOut s2 + b\<rparr>)"

text \<open>One user in the update function of \<open>FlushStats\<close>, and the function itself.\<close>

definition flush_user :: "liveStats \<Rightarrow> User \<Rightarrow> User" where
  "flush_user l u =
     (let u1 = (case fmlookup (lv_requests l) (u_ID u) of None \<Rightarrow> u
                | Some d \<Rightarrow> u\<lparr>u_Stats := (u_Stats u)\<lparr>st_Requests := st_Requests (u_Stats u) + d\<rparr>\<rparr>);
          u2 = (case fmlookup (lv_bytesIn l) (u_ID u) of None \<Rightarrow> u1
                | Some d \<Rightarrow> u1\<lparr>u_Stats := (u_Stats u1)\<lparr>st_BytesIn := st_BytesIn (u_Stats u1) + d\<rparr>\<rparr>);
          u3 = (case fmlookup (lv_bytesOut l) (u_ID u) of None \<Rightarrow> u2
                | Some d \<Rightarrow> u2\<lparr>u_Stats := (u_Stats u2)\<lparr>st_BytesOut := st_BytesOut (u_Stats u2) + d\<rparr>\<rparr>)
      in case fmlookup (lv_lastUsed l) (u_ID u) of None \<Rightarrow> u3
         | Some t \<Rightarrow> u3\<lparr>u_LastUsedAt := FormatRFC3339 t\<rparr>)"

definition flush_fn :: "liveStats \<Rightarrow> Config \<Rightarrow> error + Config" where
  "flush_fn l c = Inr (c\<lparr>c_Users := map (flush_user l) (c_Users c)\<rparr>)"

section \<open>Daily counters\<close>

record dailyTraffic =
  dt_date :: string
  dt_bytes :: uint64

type_synonym daily = "(string, dailyTraffic) gomap"

definition todayUTC :: "time \<Rightarrow> string" where
  "todayUTC now = FormatDate now"

definition dailyBytes :: "time \<Rightarrow> string \<Rightarrow> daily \<Rightarrow> uint64" where
  "dailyBytes now uid m =
     (case fmlookup m uid of None \<Rightarrow> 0
      | Some d \<Rightarrow> if dt_date d \<noteq> todayUTC now then 0 else dt_bytes d)"

definition addDaily :: "time \<Rightarrow> string \<Rightarrow> uint64 \<Rightarrow> daily \<Rightarrow> daily" where
  "addDaily now uid bytes m =
     (if uid = [] then m
      else
        let today = todayUTC now;
            d = (case fmlookup m uid of None \<Rightarrow> \<lparr>dt_date = today, dt_bytes = 0\<rparr>
                 | Some d \<Rightarrow> if dt_date d \<noteq> today then \<lparr>dt_date = today, dt_bytes = 0\<rparr> else d)
        in fmupd uid (d\<lparr>dt_bytes := dt_bytes d + bytes\<rparr>) m)"

definition resetDaily :: "string \<Rightarrow> daily \<Rightarrow> daily" where
  "resetDaily uid m = fmdrop uid m"

definition prune_daily :: "time \<Rightarrow> daily \<Rightarrow> daily" where
  "prune_daily now m = fmdelete_if (\<lambda>d. dt_date d \<noteq> todayUTC now) m"

section \<open>Lemmas\<close>

lemma MergedStats_get:
  "MergedStats l u = (u_Stats u)\<lparr>st_Requests := st_Requests (u_Stats u) + fm_get (lv_requests l) (u_ID u),
     st_BytesIn := st_BytesIn (u_Stats u) + fm_get (lv_bytesIn l) (u_ID u),
     st_BytesOut := st_BytesOut (u_Stats u) + fm_get (lv_bytesOut l) (u_ID u)\<rparr>"
  by (auto simp: MergedStats_def fm_get_def Let_def split: option.splits)

lemma flush_user_sel [simp]: "u_ID (flush_user l u) = u_ID u" "u_Username (flush_user l u) = u_Username u"
  "u_Role (flush_user l u) = u_Role u" "u_Enabled (flush_user l u) = u_Enabled u"
  "u_PasswordHash (flush_user l u) = u_PasswordHash u" "u_TokenEpoch (flush_user l u) = u_TokenEpoch u"
  "u_Stats (flush_user l u) = MergedStats l u"
  by (auto simp: flush_user_def MergedStats_def Let_def split: option.splits)

lemma fm_get_add: "fm_get (fm_add k d m) j = (if j = k then fm_get m k + d else fm_get m j)"
  by (auto simp: fm_get_def fm_add_def)

lemma dailyBytes_addDaily:
  "uid \<noteq> [] \<Longrightarrow> dailyBytes now v (addDaily now uid b m) =
     (if v = uid then dailyBytes now uid m + b else dailyBytes now v m)"
  by (auto simp: dailyBytes_def addDaily_def Let_def split: option.splits)

text \<open>Bytes are only counted for users with a request, so counters without requests are all zero.\<close>

definition live_ok :: "liveStats \<Rightarrow> bool" where
  "live_ok l \<longleftrightarrow> fmdom' (lv_bytesIn l) \<subseteq> fmdom' (lv_requests l) \<and> fmdom' (lv_bytesOut l) \<subseteq> fmdom' (lv_requests l)"

lemma live_ok_newLiveStats [simp]: "live_ok newLiveStats"
  by (simp add: live_ok_def newLiveStats_def)

lemma live_ok_add [simp]: "live_ok l \<Longrightarrow> live_ok (live_add now uid i b l)"
  by (auto simp: live_ok_def live_add_def fm_add_def)

lemma live_ok_empty:
  assumes "live_ok l" "lv_requests l = fmempty"
  shows "MergedStats l u = MergedStats newLiveStats u"
proof -
  have "fmdom' (lv_bytesIn l) = {}" "fmdom' (lv_bytesOut l) = {}" using assms by (simp_all add: live_ok_def)
  then have "fmlookup (lv_bytesIn l) (u_ID u) = None" "fmlookup (lv_bytesOut l) (u_ID u) = None"
    by (simp_all add: fmdom'_notD)
  with assms(2) show ?thesis by (simp add: MergedStats_def newLiveStats_def)
qed

section \<open>Properties of the accounting\<close>

text \<open>
  Recording a transfer raises the totals shown for its user by one request and by its bytes and
  changes no other user's.
\<close>

lemma MergedStats_live_add:
  "uid \<noteq> [] \<Longrightarrow> MergedStats (live_add now uid i b l) u =
      (if u_ID u = uid
       then (MergedStats l u)\<lparr>st_Requests := st_Requests (MergedStats l u) + 1,
              st_BytesIn := st_BytesIn (MergedStats l u) + i, st_BytesOut := st_BytesOut (MergedStats l u) + b\<rparr>
       else MergedStats l u)"
  by (auto simp: MergedStats_get live_add_def fm_get_add)

text \<open>
  The daily counter of a user sums what was added on the present UTC day, starts from
  zero on a new day, is cleared by a reset, and does not notice the pruning of old days.
\<close>

theorem daily_counter:
  assumes "uid \<noteq> []" "\<forall>(t, b) \<in> set adds. todayUTC t = todayUTC now"
  shows "dailyBytes now uid (foldl (\<lambda>m (t, b). addDaily t uid b m) m adds) =
      dailyBytes now uid m + sum_list (map snd adds)
    \<and> (todayUTC later \<noteq> todayUTC now \<and> adds \<noteq> [] \<longrightarrow>
        dailyBytes later uid (foldl (\<lambda>m (t, b). addDaily t uid b m) m adds) = 0)
    \<and> dailyBytes now uid (resetDaily uid m) = 0 \<and> dailyBytes now uid (prune_daily now m) = dailyBytes now uid m"
proof -
  have eq: "addDaily t uid b m = addDaily now uid b m" "dailyBytes t v m = dailyBytes now v m"
    if "todayUTC t = todayUTC now" for t b m v
    unfolding addDaily_def dailyBytes_def that by (rule refl)+
  have "dailyBytes now uid (foldl (\<lambda>m (t, b). addDaily t uid b m) m adds) = dailyBytes now uid m + sum_list (map snd adds)"
    using assms(2)
  proof (induction adds arbitrary: m)
    case (Cons a adds)
    obtain t b where a: "a = (t, b)" by (cases a)
    then have "todayUTC t = todayUTC now" using Cons.prems by simp
    then have "addDaily t uid b m = addDaily now uid b m" by (rule eq(1))
    moreover have "\<forall>(t, b) \<in> set adds. todayUTC t = todayUTC now" using Cons.prems by simp
    ultimately show ?case using Cons.IH [of "addDaily now uid b m"] assms(1) by (simp add: a dailyBytes_addDaily add.assoc)
  qed simp
  moreover have "dailyBytes later uid (foldl (\<lambda>m (t, b). addDaily t uid b m) m adds) = 0"
    if "todayUTC later \<noteq> todayUTC now" "adds \<noteq> []"
  proof -
    obtain as t b where as: "adds = as @ [(t, b)]" using \<open>adds \<noteq> []\<close> by (cases adds rule: rev_cases) auto
    then have "todayUTC t = todayUTC now" using assms(2) by auto
    with that(1) show ?thesis
      using assms(1) by (auto simp: as dailyBytes_def addDaily_def Let_def split: option.splits)
  qed
  ultimately show ?thesis
    by (auto simp: dailyBytes_def resetDaily_def prune_daily_def fmdelete_if_def split: option.splits)
qed

theorem daily_counter_witness:
  "dailyBytes 9 ''u1'' (foldl (\<lambda>m (t, b). addDaily t ''u1'' b m) fmempty [(5, 100), (8, 20)]) = 120"
proof -
  have "todayUTC 5 = todayUTC 9" "todayUTC 8 = todayUTC 9"
    by (simp_all add: todayUTC_def FormatDate_def unix_def second_def)
  then show ?thesis
    using daily_counter [of "''u1''" "[(5, 100), (8, 20)]" 9 fmempty 9] by (simp add: dailyBytes_def)
qed

end
