(* ===== verification/Audit_Trail.thy ===== *)
theory Audit_Trail
  imports LogStore
begin

text \<open>
  \<^verbatim>\<open>audit.go\<close>: the append-only audit trail, a JSON-lines file that is cut to its newer half at
  50 MiB and read back from its last MiB. There is no write buffer; otherwise files and failures
  are modelled as in the activity log, whose record of failures is used here too.
\<close>

section \<open>The trail\<close>

record AuditEntry =
  ae_Time :: string
  ae_Action :: string
  ae_Who :: string
  ae_Detail :: string

record AuditLog =
  au_open :: bool
  au_disk :: "string option"
  au_size :: int
  au_warned :: bool

definition enc_audit :: "AuditEntry \<Rightarrow> json" where
  "enc_audit e = JObj [(''time'', JStr (ae_Time e)), (''action'', JStr (ae_Action e)),
     (''who'', JStr (ae_Who e)), (''detail'', JStr (ae_Detail e))]"

definition zero_audit :: AuditEntry where
  "zero_audit = \<lparr>ae_Time = [], ae_Action = [], ae_Who = [], ae_Detail = []\<rparr>"

definition dec_audit :: "(string \<times> json) list \<Rightarrow> AuditEntry \<Rightarrow> AuditEntry option" where
  "dec_audit ms x = do {
     a \<leftarrow> dec_field ''time'' dec_string ms (ae_Time x);
     b \<leftarrow> dec_field ''action'' dec_string ms (ae_Action x);
     c \<leftarrow> dec_field ''who'' dec_string ms (ae_Who x);
     d \<leftarrow> dec_field ''detail'' dec_string ms (ae_Detail x);
     Some \<lparr>ae_Time = a, ae_Action = b, ae_Who = c, ae_Detail = d\<rparr>}"

definition auditMaxBytes :: int where "auditMaxBytes = 50 * 2 ^ 20"

definition audit_content :: "AuditLog \<Rightarrow> string" where
  "audit_content a = (case au_disk a of None \<Rightarrow> [] | Some c \<Rightarrow> c)"

definition audit_open :: "LogIO \<Rightarrow> AuditLog \<Rightarrow> AuditLog" where
  "audit_open io a =
     (if lio_open_fails io then a
      else let a1 = a\<lparr>au_open := True, au_disk := Some (audit_content a)\<rparr>
           in if lio_stat_fails io then a1 else a1\<lparr>au_size := int (length (audit_content a))\<rparr>)"

definition NewAuditLog :: "LogIO \<Rightarrow> string option \<Rightarrow> AuditLog" where
  "NewAuditLog io disk = audit_open io \<lparr>au_open = False, au_disk = disk, au_size = 0, au_warned = False\<rparr>"

definition audit_rotate :: "LogIO \<Rightarrow> AuditLog \<Rightarrow> AuditLog" where
  "audit_rotate io a =
     (let a1 = a\<lparr>au_open := False, au_size := 0\<rparr>;
          c = audit_content a1;
          a2 = (if lio_rot_read_fails io \<or> c = [] \<or> lio_rot_write_fails io then a1
                else a1\<lparr>au_disk := Some (ioReadAll io (drop (length c div 2) c))\<rparr>)
      in audit_open io a2)"

definition audit_line :: "AuditEntry \<Rightarrow> string" where
  "audit_line e = Marshal (enc_audit e)"

definition Record :: "LogIO \<Rightarrow> time \<Rightarrow> string \<Rightarrow> string \<Rightarrow> string \<Rightarrow> AuditLog \<Rightarrow> AuditLog" where
  "Record io now action who detail a =
     (let line = audit_line \<lparr>ae_Time = FormatRFC3339 now, ae_Action = action, ae_Who = who, ae_Detail = detail\<rparr>
      in if \<not> au_open a then a
         else
           let a1 = (if au_size a + int (length line) > auditMaxBytes then audit_rotate io a else a)
           in if \<not> au_open a1 then a1
              else if lio_write_fails io then a1\<lparr>au_warned := True\<rparr>
              else a1\<lparr>au_disk := Some (audit_content a1 @ line @ [newline]), au_warned := False,
                      au_size := au_size a1 + int (length line + 1)\<rparr>)"

section \<open>Reading it\<close>

definition audit_maxRead :: nat where "audit_maxRead = 2 ^ 20"

fun audit_loop :: "int \<Rightarrow> string list \<Rightarrow> AuditEntry list \<Rightarrow> AuditEntry list" where
  "audit_loop limit [] out = out"
| "audit_loop limit (l # ls) out =
     (if int (length out) < limit
      then (let line = TrimSpace l in
            if line = [] then audit_loop limit ls out
            else (case Unmarshal (dec_struct dec_audit) line zero_audit of
                    None \<Rightarrow> audit_loop limit ls out
                  | Some e \<Rightarrow> audit_loop limit ls (out @ [e])))
      else out)"

definition audit_limit :: "int \<Rightarrow> int" where
  "audit_limit k = (if k \<le> 0 \<or> k > 5000 then 500 else k)"

definition audit_Recent :: "LogIO \<Rightarrow> int \<Rightarrow> AuditLog \<Rightarrow> AuditEntry list" where
  "audit_Recent io limit a =
     (let c = audit_content a; off = length c - audit_maxRead;
          lines0 = SplitByte (drop off c) newline;
          lines = (if off > 0 \<and> lines0 \<noteq> [] \<and> c ! (off - 1) \<noteq> newline then tl lines0 else lines0)
      in if \<not> au_open a \<or> lio_read_fails io \<or> c = [] then []
         else audit_loop (audit_limit limit) (rev lines) [])"

section \<open>Lemmas\<close>

lemma json_string_no_newline: "newline \<notin> set (Marshal (enc_audit e))"
proof -
  have k: "newline \<noteq> CHR ''{''" "newline \<noteq> CHR ''}''" "newline \<noteq> CHR '',''" "newline \<noteq> CHR '':''"
    by (simp_all add: newline_neq)
  show ?thesis using jstring_no_newline k by (simp add: Marshal_def enc_audit_def)
qed

lemma TrimSpace_ends:
  assumes "\<not> is_space c" "\<not> is_space d"
  shows "TrimSpace (c # s @ [d]) = c # s @ [d]"
  using assms by (simp add: TrimSpace_def)

lemma audit_line_shape: "\<exists>s. audit_line e = CHR ''{'' # s @ [CHR ''}'']"
  by (simp add: audit_line_def Marshal_def enc_audit_def)

lemma audit_tags: "ToLower ''action'' = ''action''" "ToLower ''who'' = ''who''" "ToLower ''detail'' = ''detail''"
  by code_simp+

lemma audit_line_reads: "TrimSpace (audit_line e) = audit_line e" "audit_line e \<noteq> []"
  "Unmarshal (dec_struct dec_audit) (audit_line e) zero_audit = Some e"
proof -
  obtain s where s: "audit_line e = CHR ''{'' # s @ [CHR ''}'']" using audit_line_shape by blast
  show "TrimSpace (audit_line e) = audit_line e" unfolding s by (rule TrimSpace_ends) (simp_all add: is_space_def)
  show "audit_line e \<noteq> []" by (simp add: s)
  have "json_ok (enc_audit e)" by (rule json_okI) (simp_all add: enc_audit_def)
  then show "Unmarshal (dec_struct dec_audit) (audit_line e) zero_audit = Some e"
    by (simp add: audit_line_def Unmarshal_Marshal enc_audit_def dec_audit_def tag_simps entry_tags audit_tags)
qed

lemma audit_loop_lines:
  "int (length out) \<le> n \<Longrightarrow> audit_loop n (map audit_line es) out = out @ take (nat n - length out) es"
proof (induction es arbitrary: out)
  case (Cons e es)
  show ?case
  proof (cases "int (length out) < n")
    case True
    then have "nat n - length out = Suc (nat n - Suc (length out))" by linarith
    with Cons True show ?thesis by (simp add: audit_line_reads Let_def)
  next
    case False
    then show ?thesis using Cons.prems by simp
  qed
qed simp

lemma SplitByte_text: "\<forall>l \<in> set ls. newline \<notin> set l \<Longrightarrow> SplitByte (text_of ls) newline = ls @ [[]]"
proof (induction ls)
  case (Cons l ls)
  have "text_of (l # ls) = l @ newline # text_of ls" by (simp add: text_of_def)
  with Cons show ?case by (simp add: SplitByte_append)
qed (simp add: text_of_def)

definition audit_ok :: "AuditLog \<Rightarrow> bool" where
  "audit_ok a \<longleftrightarrow> au_open a \<and> au_size a = int (length (audit_content a))"

lemma audit_rotate_ok:
  assumes "no_failures io"
  shows "audit_ok (audit_rotate io a)"
    "audit_content (audit_rotate io a) = drop (length (audit_content a) div 2) (audit_content a)"
  using assms
  by (auto simp: ioReadAll_def audit_ok_def audit_rotate_def audit_open_def no_failures_def audit_content_def Let_def split: option.splits)

section \<open>Properties of the audit trail\<close>

text \<open>
  The trail is append-only. While no file operation fails, recording an action appends
  exactly its line to what the file held, or, when that would exceed 50 MiB, to the newer half of
  it; the recorded size stays the size of the file.
\<close>

theorem audit_appends:
  assumes "no_failures io" "audit_ok a"
    "line = audit_line \<lparr>ae_Time = FormatRFC3339 now, ae_Action = action, ae_Who = who, ae_Detail = detail\<rparr>"
  shows "audit_ok (Record io now action who detail a)
    \<and> audit_content (Record io now action who detail a) =
      (if int (length (audit_content a)) + int (length line) > auditMaxBytes
       then drop (length (audit_content a) div 2) (audit_content a) else audit_content a) @ line @ [newline]"
proof -
  define a1 where "a1 = (if au_size a + int (length line) > auditMaxBytes then audit_rotate io a else a)"
  have a1: "audit_ok a1" using assms(1,2) audit_rotate_ok(1) by (simp add: a1_def)
  then have op: "au_open a" "au_open a1" "\<not> lio_write_fails io"
    using assms(1,2) by (auto simp: audit_ok_def no_failures_def)
  have "Record io now action who detail a = a1\<lparr>au_disk := Some (audit_content a1 @ line @ [newline]), au_warned := False,
      au_size := au_size a1 + int (length line + 1)\<rparr>"
    unfolding Record_def Let_def assms(3) [symmetric] a1_def [symmetric] using op by simp
  then show ?thesis
    using a1 assms(2) audit_rotate_ok(2) [OF assms(1), of a]
    by (auto simp: audit_ok_def audit_content_def a1_def)
qed

theorem audit_appends_witness:
  "let io = \<lparr>lio_open_fails = False, lio_stat_fails = False, lio_write_fails = False, lio_rot_read_fails = False,
         lio_rot_write_fails = False, lio_read_fails = False, lio_rot_got = None\<rparr>
   in audit_ok (Record io 0 ''logs.clear'' ''admin'' [] (NewAuditLog io None))"
  using audit_appends [of "\<lparr>lio_open_fails = False, lio_stat_fails = False, lio_write_fails = False,
      lio_rot_read_fails = False, lio_rot_write_fails = False, lio_read_fails = False, lio_rot_got = None\<rparr>"
      "NewAuditLog \<lparr>lio_open_fails = False, lio_stat_fails = False, lio_write_fails = False,
      lio_rot_read_fails = False, lio_rot_write_fails = False, lio_read_fails = False, lio_rot_got = None\<rparr> None" _ 0 "''logs.clear''" "''admin''" "[]"]
  by (simp add: no_failures_def audit_ok_def NewAuditLog_def audit_open_def audit_content_def)

text \<open>
  The trail reads back what was recorded: over a file of audit lines of at most one MiB,
  a query returns the newest entries, newest first, as many as the limit admits.
\<close>

theorem audit_reads_back:
  assumes "au_open a" "\<not> lio_read_fails io" "audit_content a = text_of (map audit_line es)"
    "length (text_of (map audit_line es)) \<le> audit_maxRead"
  shows "audit_Recent io k a = take (nat (audit_limit k)) (rev es)"
proof (cases "es = []")
  case True
  then show ?thesis using assms by (simp add: audit_Recent_def text_of_def Let_def)
next
  case False
  have nl: "\<forall>l \<in> set (map audit_line es). newline \<notin> set l" using json_string_no_newline by (auto simp: audit_line_def)
  have sp: "SplitByte (text_of (map audit_line es)) newline = map audit_line es @ [[]]" by (rule SplitByte_text [OF nl])
  have off: "length (text_of (map audit_line es)) - audit_maxRead = 0" using assms(4) by simp
  have ne: "text_of (map audit_line es) \<noteq> []" using False by (cases es) (simp_all add: text_of_def)
  have pos: "0 < audit_limit k" by (simp add: audit_limit_def)
  have "audit_Recent io k a = audit_loop (audit_limit k) (rev (map audit_line es @ [[]])) []"
    using assms(1,2) ne unfolding audit_Recent_def Let_def assms(3) off by (simp add: sp)
  also have "\<dots> = audit_loop (audit_limit k) (map audit_line (rev es)) []"
    using pos by (simp add: TrimSpace_def rev_map)
  finally show ?thesis using pos by (simp add: audit_loop_lines)
qed

theorem audit_reads_back_witness:
  "audit_Recent \<lparr>lio_open_fails = False, lio_stat_fails = False, lio_write_fails = False, lio_rot_read_fails = False,
       lio_rot_write_fails = False, lio_read_fails = False, lio_rot_got = None\<rparr> 1
     \<lparr>au_open = True, au_disk = Some (text_of (map audit_line [zero_audit, zero_audit\<lparr>ae_Who := ''a''\<rparr>])), au_size = 0, au_warned = False\<rparr>
   = [zero_audit\<lparr>ae_Who := ''a''\<rparr>]"
proof -
  have l: "length (audit_line zero_audit) = 44" "length (audit_line (zero_audit\<lparr>ae_Who := ''a''\<rparr>)) = 45" by code_simp+
  show ?thesis
    using l by (subst audit_reads_back [where es = "[zero_audit, zero_audit\<lparr>ae_Who := ''a''\<rparr>]"])
      (simp_all add: audit_content_def text_of_def audit_maxRead_def audit_limit_def)
qed

end
