(* ===== verification/Proxy_State.thy ===== *)
theory Proxy_State
  imports Rules Throttle Store LogStore Conns Traffic Audit_Trail "HOL-Library.Multiset"
begin

text \<open>
  The struct \<open>Proxy\<close> of \<^verbatim>\<open>proxy.go\<close> as a record, HTTP requests as the handlers see them,
  the environment of a handler, and what a configuration change does to the running proxy.

  A request is what package \<^verbatim>\<open>net/http\<close> hands to a handler: the parsed URL, the canonical
  header map and the parsed cookies. A handler runs at one instant \<open>e_now\<close>; everything else
  it reads from outside is in its environment.
\<close>

section \<open>Requests\<close>

record URL =
  ul_Scheme :: string
  ul_Host :: string
  ul_Path :: string
  ul_RequestURI :: string
  ul_Query :: "(string, string) gomap"

type_synonym header = "(string, string list) gomap"

text \<open>The body of a request, read to its end or to a read error.\<close>

record Request =
  rq_Method :: string
  rq_URL :: URL
  rq_Host :: string
  rq_RemoteAddr :: string
  rq_Header :: header
  rq_Cookies :: "(string \<times> string) list"
  rq_TLS :: bool
  rq_Body :: string

text \<open>
  A response as the handler has written it. \<open>http.SetCookie\<close> adds a cookie; \<open>writeJSON\<close>
  writes a status and one JSON document, followed by a newline (\<open>json.Encoder.Encode\<close>). An
  object literal \<open>map[string]any\<close> is printed with its keys sorted.
\<close>

record Cookie =
  ck_Name :: string
  ck_Value :: string
  ck_Path :: string
  ck_HttpOnly :: bool
  ck_Secure :: bool
  ck_SameSiteLax :: bool
  ck_MaxAge :: int

record Response =
  rs_status :: int
  rs_header :: header
  rs_cookies :: "Cookie list"
  rs_body :: string

definition content_type :: "string \<Rightarrow> header" where
  "content_type t = fmupd ''Content-Type'' [t] fmempty"

definition writeJSON :: "int \<Rightarrow> json \<Rightarrow> Response" where
  "writeJSON status v =
     \<lparr>rs_status = status, rs_header = content_type ''application/json'', rs_cookies = [],
      rs_body = Marshal v @ [newline]\<rparr>"

definition jerror :: "string \<Rightarrow> json" where
  "jerror msg = JObj [(''error'', JStr msg)]"

definition header_get :: "header \<Rightarrow> string \<Rightarrow> string" where
  "header_get h k = (case fmlookup h k of Some (v # _) \<Rightarrow> v | _ \<Rightarrow> [])"

definition header_set :: "string \<Rightarrow> string \<Rightarrow> header \<Rightarrow> header" where
  "header_set k v h = fmupd k [v] h"

definition header_add :: "string \<Rightarrow> string \<Rightarrow> header \<Rightarrow> header" where
  "header_add k v h = fmupd k ((case fmlookup h k of None \<Rightarrow> [] | Some vs \<Rightarrow> vs) @ [v]) h"

definition header_del :: "string \<Rightarrow> header \<Rightarrow> header" where
  "header_del k h = fmdrop k h"

definition cookie :: "Request \<Rightarrow> string \<Rightarrow> string option" where
  "cookie r name = map_of (rq_Cookies r) name"

definition query_get :: "Request \<Rightarrow> string \<Rightarrow> string" where
  "query_get r k = (case fmlookup (ul_Query (rq_URL r)) k of None \<Rightarrow> [] | Some v \<Rightarrow> v)"

definition clientAddr :: "Request \<Rightarrow> string" where
  "clientAddr r = (case SplitHostPort (rq_RemoteAddr r) of None \<Rightarrow> rq_RemoteAddr r | Some (host, _) \<Rightarrow> host)"

section \<open>The proxy\<close>

text \<open>
  A \<open>net.Listener\<close>: the address it is bound to, and the certificate with which it serves TLS,
  if it does. A certificate is what \<open>tls.LoadX509KeyPair\<close> made of the two files.
\<close>

record Listener =
  ln_Addr :: string
  ln_TLS :: "string option"

record Proxy =
  p_store :: Store
  p_disk :: Disk
  p_rules :: RulesEngine
  p_logs :: LogStore
  p_audit :: AuditLog
  p_live :: liveStats
  p_transport :: "int option"
  p_proxySrv :: "string option"
  p_adminSrv :: "string option"
  p_proxyLn :: "Listener option"
  p_adminLn :: "Listener option"
  p_proxyAddr :: string
  p_adminAddr :: string
  p_running :: "string list"
  p_conns :: Conns
  p_daily :: daily
  p_loginFails :: fails
  p_accountFails :: fails
  p_dummyHash :: "string option"
  p_proxyAuthFails :: fails
  p_defaultPassCache :: "(string, bool) gomap"
  p_adminTLS :: "string option"
  p_startedAt :: time

text \<open>
  The environment of a handler: the time, random bytes, the outcomes of file operations, and as
  functions what the system answers: the error of listening on an address, the address that such a
  listener is then bound to, the addresses of a host name (\<open>net.LookupHost\<close>), the host of a URL (\<open>url.Parse\<close>); then the embedded web
  page, and the order in which the keys of a map are visited.
\<close>

record Env =
  e_now :: time
  e_entropy :: Entropy
  e_save :: SaveIO
  e_log :: LogIO
  e_audit :: LogIO
  e_listen :: "string \<Rightarrow> string option"
  e_bound :: "string \<Rightarrow> string"
  e_lookup :: "string \<Rightarrow> string list option"
  e_url_host :: "string \<Rightarrow> string option"
  e_ui :: "string option"
  e_order :: "string list"

abbreviation cfg_of :: "Proxy \<Rightarrow> Config" where
  "cfg_of p \<equiv> s_cfg (p_store p)"

definition log_add :: "Env \<Rightarrow> LogEntry \<Rightarrow> Proxy \<Rightarrow> Proxy" where
  "log_add env e p = p\<lparr>p_logs := Add (e_log env) (e_now env) (c_Logs (cfg_of p)) e (p_logs p)\<rparr>"

definition audit_record :: "Env \<Rightarrow> string \<Rightarrow> string \<Rightarrow> string \<Rightarrow> Proxy \<Rightarrow> Proxy" where
  "audit_record env action who detail p =
     p\<lparr>p_audit := Record (e_audit env) (e_now env) action who detail (p_audit p)\<rparr>"

section \<open>Applying a configuration\<close>

text \<open>The transport in use, by its connect timeout; it is rebuilt only when that changes.\<close>

definition applyTransport :: "Config \<Rightarrow> Proxy \<Rightarrow> Proxy" where
  "applyTransport cfg p =
     (let sec = (if px_ConnectTimeoutSec (c_Proxy cfg) \<le> 0 then 15 else px_ConnectTimeoutSec (c_Proxy cfg))
      in if p_transport p = Some sec then p else p\<lparr>p_transport := Some sec\<rparr>)"

text \<open>
  \<open>bind\<close>: the listener of a kind, its server running in the background. \<open>p_running\<close>
  lists the addresses of the running servers; \<open>shutdownServer\<close> takes one away.
\<close>

definition bind :: "Env \<Rightarrow> bool \<Rightarrow> string \<Rightarrow> Proxy \<Rightarrow> error option \<times> Proxy" where
  "bind env is_proxy addr p =
     (case e_listen env addr of
        Some err \<Rightarrow>
          (Some (ErrMsg (''bind '' @ (if is_proxy then ''proxy'' else ''admin'') @ '' '' @ addr @ '': '' @ err)), p)
      | None \<Rightarrow>
         (let ln = \<lparr>ln_Addr = e_bound env addr, ln_TLS = (if is_proxy then None else p_adminTLS p)\<rparr>
          in (None,
              (if is_proxy
               then p\<lparr>p_proxySrv := Some addr, p_proxyLn := Some ln, p_proxyAddr := addr, p_running := addr # p_running p\<rparr>
               else p\<lparr>p_adminSrv := Some addr, p_adminLn := Some ln, p_adminAddr := addr, p_running := addr # p_running p\<rparr>))))"

definition ListenerAddr :: "bool \<Rightarrow> Proxy \<Rightarrow> string" where
  "ListenerAddr is_proxy p =
     (case (if is_proxy then p_proxyLn p else p_adminLn p) of None \<Rightarrow> [] | Some ln \<Rightarrow> ln_Addr ln)"

definition shutdownServer :: "string option \<Rightarrow> Proxy \<Rightarrow> Proxy" where
  "shutdownServer srv p =
     (case srv of None \<Rightarrow> p | Some a \<Rightarrow> p\<lparr>p_running := remove1 a (p_running p)\<rparr>)"

definition rebindIfChanged :: "Env \<Rightarrow> Config \<Rightarrow> Proxy \<Rightarrow> Proxy" where
  "rebindIfChanged env cfg p =
     (let needProxy = (px_ListenAddr (c_Proxy cfg) \<noteq> p_proxyAddr p);
          needAdmin = (px_AdminListenAddr (c_Proxy cfg) \<noteq> p_adminAddr p);
          oldProxy = (if needProxy then p_proxySrv p else None);
          oldAdmin = (if needAdmin then p_adminSrv p else None);
          p1 = (if needProxy then
                  (case bind env True (px_ListenAddr (c_Proxy cfg)) p of
                     (Some _, q) \<Rightarrow> q | (None, q) \<Rightarrow> shutdownServer oldProxy q)
                else p)
      in if needAdmin then
           (case bind env False (px_AdminListenAddr (c_Proxy cfg)) p1 of
              (Some _, q) \<Rightarrow> q | (None, q) \<Rightarrow> shutdownServer oldAdmin q)
         else p1)"

definition OnConfigChanged :: "Env \<Rightarrow> Config \<Rightarrow> Proxy \<Rightarrow> Proxy" where
  "OnConfigChanged env cfg p =
     (let p1 = applyTransport cfg p;
          p2 = p1\<lparr>p_rules := Rebuild (p_rules p1) cfg\<rparr>
      in rebindIfChanged env cfg p2)"

text \<open>
  \<open>p.store.Update(fn)\<close> as the handlers call it: \<open>main\<close> has registered
  \<open>OnConfigChanged\<close>, the only listener.
\<close>

definition update_config :: "Env \<Rightarrow> (Config \<Rightarrow> error + Config) \<Rightarrow> Proxy \<Rightarrow> error option \<times> Proxy" where
  "update_config env fn p =
     (case Update (e_save env) fn (p_store p) (p_disk p) of
        (r, s, d, snap) \<Rightarrow>
          let p1 = p\<lparr>p_store := s, p_disk := d\<rparr>
          in (r, (case snap of None \<Rightarrow> p1 | Some cfg \<Rightarrow> OnConfigChanged env cfg p1)))"

definition update_silent :: "Env \<Rightarrow> (Config \<Rightarrow> error + Config) \<Rightarrow> Proxy \<Rightarrow> error option \<times> Proxy" where
  "update_silent env fn p =
     (case UpdateSilent (e_save env) fn (p_store p) (p_disk p) of
        (r, s, d, snap) \<Rightarrow> (r, p\<lparr>p_store := s, p_disk := d\<rparr>))"

text \<open>
  \<open>loadAdminTLS\<close>: the certificate for the admin port, if both files are named and load.
\<close>

definition loadAdminTLS :: "(string \<Rightarrow> string) \<Rightarrow> (string \<Rightarrow> string \<Rightarrow> string option) \<Rightarrow> string option" where
  "loadAdminTLS getenv load =
     (let certFile = getenv ''TLS_CERT_FILE''; keyFile = getenv ''TLS_KEY_FILE'' in
      if certFile = [] \<or> keyFile = [] then None else load certFile keyFile)"

text \<open>\<open>NewProxy\<close>, \<open>Start\<close>, the periodic \<open>FlushStats\<close> and \<open>Shutdown\<close>.\<close>

definition NewProxy :: "string option \<Rightarrow> bool \<Rightarrow> LogIO \<Rightarrow> LogIO \<Rightarrow> time \<Rightarrow> Store \<Rightarrow> Disk \<Rightarrow> string option \<Rightarrow> string option \<Rightarrow> Proxy" where
  "NewProxy tls mkdir_fails lio aio now store disk activity auditfile =
     (let cfg = s_cfg store;
          p = \<lparr>p_store = store, p_disk = disk, p_rules = NewRulesEngine,
               p_logs = NewLogStore mkdir_fails lio (c_Logs cfg) activity, p_audit = NewAuditLog aio auditfile,
               p_live = newLiveStats, p_transport = None, p_proxySrv = None, p_adminSrv = None,
               p_proxyLn = None, p_adminLn = None, p_proxyAddr = [], p_adminAddr = [], p_running = [],
               p_conns = \<lparr>cn_user = fmempty, cn_global = 0\<rparr>, p_daily = fmempty, p_loginFails = fmempty,
               p_accountFails = fmempty, p_dummyHash = None, p_proxyAuthFails = fmempty,
               p_defaultPassCache = fmempty, p_adminTLS = tls, p_startedAt = now\<rparr>;
          p1 = applyTransport cfg p
      in p1\<lparr>p_rules := Rebuild (p_rules p1) cfg\<rparr>)"

definition start_proxy :: "Env \<Rightarrow> Config \<Rightarrow> Proxy \<Rightarrow> error option \<times> Proxy" where
  "start_proxy env cfg p =
     (case bind env True (px_ListenAddr (c_Proxy cfg)) p of
        (Some e, q) \<Rightarrow> (Some e, q)
      | (None, q) \<Rightarrow> bind env False (px_AdminListenAddr (c_Proxy cfg)) q)"

definition FlushStats :: "Env \<Rightarrow> Proxy \<Rightarrow> Proxy" where
  "FlushStats env p =
     (case pruneAuthFailures (e_now env) (p_loginFails p, p_accountFails p, p_proxyAuthFails p) of
        (lf, af, pf) \<Rightarrow>
          let p1 = p\<lparr>p_loginFails := lf, p_accountFails := af, p_proxyAuthFails := pf,
                     p_logs := Flush (p_logs p), p_daily := prune_daily (e_now env) (p_daily p)\<rparr>;
              live = p_live p1;
              p2 = p1\<lparr>p_live := newLiveStats\<rparr>
          in if lv_requests live = fmempty \<and> lv_lastUsed live = fmempty then p2
             else snd (update_silent env (flush_fn live) p2))"

definition shutdown_proxy :: "Env \<Rightarrow> Proxy \<Rightarrow> Proxy" where
  "shutdown_proxy env p =
     (let p1 = shutdownServer (p_proxySrv p) p; p2 = shutdownServer (p_adminSrv p) p1;
          p3 = FlushStats env p2
      in p3\<lparr>p_logs := Flush (p_logs p3)\<rparr>)"

section \<open>Listeners\<close>

text \<open>
  What binding is about, and its invariant: exactly two servers run, one per kind, on the addresses
  recorded for them; the admin port speaks TLS if and only if there is a certificate, the proxy port
  never does. They are the configured ones, and the transport has the configured timeout, unless an
  address could not be bound.
\<close>

definition listeners where
  "listeners p = (p_proxySrv p, p_adminSrv p, p_proxyLn p, p_adminLn p, p_proxyAddr p, p_adminAddr p, p_running p,
     p_transport p, p_adminTLS p)"

definition listening :: "Proxy \<Rightarrow> bool" where
  "listening p \<longleftrightarrow> p_proxySrv p = Some (p_proxyAddr p) \<and> p_adminSrv p = Some (p_adminAddr p)
     \<and> mset (p_running p) = {#p_proxyAddr p, p_adminAddr p#}
     \<and> map_option ln_TLS (p_proxyLn p) = Some None \<and> map_option ln_TLS (p_adminLn p) = Some (p_adminTLS p)"

definition connect_timeout :: "Config \<Rightarrow> int" where
  "connect_timeout cfg = (if px_ConnectTimeoutSec (c_Proxy cfg) \<le> 0 then 15 else px_ConnectTimeoutSec (c_Proxy cfg))"

definition bound_as_configured :: "Proxy \<Rightarrow> bool" where
  "bound_as_configured p \<longleftrightarrow> p_proxyAddr p = px_ListenAddr (c_Proxy (cfg_of p))
     \<and> p_adminAddr p = px_AdminListenAddr (c_Proxy (cfg_of p)) \<and> p_transport p = Some (connect_timeout (cfg_of p))"

definition rebind :: "Env \<Rightarrow> bool \<Rightarrow> string \<Rightarrow> string option \<Rightarrow> Proxy \<Rightarrow> Proxy" where
  "rebind env k a old p = (case bind env k a p of (Some _, q) \<Rightarrow> q | (None, q) \<Rightarrow> shutdownServer old q)"

lemma rebindIfChanged_rebind:
  "rebindIfChanged env cfg p =
     (let p1 = (if px_ListenAddr (c_Proxy cfg) \<noteq> p_proxyAddr p then rebind env True (px_ListenAddr (c_Proxy cfg)) (p_proxySrv p) p else p)
      in if px_AdminListenAddr (c_Proxy cfg) \<noteq> p_adminAddr p
         then rebind env False (px_AdminListenAddr (c_Proxy cfg)) (p_adminSrv p) p1 else p1)"
  by (simp add: rebindIfChanged_def rebind_def)

lemma rebind_listening:
  "listening p \<Longrightarrow> listening (rebind env True a (p_proxySrv p) p)" "listening p \<Longrightarrow> listening (rebind env False a (p_adminSrv p) p)"
  by (cases "e_listen env a"; auto simp: listening_def rebind_def bind_def shutdownServer_def add_mset_commute)+

lemma rebind_adminSrv [simp]: "p_adminSrv (rebind env True a s p) = p_adminSrv p"
  by (cases "e_listen env a"; cases s) (simp_all add: rebind_def bind_def shutdownServer_def)

lemma listening_applyTransport [simp]: "listening (applyTransport c p) = listening p" "listening (p\<lparr>p_rules := x\<rparr>) = listening p"
  by (simp_all add: applyTransport_def listening_def Let_def)

lemma rebindIfChanged_listening: "listening p \<Longrightarrow> listening (rebindIfChanged env cfg p)"
  using rebind_listening(1) [of p env "px_ListenAddr (c_Proxy cfg)"] rebind_listening(2) [of p env "px_AdminListenAddr (c_Proxy cfg)"]
    rebind_listening(2) [of "rebind env True (px_ListenAddr (c_Proxy cfg)) (p_proxySrv p) p" env "px_AdminListenAddr (c_Proxy cfg)"]
  by (simp add: rebindIfChanged_rebind Let_def)

lemma OnConfigChanged_listening: "listening p \<Longrightarrow> listening (OnConfigChanged env cfg p)"
  unfolding OnConfigChanged_def Let_def by (rule rebindIfChanged_listening) simp

lemma ListenerAddr_bind:
  "bind env k a p = (None, q) \<Longrightarrow> ListenerAddr k q = e_bound env a \<and> ListenerAddr (\<not> k) q = ListenerAddr (\<not> k) p"
  by (auto simp: bind_def ListenerAddr_def Let_def split: option.splits)

text \<open>When every address can be bound, the new configuration is in force afterwards.\<close>

lemma OnConfigChanged_applied:
  assumes "\<forall>a. e_listen env a = None"
  shows "p_proxyAddr (OnConfigChanged env cfg p) = px_ListenAddr (c_Proxy cfg)"
    "p_adminAddr (OnConfigChanged env cfg p) = px_AdminListenAddr (c_Proxy cfg)"
    "p_transport (OnConfigChanged env cfg p) = Some (connect_timeout cfg)"
  using assms by (auto simp: OnConfigChanged_def rebindIfChanged_def applyTransport_def connect_timeout_def bind_def shutdownServer_def
    Let_def split: option.split)

lemma OnConfigChanged_TLS [simp]: "p_adminTLS (OnConfigChanged env cfg p) = p_adminTLS p"
proof -
  have "p_adminTLS (rebind env k a old q) = p_adminTLS q" for k a old q
    by (cases "e_listen env a"; cases old; cases k) (simp_all add: rebind_def bind_def shutdownServer_def)
  then show ?thesis by (simp add: OnConfigChanged_def rebindIfChanged_rebind applyTransport_def Let_def)
qed

text \<open>What listens afterwards depends on what listened before only.\<close>

lemma listeners_rebind: "listeners p = listeners q \<Longrightarrow> listeners (rebind env k a old p) = listeners (rebind env k a old q)"
  by (cases "e_listen env a"; cases old; cases k) (simp_all add: listeners_def rebind_def bind_def shutdownServer_def)

lemma listeners_rebindIfChanged:
  assumes "listeners p = listeners q"
  shows "listeners (rebindIfChanged env cfg p) = listeners (rebindIfChanged env cfg q)"
proof -
  have eq: "p_proxySrv p = p_proxySrv q" "p_adminSrv p = p_adminSrv q" "p_proxyAddr p = p_proxyAddr q" "p_adminAddr p = p_adminAddr q"
    using assms by (simp_all add: listeners_def)
  show ?thesis unfolding rebindIfChanged_rebind Let_def eq by (auto intro!: listeners_rebind assms)
qed

lemma listeners_OnConfigChanged:
  assumes "listeners p = listeners q"
  shows "listeners (OnConfigChanged env cfg p) = listeners (OnConfigChanged env cfg q)"
  unfolding OnConfigChanged_def Let_def
  by (rule listeners_rebindIfChanged) (use assms in \<open>simp add: listeners_def applyTransport_def Let_def\<close>)

lemma start_proxy_listening:
  assumes "start_proxy env cfg p = (None, q)" "p_running p = []"
  shows "listening q" "p_proxyAddr q = px_ListenAddr (c_Proxy cfg)" "p_adminAddr q = px_AdminListenAddr (c_Proxy cfg)"
    "p_transport q = p_transport p" "p_adminTLS q = p_adminTLS p"
  using assms by (auto simp: start_proxy_def bind_def listening_def add_mset_commute split: option.splits)

section \<open>Lemmas\<close>

lemma NewProxy_sel [simp]:
  "p_store (NewProxy tls mk lio aio now st d act af) = st" "p_disk (NewProxy tls mk lio aio now st d act af) = d"
  "p_dummyHash (NewProxy tls mk lio aio now st d act af) = None" "p_live (NewProxy tls mk lio aio now st d act af) = newLiveStats"
  "p_conns (NewProxy tls mk lio aio now st d act af) = \<lparr>cn_user = fmempty, cn_global = 0\<rparr>"
  "p_daily (NewProxy tls mk lio aio now st d act af) = fmempty" "p_proxyAuthFails (NewProxy tls mk lio aio now st d act af) = fmempty"
  "p_accountFails (NewProxy tls mk lio aio now st d act af) = fmempty" "p_loginFails (NewProxy tls mk lio aio now st d act af) = fmempty"
  "p_rules (NewProxy tls mk lio aio now st d act af) = Rebuild NewRulesEngine (s_cfg st)"
  "p_defaultPassCache (NewProxy tls mk lio aio now st d act af) = fmempty"
  by (simp_all add: NewProxy_def applyTransport_def Let_def)

lemma log_add_sel [simp]:
  "p_store (log_add env e p) = p_store p" "p_conns (log_add env e p) = p_conns p" "p_live (log_add env e p) = p_live p"
  "p_daily (log_add env e p) = p_daily p" "p_rules (log_add env e p) = p_rules p" "p_disk (log_add env e p) = p_disk p"
  "p_proxyAuthFails (log_add env e p) = p_proxyAuthFails p" "p_dummyHash (log_add env e p) = p_dummyHash p"
  "p_audit (log_add env e p) = p_audit p"
  by (simp_all add: log_add_def)

lemma audit_record_sel [simp]:
  "p_store (audit_record env a w d p) = p_store p" "p_conns (audit_record env a w d p) = p_conns p"
  "p_live (audit_record env a w d p) = p_live p" "p_daily (audit_record env a w d p) = p_daily p"
  "p_rules (audit_record env a w d p) = p_rules p" "p_disk (audit_record env a w d p) = p_disk p"
  "p_proxyAuthFails (audit_record env a w d p) = p_proxyAuthFails p" "p_dummyHash (audit_record env a w d p) = p_dummyHash p"
  "p_logs (audit_record env a w d p) = p_logs p"
  by (simp_all add: audit_record_def)

lemma header_get_set [simp]: "header_get (header_set k v h) k' = (if k' = k then v else header_get h k')"
  by (simp add: header_get_def header_set_def)

section \<open>A running example\<close>

text \<open>A small installation, on which the properties are tried: one admin, one plain user.\<close>

definition demo_admin :: User where
  "demo_admin = zero_user\<lparr>u_ID := ''a1'', u_Username := ''root'', u_Enabled := True, u_Role := ''admin'',
     u_PasswordHash := ''pbkdf2$10000$00$'', u_TokenEpoch := 3\<rparr>"

definition demo_user :: User where
  "demo_user = zero_user\<lparr>u_ID := ''b2'', u_Username := ''bob'', u_Enabled := True, u_Role := ''user'',
     u_PasswordHash := ''pbkdf2$10000$00$''\<rparr>"

definition demo_config :: Config where
  "demo_config = zero_config\<lparr>c_SessionKey := ''k'', c_Users := [demo_admin, demo_user],
     c_Proxy := zero_proxy\<lparr>px_Enabled := True, px_AllowHTTP := True, px_AllowHTTPS := True, px_RequireAuth := True\<rparr>\<rparr>"

definition demo_store :: Store where
  "demo_store = rebuildIndex \<lparr>s_cfg = demo_config, s_byID = fmempty, s_byName = fmempty, s_authCache = fmempty\<rparr>"

definition demo_io :: LogIO where
  "demo_io = \<lparr>lio_open_fails = False, lio_stat_fails = False, lio_write_fails = False,
     lio_rot_read_fails = False, lio_rot_write_fails = False, lio_read_fails = False, lio_rot_got = None\<rparr>"

definition demo_save :: SaveIO where
  "demo_save = \<lparr>io_read_fails = False, io_bak_partial = None, io_tmp_partial = None, io_tmp_error = [], io_rename_error = None\<rparr>"

definition demo_env :: Env where
  "demo_env = \<lparr>e_now = 0, e_entropy = \<lparr>en_salt = None, en_id = ''i'', en_key = ''k''\<rparr>, e_save = demo_save,
     e_log = demo_io, e_audit = demo_io, e_listen = (\<lambda>_. None), e_bound = (\<lambda>a. a), e_lookup = (\<lambda>_. None),
     e_url_host = (\<lambda>_. None), e_ui = Some ''page'', e_order = []\<rparr>"

definition demo_proxy :: Proxy where
  "demo_proxy = NewProxy None False demo_io demo_io 0 demo_store \<lparr>dk_config = None, dk_bak = None, dk_tmp = None\<rparr> None None"

definition demo_request :: Request where
  "demo_request = \<lparr>rq_Method = ''GET'', rq_URL = \<lparr>ul_Scheme = ''http'', ul_Host = ''example.com'', ul_Path = ''/'',
     ul_RequestURI = ''/'', ul_Query = fmempty\<rparr>, rq_Host = ''example.com'', rq_RemoteAddr = ''10.0.0.1:5000'',
     rq_Header = fmempty, rq_Cookies = [], rq_TLS = False, rq_Body = []\<rparr>"

lemma demo_sel [simp]:
  "p_store demo_proxy = demo_store" "s_cfg demo_store = demo_config" "index_ok demo_store"
  "s_authCache demo_store = fmempty" "p_dummyHash demo_proxy = None" "e_now demo_env = 0"
  "c_Users demo_config = [demo_admin, demo_user]" "c_SessionKey demo_config = ''k''"
  by (simp_all add: demo_proxy_def demo_store_def demo_env_def demo_config_def)

lemma demo_proxy_sel [simp]:
  "p_proxyAuthFails demo_proxy = fmempty" "p_accountFails demo_proxy = fmempty" "p_loginFails demo_proxy = fmempty"
  "p_conns demo_proxy = \<lparr>cn_user = fmempty, cn_global = 0\<rparr>" "p_daily demo_proxy = fmempty"
  "p_live demo_proxy = newLiveStats" "p_rules demo_proxy = Rebuild NewRulesEngine demo_config"
  by (simp_all add: demo_proxy_def)

lemma demo_settings [simp]:
  "px_Enabled (c_Proxy demo_config)" "px_AllowHTTP (c_Proxy demo_config)" "px_AllowHTTPS (c_Proxy demo_config)"
  "px_RequireAuth (c_Proxy demo_config)"
  by (simp_all add: demo_config_def)

lemma demo_distinct [simp]: "users_distinct demo_config"
proof -
  have "ToLower ''root'' \<noteq> ToLower ''bob''" by code_simp
  then show ?thesis by (simp add: users_distinct_def demo_admin_def demo_user_def)
qed

end
