(* ===== verification/Auth.thy ===== *)
theory Auth
  imports Proxy_State
begin

text \<open>
  The stateful half of \<^verbatim>\<open>auth.go\<close> with the parts of \<^verbatim>\<open>proxy.go\<close> and
  \<^verbatim>\<open>admin.go\<close> it calls: the two memo caches over the password hash, HTTP Basic
  authentication, admin sessions, the guard \<open>requireAdmin\<close> and the proxy's
  \<open>authorize\<close>.

  The locale \<open>memo_cache\<close> states what a caller of a cached check relies on; both caches
  interpret it, and that caching never changes an answer is its lemma.
\<close>

section \<open>The caches\<close>

definition authCacheTTL :: time where "authCacheTTL = 5 * minute"
definition authCacheMax :: nat where "authCacheMax = 4096"

definition nul :: char where "nul = char_of (0 :: nat)"

definition verifyCached :: "time \<Rightarrow> string \<Rightarrow> string \<Rightarrow> Store \<Rightarrow> bool \<times> Store" where
  "verifyCached now hash password s =
     (let key = hash @ [nul, nul] @ password;
          hit = (case fmlookup (s_authCache s) key of None \<Rightarrow> None
                 | Some e \<Rightarrow> if now < ac_expires e then Some (ac_ok e) else None)
      in case hit of
           Some ok \<Rightarrow> (ok, s)
         | None \<Rightarrow>
             (let ok = VerifyPassword hash password;
                  m = s_authCache s;
                  m1 = (if authCacheMax \<le> fcard (fmdom m) then fmdelete_if (\<lambda>e. ac_expires e < now) m else m);
                  m2 = (if authCacheMax \<le> fcard (fmdom m1) then m1
                        else fmupd key \<lparr>ac_ok = ok, ac_expires = now + authCacheTTL\<rparr> m1)
              in (ok, s\<lparr>s_authCache := m2\<rparr>)))"

definition isDefaultPassword :: "User \<Rightarrow> Proxy \<Rightarrow> bool \<times> Proxy" where
  "isDefaultPassword u p =
     (let key = u_ID u @ [nul, nul] @ u_PasswordHash u in
      case fmlookup (p_defaultPassCache p) key of
        Some v \<Rightarrow> (v, p)
      | None \<Rightarrow>
          (let v = IsDefaultPassword (u_PasswordHash u)
           in (v, p\<lparr>p_defaultPassCache := fmupd key v (p_defaultPassCache p)\<rparr>)))"

section \<open>Basic authentication\<close>

text \<open>
  The decoding of a Basic header into user name and password, which \<open>checkBasicAuth\<close>,
  \<open>basicUserName\<close> and \<open>basicPassword\<close> each write out.
\<close>

definition basic_cred :: "string \<Rightarrow> (string \<times> string) option" where
  "basic_cred authHeader =
     (if authHeader = [] \<or> \<not> HasPrefix authHeader ''Basic '' then None
      else
        case StdDecode (TrimPrefix authHeader ''Basic '') of None \<Rightarrow> None
        | Some cred \<Rightarrow>
           (case IndexByte cred CHR '':'' of None \<Rightarrow> None
            | Some i \<Rightarrow> Some (take i cred, drop (Suc i) cred)))"

definition checkBasicAuth :: "time \<Rightarrow> string \<Rightarrow> Store \<Rightarrow> User option \<times> Store" where
  "checkBasicAuth now authHeader s =
     (case basic_cred authHeader of None \<Rightarrow> (None, s)
      | Some (name, password) \<Rightarrow>
         (case FindUserByName s name of None \<Rightarrow> (None, s)
          | Some user \<Rightarrow>
             if \<not> u_Enabled user then (None, s)
             else
               (case verifyCached now (u_PasswordHash user) password s of
                  (ok, s') \<Rightarrow> (if ok then Some user else None, s'))))"

definition basicUserName :: "string \<Rightarrow> string" where
  "basicUserName authHeader = (case basic_cred authHeader of None \<Rightarrow> [] | Some (name, _) \<Rightarrow> name)"

definition basicPassword :: "string \<Rightarrow> string" where
  "basicPassword authHeader = (case basic_cred authHeader of None \<Rightarrow> [] | Some (_, password) \<Rightarrow> password)"

definition userNameHint :: "string \<Rightarrow> string" where
  "userNameHint name =
     (if name = [] then [] else '' (user '' @ quote name @ '' not found or password incorrect)'')"

text \<open>
  \<open>sync.Once\<close>: \<^const>\<open>None\<close> before the first call; a failed hashing leaves the empty
  string for ever.
\<close>

definition getDummyHash :: "Env \<Rightarrow> Proxy \<Rightarrow> string \<times> Proxy" where
  "getDummyHash env p =
     (case p_dummyHash p of
        Some h \<Rightarrow> (h, p)
      | None \<Rightarrow>
          (let h = (case HashPassword (en_salt (e_entropy env)) ''dummy-password-for-timing'' of
                      None \<Rightarrow> [] | Some h \<Rightarrow> h)
           in (h, p\<lparr>p_dummyHash := Some h\<rparr>)))"

definition equalizeAuthTiming :: "Env \<Rightarrow> string \<Rightarrow> string \<Rightarrow> Proxy \<Rightarrow> Proxy" where
  "equalizeAuthTiming env username password p =
     (if username = [] then p
      else if (case FindUserByName (p_store p) username of None \<Rightarrow> False | Some u \<Rightarrow> u_Enabled u) then p
      else
        case getDummyHash env p of
          (h, p1) \<Rightarrow>
            if h = [] then p1
            else p1\<lparr>p_store := snd (verifyCached (e_now env) h password (p_store p1))\<rparr>)"

definition authorize :: "Env \<Rightarrow> Request \<Rightarrow> string \<Rightarrow> Proxy \<Rightarrow> ((int \<times> string) + User option) \<times> Proxy" where
  "authorize env r clientIP p =
     (if \<not> px_RequireAuth (c_Proxy (cfg_of p)) then (Inr None, p)
      else
        let authHeader = (if header_get (rq_Header r) ''Proxy-Authorization'' = []
                          then header_get (rq_Header r) ''Authorization''
                          else header_get (rq_Header r) ''Proxy-Authorization'')
        in case proxyAuthAllowed (e_now env) clientIP (p_proxyAuthFails p) of
             (allowed, m) \<Rightarrow>
               let p1 = p\<lparr>p_proxyAuthFails := m\<rparr> in
               if \<not> allowed
               then (Inl (429, ''too many failed authentication attempts from this address, try again shortly''), p1)
               else
                 (case checkBasicAuth (e_now env) authHeader (p_store p1) of
                    (None, s) \<Rightarrow>
                      let name = basicUserName authHeader;
                          p2 = p1\<lparr>p_store := s, p_proxyAuthFails := proxyAuthFail (e_now env) clientIP (p_proxyAuthFails p1)\<rparr>
                      in (Inl (407, ''authentication required: invalid or missing credentials'' @ userNameHint name),
                          equalizeAuthTiming env name (basicPassword authHeader) p2)
                  | (Some user, s) \<Rightarrow>
                      (Inr (Some user), p1\<lparr>p_store := s, p_proxyAuthFails := proxyAuthOK clientIP (p_proxyAuthFails p1)\<rparr>)))"

section \<open>Admin sessions\<close>

definition sessionTokens :: "Request \<Rightarrow> string list" where
  "sessionTokens r =
     (case cookie r ''fpx_session'' of None \<Rightarrow> [] | Some v \<Rightarrow> if v \<noteq> [] then [v] else [])
     @ (let h = header_get (rq_Header r) ''Authorization'' in
        if HasPrefix h ''Bearer '' then
          (let tok = TrimPrefix h ''Bearer '' in if tok \<noteq> [] then [tok] else [])
        else [])"

definition sessionToken :: "Request \<Rightarrow> string" where
  "sessionToken r = (case sessionTokens r of [] \<Rightarrow> [] | t # _ \<Rightarrow> t)"

text \<open>The loop over the tokens in \<open>validAdminFromRequest\<close>.\<close>

fun token_loop :: "time \<Rightarrow> Store \<Rightarrow> string list \<Rightarrow> User option" where
  "token_loop now s [] = None"
| "token_loop now s (tok # toks) =
     (case verifyToken now (c_SessionKey (s_cfg s)) tok of
        None \<Rightarrow> token_loop now s toks
      | Some (u, _, epoch) \<Rightarrow>
          (case FindUserByName s u of None \<Rightarrow> token_loop now s toks
           | Some user \<Rightarrow>
               if u_Enabled user \<and> u_Role user = ''admin'' \<and> u_TokenEpoch user = epoch then Some user
               else token_loop now s toks))"

definition validAdminFromRequest :: "time \<Rightarrow> Request \<Rightarrow> Store \<Rightarrow> User option \<times> Store" where
  "validAdminFromRequest now r s =
     (case token_loop now s (sessionTokens r) of
        Some user \<Rightarrow> (Some user, s)
      | None \<Rightarrow>
          let h = header_get (rq_Header r) ''Authorization'' in
          if h \<noteq> [] then
            (case checkBasicAuth now h s of
               (Some user, s') \<Rightarrow> (if u_Role user = ''admin'' then Some user else None, s')
             | (None, s') \<Rightarrow> (None, s'))
          else (None, s))"

definition adminSessionValid :: "time \<Rightarrow> Proxy \<Rightarrow> Request \<Rightarrow> bool" where
  "adminSessionValid now p r =
     list_ex (\<lambda>tok. case verifyToken now (c_SessionKey (cfg_of p)) tok of
        None \<Rightarrow> False | Some (u, _, _) \<Rightarrow> u \<noteq> []) (sessionTokens r)"

definition isBasicAuth :: "Request \<Rightarrow> bool" where
  "isBasicAuth r = HasPrefix (header_get (rq_Header r) ''Authorization'') ''Basic ''"

text \<open>
  \<open>requireAdmin(p)(next)\<close> in its parts: the limiters before the check (\<open>||\<close> asks
  the account limiter only when the address limiter admits), the bookkeeping of a failure, that of a
  success, and their composition. The handler gets the request with the header
  \<open>X-Admin-User\<close>.
\<close>

definition admin_admitted :: "Env \<Rightarrow> Request \<Rightarrow> Proxy \<Rightarrow> bool \<times> Proxy" where
  "admin_admitted env r p =
     (if isBasicAuth r \<and> \<not> adminSessionValid (e_now env) p r then
        (case proxyAuthAllowed (e_now env) (clientAddr r) (p_proxyAuthFails p) of
           (False, m) \<Rightarrow> (False, p\<lparr>p_proxyAuthFails := m\<rparr>)
         | (True, m) \<Rightarrow>
            (case accountAllowed (e_now env) (basicUserName (header_get (rq_Header r) ''Authorization'')) (p_accountFails p) of
               (a, m2) \<Rightarrow> (a, p\<lparr>p_proxyAuthFails := m, p_accountFails := m2\<rparr>)))
      else (True, p))"

definition admin_refused :: "Env \<Rightarrow> Request \<Rightarrow> Proxy \<Rightarrow> Proxy" where
  "admin_refused env r p =
     (let h = header_get (rq_Header r) ''Authorization'' in
      if isBasicAuth r \<and> \<not> adminSessionValid (e_now env) p r then
        equalizeAuthTiming env (basicUserName h) (basicPassword h)
          (p\<lparr>p_proxyAuthFails := proxyAuthFail (e_now env) (clientAddr r) (p_proxyAuthFails p),
             p_accountFails := accountFail (e_now env) (basicUserName h) (p_accountFails p)\<rparr>)
      else p)"

definition admin_accepted :: "Request \<Rightarrow> User \<Rightarrow> Proxy \<Rightarrow> Proxy" where
  "admin_accepted r user p =
     (if isBasicAuth r then
        p\<lparr>p_proxyAuthFails := proxyAuthOK (clientAddr r) (p_proxyAuthFails p),
          p_accountFails := accountOK (u_Username user) (p_accountFails p)\<rparr>
      else p)"

definition as_admin :: "User \<Rightarrow> Request \<Rightarrow> Request" where
  "as_admin u r = r\<lparr>rq_Header := header_set ''X-Admin-User'' (u_Username u) (rq_Header r)\<rparr>"

definition requireAdmin ::
  "Env \<Rightarrow> (Request \<Rightarrow> Proxy \<Rightarrow> Response \<times> Proxy) \<Rightarrow> Request \<Rightarrow> Proxy \<Rightarrow> Response \<times> Proxy"
where
  "requireAdmin env next r p =
     (case admin_admitted env r p of
        (False, p1) \<Rightarrow>
          (writeJSON 429 (jerror ''too many failed authentication attempts, try again shortly''), p1)
      | (True, p1) \<Rightarrow>
          (case validAdminFromRequest (e_now env) r (p_store p1) of
             (None, s) \<Rightarrow>
               (writeJSON 401 (jerror ''admin credentials required''), admin_refused env r (p1\<lparr>p_store := s\<rparr>))
           | (Some user, s) \<Rightarrow>
               next (as_admin user r) (admin_accepted r user (p1\<lparr>p_store := s\<rparr>))))"

section \<open>Memoised checks\<close>

text \<open>
  A memoised check of a pure predicate \<open>fn\<close> on the inputs that \<open>valid\<close> admits: the
  answers stored in a state, whether still live or not, are those \<open>entry\<close> reports. A call
  answers from the store or computes, and stores nothing but the computed answer.
\<close>

locale memo_cache =
  fixes fn :: "'a \<Rightarrow> bool"
    and key :: "'a \<Rightarrow> string"
    and valid :: "'a \<Rightarrow> bool"
    and entry :: "'s \<Rightarrow> string \<Rightarrow> bool option"
    and call :: "'a \<Rightarrow> 's \<Rightarrow> bool \<times> 's"
  assumes key_determines: "valid x \<Longrightarrow> valid y \<Longrightarrow> key x = key y \<Longrightarrow> fn x = fn y"
    and hit_or_compute: "fst (call x s) = fn x \<or> entry s (key x) = Some (fst (call x s))"
    and stores_computed: "entry (snd (call x s)) k = Some v \<Longrightarrow> entry s k = Some v \<or> k = key x \<and> v = fn x"
begin

definition sound :: "'s \<Rightarrow> bool" where
  "sound s \<longleftrightarrow> (\<forall>k v. entry s k = Some v \<longrightarrow> (\<exists>x. valid x \<and> k = key x \<and> v = fn x))"

lemma soundI_empty: "(\<And>k. entry s k = None) \<Longrightarrow> sound s"
  by (simp add: sound_def)

lemma call_correct: "sound s \<Longrightarrow> valid x \<Longrightarrow> fst (call x s) = fn x"
  using hit_or_compute [of x s] key_determines unfolding sound_def by metis

lemma call_sound: "sound s \<Longrightarrow> valid x \<Longrightarrow> sound (snd (call x s))"
  using stores_computed [of x s] unfolding sound_def by blast

fun calls :: "'a list \<Rightarrow> 's \<Rightarrow> bool list \<times> 's" where
  "calls [] s = ([], s)"
| "calls (x # xs) s = (let (b, s') = call x s; (bs, s'') = calls xs s' in (b # bs, s''))"

lemma calls_correct: "sound s \<Longrightarrow> list_all valid xs \<Longrightarrow> fst (calls xs s) = map fn xs"
proof (induction xs arbitrary: s)
  case (Cons x xs)
  then show ?case
    using call_correct [of s x] Cons.IH [OF call_sound [of s x]] by (auto simp: split_beta)
qed simp

lemma calls_invariant:
  assumes "\<And>x s. I s \<Longrightarrow> I (snd (call x s))"
  shows "I s \<Longrightarrow> I (snd (calls xs s))"
  by (induction xs arbitrary: s) (auto simp: split_beta assms)

end

lemma nul_key_inject:
  "nul \<notin> set a \<Longrightarrow> nul \<notin> set b \<Longrightarrow> a @ nul # x = b @ nul # y \<Longrightarrow> a = b \<and> x = y"
proof (induction a arbitrary: b)
  case Nil
  then show ?case by (cases b) auto
next
  case (Cons c a)
  then show ?case by (cases b) auto
qed

definition cached_verdict :: "Store \<Rightarrow> string \<Rightarrow> bool option" where
  "cached_verdict s k = map_option ac_ok (fmlookup (s_authCache s) k)"

lemma verifyCached_store:
  "s_cfg (snd (verifyCached now hash pw s)) = s_cfg s" "s_byID (snd (verifyCached now hash pw s)) = s_byID s"
  "s_byName (snd (verifyCached now hash pw s)) = s_byName s"
  by (auto simp: verifyCached_def Let_def split: option.splits)

lemma verifyCached_answer:
  "fst (verifyCached now hash pw s) = VerifyPassword hash pw
   \<or> cached_verdict s (hash @ [nul, nul] @ pw) = Some (fst (verifyCached now hash pw s))"
  by (auto simp: verifyCached_def cached_verdict_def Let_def split: option.splits)

lemma verifyCached_verdict:
  "cached_verdict (snd (verifyCached now hash pw s)) k = Some v \<Longrightarrow>
   cached_verdict s k = Some v \<or> k = hash @ [nul, nul] @ pw \<and> v = VerifyPassword hash pw"
  by (auto simp: verifyCached_def cached_verdict_def Let_def fmlookup_fmdelete_if
      split: option.splits if_splits)

interpretation verify: memo_cache
  "\<lambda>(now, hash, pw). VerifyPassword hash pw" "\<lambda>(now, hash, pw). hash @ nul # nul # pw"
  "\<lambda>(now, hash, pw). nul \<notin> set hash" cached_verdict "\<lambda>(now, hash, pw). verifyCached now hash pw"
proof (unfold_locales, goal_cases)
  case (1 x y)
  then show ?case
    using nul_key_inject [of "fst (snd x)" "fst (snd y)" "nul # snd (snd x)" "nul # snd (snd y)"]
    by (simp add: split_beta)
next
  case (2 x s)
  then show ?case using verifyCached_answer by (simp add: split_beta)
next
  case (3 x s k v)
  then show ?case using verifyCached_verdict by (simp add: split_beta)
qed

interpretation default_password: memo_cache
  "\<lambda>u. IsDefaultPassword (u_PasswordHash u)" "\<lambda>u. u_ID u @ nul # nul # u_PasswordHash u"
  "\<lambda>u. nul \<notin> set (u_ID u)" "\<lambda>p. fmlookup (p_defaultPassCache p)" isDefaultPassword
proof (unfold_locales, goal_cases)
  case (1 x y)
  then show ?case
    using nul_key_inject [of "u_ID x" "u_ID y" "nul # u_PasswordHash x" "nul # u_PasswordHash y"] by simp
qed (auto simp: isDefaultPassword_def Let_def split: option.splits if_splits)

section \<open>What counts as a credential\<close>

text \<open>
  The reference the authentication code is compared with: which user a request may claim to be, by
  a signed token that carries the user's present epoch or by the password, with no cache.
\<close>

definition presents_token :: "time \<Rightarrow> Request \<Rightarrow> Store \<Rightarrow> User \<Rightarrow> bool" where
  "presents_token now r s u =
     list_ex (\<lambda>tok. case verifyToken now (c_SessionKey (s_cfg s)) tok of None \<Rightarrow> False
       | Some (name, _, epoch) \<Rightarrow> EqualFold (u_Username u) name \<and> epoch = u_TokenEpoch u) (sessionTokens r)"

definition presents_password :: "string \<Rightarrow> User \<Rightarrow> bool" where
  "presents_password authHeader u =
     (case basic_cred authHeader of None \<Rightarrow> False
      | Some (name, password) \<Rightarrow> EqualFold (u_Username u) name \<and> VerifyPassword (u_PasswordHash u) password)"

definition is_admin :: "Config \<Rightarrow> User \<Rightarrow> bool" where
  "is_admin c u \<longleftrightarrow> u \<in> set (c_Users c) \<and> u_Enabled u \<and> u_Role u = ''admin''"

definition admin_credential :: "time \<Rightarrow> Request \<Rightarrow> Store \<Rightarrow> User \<Rightarrow> bool" where
  "admin_credential now r s u \<longleftrightarrow> is_admin (s_cfg s) u \<and>
     (presents_token now r s u \<or> presents_password (header_get (rq_Header r) ''Authorization'') u)"

text \<open>
  The invariant of the authentication state: cached verdicts are right, and no stored hash contains
  a zero byte, which separates the parts of a cache key.
\<close>

definition store_auth_ok :: "Store \<Rightarrow> bool" where
  "store_auth_ok s \<longleftrightarrow> verify.sound s \<and> (\<forall>u \<in> set (c_Users (s_cfg s)). nul \<notin> set (u_PasswordHash u))"

definition auth_ok :: "Proxy \<Rightarrow> bool" where
  "auth_ok p \<longleftrightarrow> store_auth_ok (p_store p) \<and> (\<forall>h. p_dummyHash p = Some h \<longrightarrow> nul \<notin> set h)"

lemma verifyCached_correct:
  assumes "store_auth_ok s" "nul \<notin> set hash"
  shows "fst (verifyCached now hash pw s) = VerifyPassword hash pw" "store_auth_ok (snd (verifyCached now hash pw s))"
  using assms verify.call_correct [of s "(now, hash, pw)"] verify.call_sound [of s "(now, hash, pw)"]
  by (simp_all add: store_auth_ok_def verifyCached_store)

lemma index_ok_verifyCached [simp]: "index_ok (snd (verifyCached now hash pw s)) = index_ok s"
  by (simp add: index_ok_def verifyCached_store)

lemma checkBasicAuth_state:
  "snd (checkBasicAuth now h s) = s \<or>
   (\<exists>u \<in> set (c_Users (s_cfg s)). \<exists>pw. snd (checkBasicAuth now h s) = snd (verifyCached now (u_PasswordHash u) pw s))"
proof (cases "basic_cred h")
  case (Some c)
  then obtain name pw where c: "basic_cred h = Some (name, pw)" by (cases c) simp
  show ?thesis
  proof (cases "FindUserByName s name")
    case (Some u)
    then have "u \<in> set (c_Users (s_cfg s))" using FindUserByName_SomeD by blast
    with Some c show ?thesis by (fastforce simp: checkBasicAuth_def split_beta)
  qed (simp add: checkBasicAuth_def c)
qed (simp add: checkBasicAuth_def)

lemma checkBasicAuth_store [simp]:
  "s_cfg (snd (checkBasicAuth now h s)) = s_cfg s" "index_ok (snd (checkBasicAuth now h s)) = index_ok s"
  using checkBasicAuth_state [of now h s] by (auto simp: verifyCached_store)

lemma checkBasicAuth_sound:
  assumes "store_auth_ok s" "fst (checkBasicAuth now h s) = Some u"
  shows "u \<in> set (c_Users (s_cfg s)) \<and> u_Enabled u \<and> presents_password h u"
proof -
  obtain name pw where c: "basic_cred h = Some (name, pw)" "FindUserByName s name = Some u" "u_Enabled u"
    "fst (verifyCached now (u_PasswordHash u) pw s)"
    using assms(2) by (auto simp: checkBasicAuth_def split: option.splits prod.splits if_splits)
  moreover from c(2) have "u \<in> set (c_Users (s_cfg s))" "EqualFold (u_Username u) name"
    using FindUserByName_SomeD by blast+
  ultimately show ?thesis
    using verifyCached_correct(1) [OF assms(1), of "u_PasswordHash u" now pw] assms(1)
    by (simp add: presents_password_def store_auth_ok_def)
qed

lemma checkBasicAuth_complete:
  assumes "store_auth_ok s" "index_ok s" "users_distinct (s_cfg s)"
    and "u \<in> set (c_Users (s_cfg s))" "u_Enabled u" "presents_password h u"
  shows "fst (checkBasicAuth now h s) = Some u"
proof -
  obtain name pw where c: "basic_cred h = Some (name, pw)" "EqualFold (u_Username u) name"
    "VerifyPassword (u_PasswordHash u) pw"
    using assms(6) by (auto simp: presents_password_def split: option.splits)
  moreover have "FindUserByName s name = Some u"
    using assms c(2) FindUserByName_iff by (simp add: users_distinct_def)
  ultimately show ?thesis
    using verifyCached_correct(1) [OF assms(1), of "u_PasswordHash u" now pw] assms
    by (auto simp: checkBasicAuth_def store_auth_ok_def split: prod.splits)
qed

lemma checkBasicAuth_find:
  assumes "store_auth_ok s" "index_ok s" "users_distinct (s_cfg s)"
  shows "fst (checkBasicAuth now h s) = find (\<lambda>u. u_Enabled u \<and> presents_password h u) (c_Users (s_cfg s))"
proof (cases "find (\<lambda>u. u_Enabled u \<and> presents_password h u) (c_Users (s_cfg s))")
  case None
  then show ?thesis
    using checkBasicAuth_sound [OF assms(1), of now h]
    by (cases "fst (checkBasicAuth now h s)") (auto simp: find_None_iff find_None_iff2)
next
  case (Some u)
  then have "u \<in> set (c_Users (s_cfg s))" "u_Enabled u" "presents_password h u" by (auto simp: find_Some_iff)
  from checkBasicAuth_complete [OF assms this] Some show ?thesis by simp
qed

lemma checkBasicAuth_auth_ok: "store_auth_ok s \<Longrightarrow> store_auth_ok (snd (checkBasicAuth now h s))"
  using checkBasicAuth_state [of now h s] verifyCached_correct(2) [of s _ now] by (fastforce simp: store_auth_ok_def)

text \<open>What the two failure paths leave alone; only the caches and the dummy hash change.\<close>

lemma equalizeAuthTiming_keeps [simp]:
  "cfg_of (equalizeAuthTiming env name pw p) = cfg_of p"
  "index_ok (p_store (equalizeAuthTiming env name pw p)) = index_ok (p_store p)"
  "p_proxyAuthFails (equalizeAuthTiming env name pw p) = p_proxyAuthFails p"
  "p_accountFails (equalizeAuthTiming env name pw p) = p_accountFails p"
  "p_loginFails (equalizeAuthTiming env name pw p) = p_loginFails p"
  "p_logs (equalizeAuthTiming env name pw p) = p_logs p" "p_conns (equalizeAuthTiming env name pw p) = p_conns p"
  "p_live (equalizeAuthTiming env name pw p) = p_live p" "p_daily (equalizeAuthTiming env name pw p) = p_daily p"
  "p_rules (equalizeAuthTiming env name pw p) = p_rules p" "p_disk (equalizeAuthTiming env name pw p) = p_disk p"
  "p_audit (equalizeAuthTiming env name pw p) = p_audit p"
  by (auto simp: equalizeAuthTiming_def getDummyHash_def Let_def verifyCached_store
      split: option.splits prod.splits)

lemma equalizeAuthTiming_auth_ok: "auth_ok p \<Longrightarrow> auth_ok (equalizeAuthTiming env name pw p)"
  using HashPassword_no_nul [folded nul_def]
  by (auto simp: equalizeAuthTiming_def getDummyHash_def Let_def auth_ok_def
      intro!: verifyCached_correct(2) split: option.splits prod.splits)

lemma token_loop_sound:
  "token_loop now s toks = Some u \<Longrightarrow> is_admin (s_cfg s) u \<and>
     (\<exists>tok \<in> set toks. \<exists>name e. verifyToken now (c_SessionKey (s_cfg s)) tok = Some (name, e, u_TokenEpoch u)
        \<and> EqualFold (u_Username u) name)"
proof (induction toks)
  case (Cons tok toks)
  then show ?case
    by (auto simp: is_admin_def dest: FindUserByName_SomeD split: option.splits prod.splits if_splits)
qed simp

lemma token_loop_complete:
  assumes "index_ok s" "users_distinct (s_cfg s)" "is_admin (s_cfg s) u"
    and "verifyToken now (c_SessionKey (s_cfg s)) tok = Some (name, e, u_TokenEpoch u)" "EqualFold (u_Username u) name"
  shows "tok \<in> set toks \<Longrightarrow> token_loop now s toks \<noteq> None"
proof (induction toks)
  case (Cons t toks)
  have "FindUserByName s name = Some u"
    using assms FindUserByName_iff by (simp add: users_distinct_def is_admin_def)
  with Cons assms show ?case by (auto simp: is_admin_def split: option.splits prod.splits)
qed simp

lemma validAdminFromRequest_snd:
  "snd (validAdminFromRequest now r s) = s
   \<or> snd (validAdminFromRequest now r s) = snd (checkBasicAuth now (header_get (rq_Header r) ''Authorization'') s)"
  by (auto simp: validAdminFromRequest_def Let_def split: option.splits prod.splits)

lemma validAdminFromRequest_state:
  "s_cfg (snd (validAdminFromRequest now r s)) = s_cfg s"
  "index_ok (snd (validAdminFromRequest now r s)) = index_ok s"
  "store_auth_ok s \<Longrightarrow> store_auth_ok (snd (validAdminFromRequest now r s))"
  using validAdminFromRequest_snd [of now r s] checkBasicAuth_auth_ok by auto

lemma validAdminFromRequest_sound:
  assumes "store_auth_ok s" "fst (validAdminFromRequest now r s) = Some u"
  shows "admin_credential now r s u"
proof (cases "token_loop now s (sessionTokens r)")
  case None
  with assms(2) have "fst (checkBasicAuth now (header_get (rq_Header r) ''Authorization'') s) = Some u" "u_Role u = ''admin''"
    by (auto simp: validAdminFromRequest_def Let_def split: option.splits prod.splits if_splits)
  with checkBasicAuth_sound [OF assms(1)] show ?thesis by (auto simp: admin_credential_def is_admin_def)
next
  case (Some v)
  with assms(2) have "v = u" by (simp add: validAdminFromRequest_def)
  with token_loop_sound [OF Some] obtain tok name e where "is_admin (s_cfg s) u" "tok \<in> set (sessionTokens r)"
    "verifyToken now (c_SessionKey (s_cfg s)) tok = Some (name, e, u_TokenEpoch u)" "EqualFold (u_Username u) name"
    by blast
  then have "presents_token now r s u" unfolding presents_token_def list_ex_iff
    by (intro bexI [of _ tok]) simp_all
  with \<open>is_admin (s_cfg s) u\<close> show ?thesis by (simp add: admin_credential_def)
qed

lemma validAdminFromRequest_complete:
  assumes "store_auth_ok s" "index_ok s" "users_distinct (s_cfg s)" "admin_credential now r s u"
  shows "fst (validAdminFromRequest now r s) \<noteq> None"
proof (cases "presents_token now r s u")
  case True
  then obtain tok name e where "tok \<in> set (sessionTokens r)" "EqualFold (u_Username u) name"
    "verifyToken now (c_SessionKey (s_cfg s)) tok = Some (name, e, u_TokenEpoch u)"
    by (auto simp: presents_token_def list_ex_iff split: option.splits)
  then have "token_loop now s (sessionTokens r) \<noteq> None"
    using token_loop_complete [OF assms(2,3)] assms(4) by (auto simp: admin_credential_def)
  then show ?thesis by (auto simp: validAdminFromRequest_def)
next
  case False
  let ?h = "header_get (rq_Header r) ''Authorization''"
  from False assms(4) have u: "is_admin (s_cfg s) u" "presents_password ?h u" by (simp_all add: admin_credential_def)
  then have "fst (checkBasicAuth now ?h s) = Some u" "?h \<noteq> []"
    using checkBasicAuth_complete [OF assms(1-3)]
    by (auto simp: is_admin_def presents_password_def basic_cred_def)
  with u show ?thesis by (auto simp: validAdminFromRequest_def Let_def is_admin_def split: option.splits prod.splits)
qed

text \<open>Whether the limiters refuse a request before its credentials are looked at.\<close>

definition admin_throttled :: "time \<Rightarrow> Request \<Rightarrow> Proxy \<Rightarrow> bool" where
  "admin_throttled now r p \<longleftrightarrow> isBasicAuth r \<and> \<not> adminSessionValid now p r \<and>
     \<not> (fst (proxyAuthAllowed now (clientAddr r) (p_proxyAuthFails p))
        \<and> fst (accountAllowed now (basicUserName (header_get (rq_Header r) ''Authorization'')) (p_accountFails p)))"

lemma admin_admitted_cases:
  "fst (admin_admitted env r p) = (\<not> admin_throttled (e_now env) r p)"
  "p_store (snd (admin_admitted env r p)) = p_store p" "p_dummyHash (snd (admin_admitted env r p)) = p_dummyHash p"
  by (auto simp: admin_admitted_def admin_throttled_def split: prod.splits bool.splits)

lemma admin_refused_keeps:
  "cfg_of (admin_refused env r p) = cfg_of p" "auth_ok p \<Longrightarrow> auth_ok (admin_refused env r p)"
  by (auto simp: admin_refused_def Let_def auth_ok_def [of "p\<lparr>p_proxyAuthFails := a, p_accountFails := b\<rparr>" for a b]
      auth_ok_def [of p] intro!: equalizeAuthTiming_auth_ok)

lemma admin_accepted_keeps [simp]: "p_store (admin_accepted r u p) = p_store p" "p_dummyHash (admin_accepted r u p) = p_dummyHash p"
  by (simp_all add: admin_accepted_def)

lemma requireAdmin_throttled:
  assumes "admin_throttled (e_now env) r p"
  shows "requireAdmin env next r p =
    (writeJSON 429 (jerror ''too many failed authentication attempts, try again shortly''), snd (admin_admitted env r p))"
  using assms admin_admitted_cases(1) [of env r p] by (auto simp: requireAdmin_def split: prod.splits bool.splits)

text \<open>The state in which an admitted request's credentials have been looked at.\<close>

definition checked :: "Env \<Rightarrow> Request \<Rightarrow> Proxy \<Rightarrow> Proxy" where
  "checked env r p =
     (snd (admin_admitted env r p))\<lparr>p_store := snd (validAdminFromRequest (e_now env) r (p_store p))\<rparr>"

lemma checked_keeps:
  "cfg_of (checked env r p) = cfg_of p" "index_ok (p_store (checked env r p)) = index_ok (p_store p)"
  "auth_ok p \<Longrightarrow> auth_ok (checked env r p)"
  by (simp_all add: checked_def auth_ok_def validAdminFromRequest_state admin_admitted_cases)

lemma requireAdmin_admitted:
  assumes "\<not> admin_throttled (e_now env) r p"
  shows "requireAdmin env next r p =
    (case fst (validAdminFromRequest (e_now env) r (p_store p)) of
       None \<Rightarrow> (writeJSON 401 (jerror ''admin credentials required''), admin_refused env r (checked env r p))
     | Some u \<Rightarrow> next (as_admin u r) (admin_accepted r u (checked env r p)))"
  using assms admin_admitted_cases [of env r p]
  by (auto simp: requireAdmin_def checked_def split: prod.splits bool.splits option.splits)

section \<open>Properties of authentication\<close>

text \<open>A sequence of password checks.\<close>

fun run_checks :: "(time \<times> string \<times> string) list \<Rightarrow> Store \<Rightarrow> bool list \<times> Store" where
  "run_checks [] s = ([], s)"
| "run_checks ((now, hash, pw) # qs) s =
     (let (b, s') = verifyCached now hash pw s; (bs, s'') = run_checks qs s' in (b # bs, s''))"

lemma run_checks_calls: "run_checks qs s = verify.calls qs s"
  by (induction qs s rule: run_checks.induct) (auto split: prod.splits)

lemma fcard_fmdelete_if: "fcard (fmdom (fmdelete_if P m)) \<le> fcard (fmdom m)"
  by (rule fcard_mono) (auto simp: fmdelete_if_def)

lemma verifyCached_bound:
  assumes "fcard (fmdom (s_authCache s)) \<le> 4096"
  shows "fcard (fmdom (s_authCache (snd (verifyCached now hash pw s)))) \<le> 4096"
proof -
  have ins: "fcard (fmdom (fmupd k v m)) \<le> 4096" if "\<not> 4096 \<le> fcard (fmdom m)" for k v and m :: "(string, authCacheEntry) gomap"
    using that by (auto simp: fcard_finsert_if)
  have "fcard (fmdom (fmdelete_if P (s_authCache s))) \<le> 4096" for P
    using fcard_fmdelete_if assms by (rule order_trans)
  with ins assms show ?thesis
    unfolding verifyCached_def Let_def authCacheMax_def
    by (simp del: fmdom_fmupd split: option.split)
qed

text \<open>
  C23: caching never changes an answer and stays within its bound, as long as no stored hash contains a
  zero byte, the separator in the keys of the cache. Over any sequence of checks of passwords against such
  hashes, at any times, starting from the empty cache, every answer is that of
  \<open>VerifyPassword\<close> on the stored hash and the password presented, and the cache holds at
  most 4096 verdicts. (Hashes the program makes contain none; an import does not look for one, which
  is a finding.)
\<close>

theorem cached_checks_correct:
  assumes "s_authCache s = fmempty" "list_all (\<lambda>(now, hash, pw). nul \<notin> set hash) qs"
  shows "fst (run_checks qs s) = map (\<lambda>(now, hash, pw). VerifyPassword hash pw) qs
    \<and> fcard (fmdom (s_authCache (snd (run_checks qs s)))) \<le> 4096"
  unfolding run_checks_calls
proof
  have "verify.sound s" by (rule verify.soundI_empty) (simp add: cached_verdict_def assms)
  then show "fst (verify.calls qs s) = map (\<lambda>(now, hash, pw). VerifyPassword hash pw) qs"
    using verify.calls_correct assms(2) by blast
  show "fcard (fmdom (s_authCache (snd (verify.calls qs s)))) \<le> 4096"
    by (rule verify.calls_invariant) (auto simp: assms fcard_fempty intro: verifyCached_bound)
qed

theorem cached_checks_correct_witness:
  "fst (run_checks [(0, ''x'', ''p''), (5, ''x'', ''p'')] (rebuildIndex \<lparr>s_cfg = zero_config, s_byID = fmempty,
     s_byName = fmempty, s_authCache = fmempty\<rparr>)) = [False, False]"
proof -
  have "\<not> VerifyPassword ''x'' ''p''" by (simp add: VerifyPassword_def)
  moreover have "nul \<noteq> CHR ''x''" by code_simp
  ultimately show ?thesis
    using cached_checks_correct [of "rebuildIndex \<lparr>s_cfg = zero_config, s_byID = fmempty, s_byName = fmempty,
        s_authCache = fmempty\<rparr>" "[(0, ''x'', ''p''), (5, ''x'', ''p'')]"]
    by simp
qed

text \<open>
  C5: the admin API is reached exactly with an admin's credential. When names are unique, a
  request that no limiter refuses gets to the guarded handler if and only if it carries a session
  token of an enabled admin with the admin's present epoch, or an enabled admin's password, and the
  handler sees that admin's name; a stale cookie does not stand in the way of a good credential.
  Otherwise the answer is 401 or 429 whatever the handler is, and the configuration is as before. (The indexes and the
  password cache agree with the configuration.)
\<close>

theorem admin_gate:
  assumes "auth_ok p" "index_ok (p_store p)" "users_distinct (cfg_of p)"
  shows "if (\<exists>u. admin_credential (e_now env) r (p_store p) u) \<and> \<not> admin_throttled (e_now env) r p
    then \<exists>u p'. admin_credential (e_now env) r (p_store p) u \<and> cfg_of p' = cfg_of p
      \<and> (\<forall>next. requireAdmin env next r p = next (as_admin u r) p')
    else \<exists>resp p'. (rs_status resp = 401 \<or> rs_status resp = 429) \<and> cfg_of p' = cfg_of p
      \<and> (\<forall>next. requireAdmin env next r p = (resp, p'))"
proof -
  note ok = assms(1) [unfolded auth_ok_def, THEN conjunct1]
  show ?thesis
  proof (cases "admin_throttled (e_now env) r p")
    case True
    then show ?thesis
      by (auto simp: requireAdmin_throttled writeJSON_def admin_admitted_cases)
  next
    case False
    show ?thesis
    proof (cases "fst (validAdminFromRequest (e_now env) r (p_store p))")
      case None
      with validAdminFromRequest_complete [OF ok assms(2,3)] have "\<nexists>u. admin_credential (e_now env) r (p_store p) u"
        by blast
      with requireAdmin_admitted [OF False] None show ?thesis
        by (auto simp: writeJSON_def admin_refused_keeps checked_keeps)
    next
      case (Some u)
      with requireAdmin_admitted [OF False]
      have "\<forall>next. requireAdmin env next r p = next (as_admin u r) (admin_accepted r u (checked env r p))" by simp
      moreover have "admin_credential (e_now env) r (p_store p) u" by (rule validAdminFromRequest_sound [OF ok Some])
      moreover have "cfg_of (admin_accepted r u (checked env r p)) = cfg_of p" by (simp add: checked_keeps)
      ultimately have "\<exists>u p'. admin_credential (e_now env) r (p_store p) u \<and> cfg_of p' = cfg_of p
        \<and> (\<forall>next. requireAdmin env next r p = next (as_admin u r) p')" by blast
      then show ?thesis using False by (subst if_P) blast+
    qed
  qed
qed

lemma demo_auth_ok [simp]: "auth_ok demo_proxy" "store_auth_ok demo_store"
proof -
  have "nul \<notin> set ''pbkdf2$10000$00$''" by code_simp
  moreover have "verify.sound demo_store" by (rule verify.soundI_empty) (simp add: cached_verdict_def)
  ultimately show "auth_ok demo_proxy" "store_auth_ok demo_store"
    by (simp_all add: auth_ok_def store_auth_ok_def demo_admin_def demo_user_def)
qed

text \<open>A request with a session token issued at time 0, and the token's verdict.\<close>

definition demo_token :: "string \<Rightarrow> int \<Rightarrow> string" where
  "demo_token name epoch = issueToken 0 ''k'' name hour epoch"

lemma verify_demo_token [simp]:
  "name \<noteq> [] \<Longrightarrow> in_int64 epoch \<Longrightarrow> verifyToken 0 ''k'' (demo_token name epoch) = Some (name, 3600, epoch)"
  using verifyToken_issueToken [of name 0 hour epoch 0 "''k''"]
  by (simp add: demo_token_def unix_def hour_def minute_def second_def in_int64_def)

lemma demo_token_nonempty [simp]: "demo_token name epoch \<noteq> []"
  by (simp add: demo_token_def issueToken_def Let_def)

theorem admin_gate_witness:
  "let r = demo_request\<lparr>rq_Cookies := [(''fpx_session'', demo_token ''root'' 3)]\<rparr>
   in \<exists>u p'. is_admin demo_config u \<and> (\<forall>next. requireAdmin demo_env next r demo_proxy = next (as_admin u r) p')"
proof -
  define r where "r = demo_request\<lparr>rq_Cookies := [(''fpx_session'', demo_token ''root'' 3)]\<rparr>"
  have h: "header_get (rq_Header r) ''Authorization'' = []" by (simp add: r_def demo_request_def header_get_def)
  have t: "sessionTokens r = [demo_token ''root'' 3]"
    by (simp add: sessionTokens_def h HasPrefix_def cookie_def Let_def) (simp add: r_def)
  have "admin_credential (e_now demo_env) r (p_store demo_proxy) demo_admin"
    by (simp add: admin_credential_def is_admin_def presents_token_def t in_int64_def)
      (simp add: demo_admin_def EqualFold_def)
  moreover have "\<not> admin_throttled (e_now demo_env) r demo_proxy"
    by (simp add: admin_throttled_def isBasicAuth_def h HasPrefix_def)
  ultimately obtain u p' where "admin_credential (e_now demo_env) r (p_store demo_proxy) u"
    "\<forall>next. requireAdmin demo_env next r demo_proxy = next (as_admin u r) p'"
    using admin_gate [of demo_proxy demo_env r] by (auto split: if_splits)
  then show ?thesis unfolding r_def [symmetric] Let_def admin_credential_def by auto
qed

definition proxy_credential :: "Request \<Rightarrow> string" where
  "proxy_credential r = (if header_get (rq_Header r) ''Proxy-Authorization'' = []
     then header_get (rq_Header r) ''Authorization'' else header_get (rq_Header r) ''Proxy-Authorization'')"

lemma authorize_eq:
  "authorize env r ip p =
    (if \<not> px_RequireAuth (c_Proxy (cfg_of p)) then (Inr None, p)
     else
       let p1 = p\<lparr>p_proxyAuthFails := snd (proxyAuthAllowed (e_now env) ip (p_proxyAuthFails p))\<rparr>;
           h = proxy_credential r; s = snd (checkBasicAuth (e_now env) h (p_store p))
       in if \<not> fst (proxyAuthAllowed (e_now env) ip (p_proxyAuthFails p))
          then (Inl (429, ''too many failed authentication attempts from this address, try again shortly''), p1)
          else
            (case fst (checkBasicAuth (e_now env) h (p_store p)) of
               None \<Rightarrow>
                 (Inl (407, ''authentication required: invalid or missing credentials'' @ userNameHint (basicUserName h)),
                  equalizeAuthTiming env (basicUserName h) (basicPassword h)
                    (p1\<lparr>p_store := s, p_proxyAuthFails := proxyAuthFail (e_now env) ip (p_proxyAuthFails p1)\<rparr>))
             | Some u \<Rightarrow> (Inr (Some u), p1\<lparr>p_store := s, p_proxyAuthFails := proxyAuthOK ip (p_proxyAuthFails p1)\<rparr>)))"
  by (auto simp: authorize_def proxy_credential_def Let_def split: prod.splits option.splits)

lemma authorize_keeps:
  "cfg_of (snd (authorize env r ip p)) = cfg_of p" "p_rules (snd (authorize env r ip p)) = p_rules p"
  "p_conns (snd (authorize env r ip p)) = p_conns p" "p_live (snd (authorize env r ip p)) = p_live p"
  "p_daily (snd (authorize env r ip p)) = p_daily p" "p_logs (snd (authorize env r ip p)) = p_logs p"
  "p_disk (snd (authorize env r ip p)) = p_disk p"
  by (auto simp: authorize_eq Let_def split: option.splits)

lemma authorize_user:
  assumes "auth_ok p" "fst (authorize env r ip p) = Inr (Some u)"
  shows "px_RequireAuth (c_Proxy (cfg_of p)) \<and> u \<in> set (c_Users (cfg_of p)) \<and> u_Enabled u
    \<and> presents_password (proxy_credential r) u"
  using assms checkBasicAuth_sound [of "p_store p" "e_now env" "proxy_credential r" u]
  by (auto simp: authorize_eq Let_def auth_ok_def split: if_splits option.splits)

text \<open>
  C6: the proxy port lets in exactly who it should. Without \<open>RequireAuth\<close> everyone is
  anonymous. With it, when names are unique and the address is not cooling down, the caller is
  resolved to a user if and only if that user is enabled and the request carries the user's name and
  password; every other request is refused with 407, and any request of a cooling address with 429
  before its credentials are looked at. No outcome changes the configuration. (The indexes and the
  password cache agree with it.)
\<close>

theorem authorize_exact:
  assumes "auth_ok p" "index_ok (p_store p)" "users_distinct (cfg_of p)"
  shows "fst (authorize env r ip p) =
      (if \<not> px_RequireAuth (c_Proxy (cfg_of p)) then Inr None
       else if \<not> fst (proxyAuthAllowed (e_now env) ip (p_proxyAuthFails p))
       then Inl (429, ''too many failed authentication attempts from this address, try again shortly'')
       else
         case find (\<lambda>u. u_Enabled u \<and> presents_password (proxy_credential r) u) (c_Users (cfg_of p)) of
           Some u \<Rightarrow> Inr (Some u)
         | None \<Rightarrow> Inl (407, ''authentication required: invalid or missing credentials''
                     @ userNameHint (basicUserName (proxy_credential r))))
    \<and> cfg_of (snd (authorize env r ip p)) = cfg_of p"
proof -
  note ok = assms(1) [unfolded auth_ok_def, THEN conjunct1]
  let ?h = "proxy_credential r"
  have "fst (checkBasicAuth (e_now env) ?h (p_store p)) =
      find (\<lambda>u. u_Enabled u \<and> presents_password ?h u) (c_Users (cfg_of p))"
    by (rule checkBasicAuth_find [OF ok assms(2,3)])
  then show ?thesis
    using authorize_keeps(1) [of env r ip p] by (auto simp: authorize_eq Let_def split: option.splits)
qed

theorem authorize_exact_witness:
  "fst (authorize demo_env demo_request ''10.0.0.1'' demo_proxy) =
     Inl (407, ''authentication required: invalid or missing credentials'')"
proof -
  have "proxy_credential demo_request = []" by (simp add: proxy_credential_def demo_request_def header_get_def)
  moreover from this have "\<not> presents_password (proxy_credential demo_request) u" for u
    by (simp add: presents_password_def basic_cred_def)
  ultimately show ?thesis
    using authorize_exact [of demo_proxy demo_env demo_request "''10.0.0.1''"]
    by (simp add: userNameHint_def basicUserName_def basic_cred_def proxyAuthAllowed_def)
qed

text \<open>
  Requests on the proxy port, authenticated one after another, with ticks of \<open>FlushStats\<close>
  (a pair without a request) in between: the client address and the result of each.
\<close>

fun authorize_run :: "(Env \<times> Request option) list \<Rightarrow> Proxy \<Rightarrow> (string \<times> ((int \<times> string) + User option)) list" where
  "authorize_run [] p = []"
| "authorize_run ((env, None) # es) p = authorize_run es (FlushStats env p)"
| "authorize_run ((env, Some r) # es) p =
     (clientAddr r, fst (authorize env r (clientAddr r) p)) # authorize_run es (snd (authorize env r (clientAddr r) p))"

definition refused_407 :: "string \<Rightarrow> string \<times> ((int \<times> string) + User option) \<Rightarrow> bool" where
  "refused_407 ip x \<longleftrightarrow> fst x = ip \<and> (\<exists>reason. snd x = Inl (407, reason))"

definition let_in :: "string \<Rightarrow> string \<times> ((int \<times> string) + User option) \<Rightarrow> bool" where
  "let_in ip x \<longleftrightarrow> fst x = ip \<and> (\<exists>u. snd x = Inr (Some u))"

lemma FlushStats_fails:
  "p_loginFails (FlushStats env p) = prune_fails loginFailWindow (e_now env) (p_loginFails p)"
  "p_accountFails (FlushStats env p) = prune_fails loginFailWindow (e_now env) (p_accountFails p)"
  "p_proxyAuthFails (FlushStats env p) = prune_fails proxyFailWindow (e_now env) (p_proxyAuthFails p)"
  by (simp_all add: FlushStats_def pruneAuthFailures_def prune_fails_def update_silent_def Let_def split_beta)

abbreviation proxy_budget :: "time \<Rightarrow> string \<Rightarrow> Proxy \<Rightarrow> int" where
  "proxy_budget a ip p \<equiv> proxyAuth.budget a (fmlookup (p_proxyAuthFails p) ip)"

lemma proxy_map_ok: "proxy_fails_ok m \<Longrightarrow> \<forall>j f. fmlookup m j = Some f \<longrightarrow> entry_ok proxyMaxFails proxyCooldown f"
  by (simp add: fails_ok_iff proxyMaxFails_def proxyCooldown_def)

lemma authorize_spends:
  assumes "proxy_fails_ok (p_proxyAuthFails p)" "a \<le> e_now env" "e_now env < a + proxyCooldown"
    "\<not> let_in ip (from, fst (authorize env r from p))"
  shows "(if refused_407 ip (from, fst (authorize env r from p)) then 1 else 0) + proxy_budget a ip (snd (authorize env r from p))
      \<le> proxy_budget a ip p
    \<and> proxy_fails_ok (p_proxyAuthFails (snd (authorize env r from p)))"
proof -
  let ?m = "p_proxyAuthFails p" and ?t = "e_now env"
  note ok = proxy_map_ok [OF assms(1)]
  note f = proxyAuth.spend_fail [OF ok TrueI assms(2,3), of "from" ip]
  note c = proxyAuth.spend_check [OF ok TrueI assms(2,3), of "from" ip]
  note s = proxyAuth.spend_succeed [OF ok TrueI assms(2,3), of "from" ip]
  note inv = proxyAuthFails_invariant [OF assms(1)] proxyAuthFails_invariant [OF proxyAuthFails_invariant(1) [OF assms(1), of ?t "from"]]
  show ?thesis
  proof (cases "px_RequireAuth (c_Proxy (cfg_of p)) \<and> fst (proxyAuthAllowed ?t from ?m)")
    case False
    then show ?thesis using c inv assms(1) by (auto simp: authorize_eq refused_407_def Let_def)
  next
    case True
    then show ?thesis
      using f c s inv assms(4)
      by (cases "fst (checkBasicAuth ?t (proxy_credential r) (p_store p))")
        (auto simp: authorize_eq refused_407_def let_in_def Let_def)
  qed
qed

lemma authorize_run_spends:
  assumes "proxy_fails_ok (p_proxyAuthFails p)" "\<forall>(env, x) \<in> set es. a \<le> e_now env \<and> e_now env < a + proxyCooldown"
    "\<forall>x \<in> set (authorize_run es p). \<not> let_in ip x"
  shows "int (length (filter (refused_407 ip) (authorize_run es p))) \<le> proxy_budget a ip p"
  using assms
proof (induction es p rule: authorize_run.induct)
  case (1 p)
  then show ?case using proxyAuth.budget_initial [OF proxy_map_ok, of "p_proxyAuthFails p" a ip] by simp
next
  case (2 env es p)
  have "proxy_budget a ip (FlushStats env p) \<le> proxy_budget a ip p"
    unfolding FlushStats_fails using 2(2,3) by (intro proxyAuth.spend_prune [OF proxy_map_ok]) auto
  moreover have "proxy_fails_ok (p_proxyAuthFails (FlushStats env p))"
    unfolding FlushStats_fails by (rule proxyAuthFails_invariant [OF 2(2)])
  ultimately show ?case using 2 by simp
next
  case (3 env r es p)
  have t: "a \<le> e_now env" "e_now env < a + proxyCooldown" using 3(3) by auto
  have "\<not> let_in ip (clientAddr r, fst (authorize env r (clientAddr r) p))" using 3(4) by simp
  from authorize_spends [OF 3(2) t this] 3(1,3,4) show ?case by auto
qed

text \<open>
  C25: a bound on guessing at the proxy port that no choice of times defeats. Requests are
  authenticated one after another, from any addresses and with any credentials, with pruning ticks in
  between, all within 60 seconds. If none of those from an address is resolved to a user, which would clear the
  count of that address, then at most 59 of them are answered 407, that is, have their
  credentials looked at and found wrong or missing; this holds whatever (well-formed) record of failures there
  is at the start.
\<close>

theorem proxy_guess_bound:
  assumes "proxy_fails_ok (p_proxyAuthFails p)"
    and "\<forall>(env, x) \<in> set es. a \<le> e_now env \<and> e_now env < a + 60 * second"
    and "\<forall>x \<in> set (authorize_run es p). \<not> let_in ip x"
  shows "length (filter (refused_407 ip) (authorize_run es p)) \<le> 59"
proof -
  have "proxy_budget a ip p \<le> 59"
    using proxyAuth.budget_initial [OF proxy_map_ok [OF assms(1)], of a ip] by (simp add: proxyMaxFails_def)
  moreover have "int (length (filter (refused_407 ip) (authorize_run es p))) \<le> proxy_budget a ip p"
    by (rule authorize_run_spends) (use assms in \<open>simp_all add: proxyCooldown_def\<close>)
  ultimately show ?thesis by linarith
qed

theorem proxy_guess_bound_witness:
  "refused_407 ''10.0.0.1'' (''10.0.0.1'', fst (authorize demo_env demo_request ''10.0.0.1'' demo_proxy))
    \<and> length (filter (refused_407 ''10.0.0.1'') (authorize_run [(demo_env, None), (demo_env, Some demo_request)] demo_proxy)) \<le> 59"
proof -
  have nobody: "fst (checkBasicAuth 0 (proxy_credential demo_request) s) = None" for s
  proof -
    have "proxy_credential demo_request = []" by (simp add: proxy_credential_def demo_request_def header_get_def)
    then show ?thesis by (simp add: checkBasicAuth_def basic_cred_def)
  qed
  then have "\<not> let_in ip (ip', fst (authorize demo_env demo_request ip' q))" for ip ip' q
    by (auto simp: let_in_def authorize_eq Let_def)
  moreover have "refused_407 ''10.0.0.1'' (''10.0.0.1'', fst (authorize demo_env demo_request ''10.0.0.1'' demo_proxy))"
    by (simp add: refused_407_def authorize_eq nobody proxyAuthAllowed_def Let_def)
  ultimately show ?thesis
    using proxy_guess_bound [of demo_proxy "[(demo_env, None), (demo_env, Some demo_request)]" 0 "''10.0.0.1''"]
    by (simp add: second_def)
qed

text \<open>
  C40: a signed but revoked session token switches the limiters off. When the request carries a
  token that is correctly signed and not expired, though its epoch or its user no longer counts, a
  wrong Basic password is answered with 401, no failure is recorded, and the limiters are not asked:
  the outcome is the same whatever they say of the address and the account.
\<close>

theorem revoked_token_evades_throttle:
  assumes "adminSessionValid (e_now env) p r"
    and "fst (validAdminFromRequest (e_now env) r (p_store p)) = None"
  shows "\<exists>p'. requireAdmin env next r p = (writeJSON 401 (jerror ''admin credentials required''), p')
    \<and> p_proxyAuthFails p' = p_proxyAuthFails p \<and> p_accountFails p' = p_accountFails p"
proof -
  have a: "adminSessionValid (e_now env) (checked env r p) r"
    using assms(1) checked_keeps(1) [of env r p] by (simp add: adminSessionValid_def)
  moreover have "snd (admin_admitted env r p) = p" using assms(1) by (simp add: admin_admitted_def)
  ultimately show ?thesis
    using assms requireAdmin_admitted [of env r p "next"]
    by (auto simp: admin_throttled_def admin_refused_def Let_def checked_def)
qed

theorem revoked_token_evades_throttle_witness:
  "let r = demo_request\<lparr>rq_Cookies := [(''fpx_session'', demo_token ''root'' 2)],
             rq_Header := header_set ''Authorization'' ''Basic cm9vdA=='' fmempty\<rparr>
   in \<exists>p'. requireAdmin demo_env (\<lambda>_ p. (writeJSON 200 JNull, p)) r demo_proxy
        = (writeJSON 401 (jerror ''admin credentials required''), p')
      \<and> p_proxyAuthFails p' = fmempty \<and> p_accountFails p' = fmempty"
proof -
  define r where "r = demo_request\<lparr>rq_Cookies := [(''fpx_session'', demo_token ''root'' 2)],
             rq_Header := header_set ''Authorization'' ''Basic cm9vdA=='' fmempty\<rparr>"
  have h: "header_get (rq_Header r) ''Authorization'' = ''Basic cm9vdA==''" by (simp add: r_def)
  have t: "sessionTokens r = [demo_token ''root'' 2]"
    by (simp add: sessionTokens_def h HasPrefix_def cookie_def Let_def) (simp add: r_def)
  have "basic_cred ''Basic cm9vdA=='' = None" by code_simp
  moreover have "token_loop 0 demo_store [demo_token ''root'' 2] = None"
    using FindUserByName_SomeD [of demo_store "''root''"]
    by (auto simp: in_int64_def demo_admin_def demo_user_def split: option.splits)
  ultimately have "fst (validAdminFromRequest (e_now demo_env) r (p_store demo_proxy)) = None"
    by (simp add: validAdminFromRequest_def t h checkBasicAuth_def)
  moreover have "adminSessionValid (e_now demo_env) demo_proxy r"
    by (simp add: adminSessionValid_def t in_int64_def)
  ultimately show ?thesis
    using revoked_token_evades_throttle [of demo_env demo_proxy r "\<lambda>_ p. (writeJSON 200 JNull, p)"]
    unfolding r_def [symmetric] Let_def by simp
qed

end
