(* ===== verification/Forward.thy ===== *)
theory Forward
  imports Auth
begin

text \<open>
  The proxy port of \<^verbatim>\<open>proxy.go\<close>: \<open>ServeHTTP\<close>, plain-HTTP forwarding, CONNECT tunnels,
  and the helpers they use.

  What the network does is an argument, a record \<open>Net\<close>: the outcome of
  \<open>http.Transport\<close>'s \<open>RoundTrip\<close> and \<open>DialContext\<close> as functions of what the
  proxy asks for, the reads and writes on the connections as finite sequences of events, and the
  time at which a transfer has ended. A handler answers the client and reports, in order, what it
  asked of the outside world (\<open>outward\<close>).
\<close>

section \<open>Helpers\<close>

definition Version :: string where "Version = ''1.0.11''"

definition hopByHopHeaders :: "string list" where
  "hopByHopHeaders =
     [''Connection'', ''Keep-Alive'', ''Proxy-Authenticate'', ''Proxy-Authorization'',
      ''TE'', ''Trailers'', ''Trailer'', ''Transfer-Encoding'', ''Upgrade'']"

text \<open>The canonical spelling of a header name, under which a header map stores it.\<close>

definition upper_char :: "char \<Rightarrow> char" where
  "upper_char c = (if 97 \<le> byte_of c \<and> byte_of c \<le> 122 then char_of (byte_of c - 32) else c)"

fun canonical :: "bool \<Rightarrow> string \<Rightarrow> string" where
  "canonical upper [] = []"
| "canonical upper (c # cs) =
     (if upper then upper_char c else lower_char c) # canonical (c = CHR ''-'') cs"

definition CanonicalHeaderKey :: "string \<Rightarrow> string" where
  "CanonicalHeaderKey k = canonical True k"

definition removeHopHeaders :: "header \<Rightarrow> header" where
  "removeHopHeaders h = foldl (\<lambda>h k. header_del (CanonicalHeaderKey k) h) h hopByHopHeaders"

definition isHop :: "string \<Rightarrow> bool" where
  "isHop lk = list_ex (\<lambda>k. EqualFold k lk) hopByHopHeaders"

text \<open>Ranging over the source map: each of its values is added under its key.\<close>

definition copyResponseHeaders :: "header \<Rightarrow> header \<Rightarrow> header" where
  "copyResponseHeaders src dst =
     (dst ++\<^sub>f fmmap_keys (\<lambda>k vs. (case fmlookup dst k of None \<Rightarrow> [] | Some old \<Rightarrow> old) @ vs)
       (fmfilter (\<lambda>k. \<not> isHop (ToLower k) \<and> fmlookup src k \<noteq> Some []) src))"

definition whoName :: "User option \<Rightarrow> string" where
  "whoName u = (case u of None \<Rightarrow> ''anonymous'' | Some v \<Rightarrow> u_Username v)"

definition shortPath :: "Request \<Rightarrow> string" where
  "shortPath r = (let p = ul_RequestURI (rq_URL r) in if length p > 200 then take 200 p else p)"

definition maxInt64 :: "int \<Rightarrow> int" where
  "maxInt64 n = (if n < 0 then 0 else n)"

definition user_id :: "User option \<Rightarrow> string" where
  "user_id u = (case u of None \<Rightarrow> [] | Some v \<Rightarrow> u_ID v)"

text \<open>\<open>net.IP.Equal\<close>, which takes an IPv4 address and its IPv6-mapped form for the same.\<close>

definition IP_Equal :: "ip \<Rightarrow> ip \<Rightarrow> bool" where
  "IP_Equal a b =
     (if length a = length b then a = b
      else if length a = 4 \<and> length b = 16 then take 12 b = v4InV6Prefix \<and> a = drop 12 b
      else if length a = 16 \<and> length b = 4 then take 12 a = v4InV6Prefix \<and> drop 12 a = b
      else False)"

definition isSinkholeAddress :: "ip \<Rightarrow> bool" where
  "isSinkholeAddress ip \<longleftrightarrow> IP_Equal ip (v4InV6Prefix @ [0, 0, 0, 0]) \<or> IP_Equal ip (replicate 16 0)"

text \<open>\<open>net.LookupHost\<close> is the function \<open>e_lookup\<close>, \<^const>\<open>None\<close> an error.\<close>

definition dialSinkholeReason :: "(string \<Rightarrow> string list option) \<Rightarrow> string \<Rightarrow> string" where
  "dialSinkholeReason lookup hostport =
     (let host = (case SplitHostPort hostport of None \<Rightarrow> hostport | Some (h, _) \<Rightarrow> h) in
      if host = [] then []
      else
        case lookup host of None \<Rightarrow> []
        | Some addrs \<Rightarrow>
           if addrs = [] then []
           else if list_all (\<lambda>a. case ParseIP a of None \<Rightarrow> False | Some ip \<Rightarrow> isSinkholeAddress ip) addrs
           then ''DNS resolved '' @ quote host @ '' only to a blocked address ('' @ JoinBy '', '' addrs
                @ ''); the domain appears to be blocked by a DNS filter or ad-blocker''
           else [])"

section \<open>The outside world\<close>

text \<open>
  A round trip: the sizes of the reads the transport made of the request body, then an error and
  whether the deadline has passed, or a response. The body of a response is the sequence of its
  reads, each with the data, whether the read also reported an end or an error, and, if writing the
  data to the client failed, after how many bytes.
\<close>

type_synonym read_event = "string \<times> bool \<times> nat option"

record UpstreamResponse =
  up_StatusCode :: int
  up_Header :: header
  up_Body :: "read_event list"

record RoundTrip =
  rt_reads :: "nat list"
  rt_result :: "(string \<times> bool) + UpstreamResponse"

text \<open>
  A tunnel direction: the reads of one side, each with the data, whether it reported an end or an
  error, and, if writing the data to the other side failed, how many of its bytes got through.
\<close>

type_synonym tunnel_event = "string \<times> bool \<times> nat option"

record Net =
  nt_RoundTrip :: "Request \<Rightarrow> RoundTrip"
  nt_later :: time
  nt_hijacker :: bool
  nt_hijack :: "string option"
  nt_DialContext :: "string \<Rightarrow> string option"
  nt_deadline_ok :: bool
  nt_buffered :: string
  nt_readfull_ok :: bool
  nt_leftover_ok :: bool
  nt_from_client :: "tunnel_event list"
  nt_from_upstream :: "tunnel_event list"

datatype answer = Answered Response | Hijacked string

datatype outward = Forwarded Request | Dialled string | Sent string

definition after :: "Net \<Rightarrow> Env \<Rightarrow> Env" where
  "after net env = env\<lparr>e_now := nt_later net\<rparr>"

definition elapsed_ms :: "Net \<Rightarrow> Env \<Rightarrow> int" where
  "elapsed_ms net env = go_div (nt_later net - e_now env) 1000000"

section \<open>Refusing\<close>

definition denyAs :: "Env \<Rightarrow> User option \<Rightarrow> Request \<Rightarrow> int \<Rightarrow> string \<Rightarrow> Proxy \<Rightarrow> Response \<times> Proxy" where
  "denyAs env user r status reason p =
     (let name0 = whoName user;
          hdr0 = header_get (rq_Header r) ''Proxy-Authorization'';
          hdr = (if hdr0 = [] then header_get (rq_Header r) ''Authorization'' else hdr0);
          name = (if name0 = [] then basicUserName hdr else name0);
          h0 = (if status = 407
                then header_set ''Www-Authenticate'' (''Basic realm='' @ quote ''forward-proxy'')
                       (header_set ''Proxy-Authenticate'' (''Basic realm='' @ quote ''forward-proxy'') fmempty)
                else fmempty);
          h = header_set ''Content-Type'' ''text/plain; charset=utf-8'' h0
      in (\<lparr>rs_status = status, rs_header = h, rs_cookies = [], rs_body = ''forward-proxy: '' @ reason @ [newline]\<rparr>,
          log_add env (zero_entry\<lparr>le_User := name, le_Method := rq_Method r,
            le_Host := normalizeHost (ul_Host (rq_URL r)), le_Path := shortPath r, le_Status := status,
            le_Outcome := ''DENIED: '' @ reason, le_Client := clientAddr r\<rparr>) p))"

definition deny :: "Env \<Rightarrow> Request \<Rightarrow> int \<Rightarrow> string \<Rightarrow> Proxy \<Rightarrow> Response \<times> Proxy" where
  "deny env = denyAs env None"

text \<open>The multiplication of \<open>checkAccess\<close> is in \<open>uint64\<close>.\<close>

definition checkAccess :: "time \<Rightarrow> User option \<Rightarrow> string \<Rightarrow> Proxy \<Rightarrow> int \<times> string" where
  "checkAccess now user host p =
     (let h = normalizeHost host in
      if h = [] then (400, ''no target host'')
      else
        let d = Evaluate (p_rules p) user h in
        if \<not> d_Allowed d then (403, d_Reason d)
        else
          case user of None \<Rightarrow> (0, [])
          | Some u \<Rightarrow>
             if u_DailyTrafficMB u > 0 \<and>
                (word_of_int (u_DailyTrafficMB u) * 1024 * 1024 :: uint64) \<le> dailyBytes now (u_ID u) (p_daily p)
             then (403, ''daily traffic limit exceeded ('' @ int_dec (u_DailyTrafficMB u) @ '' MB)'')
             else (0, []))"

definition enter :: "User option \<Rightarrow> Config \<Rightarrow> Proxy \<Rightarrow> (int \<times> string) \<times> Proxy" where
  "enter user cfg p = (case tryEnterConn user (c_Proxy cfg) (p_conns p) of (res, c) \<Rightarrow> (res, p\<lparr>p_conns := c\<rparr>))"

definition leave :: "string \<Rightarrow> Proxy \<Rightarrow> Proxy" where
  "leave uid p = p\<lparr>p_conns := exitConn uid (p_conns p)\<rparr>"

text \<open>\<open>p.live.add\<close> followed by \<open>p.addDaily\<close>, as both handlers call them.\<close>

definition account :: "time \<Rightarrow> string \<Rightarrow> uint64 \<Rightarrow> uint64 \<Rightarrow> Proxy \<Rightarrow> Proxy" where
  "account now uid inb outb p =
     p\<lparr>p_live := live_add now uid inb outb (p_live p), p_daily := addDaily now uid (inb + outb) (p_daily p)\<rparr>"

text \<open>
  The answer of a handler that refuses: nothing is asked of the outside world.
\<close>

definition refuse ::
  "Env \<Rightarrow> User option \<Rightarrow> Request \<Rightarrow> int \<Rightarrow> string \<Rightarrow> Proxy \<Rightarrow> answer \<times> outward list \<times> Proxy"
where
  "refuse env user r st reason p = (case denyAs env user r st reason p of (resp, p') \<Rightarrow> (Answered resp, [], p'))"

text \<open>
  The lines both handlers share: rules and quota, the reservation of the slot, the work, and the
  deferred release.
\<close>

definition with_slot ::
  "Env \<Rightarrow> User option \<Rightarrow> Config \<Rightarrow> string \<Rightarrow> Request \<Rightarrow> (Proxy \<Rightarrow> answer \<times> outward list \<times> Proxy)
   \<Rightarrow> Proxy \<Rightarrow> answer \<times> outward list \<times> Proxy"
where
  "with_slot env user cfg host r work p =
     (case checkAccess (e_now env) user host p of
        (st, reason) \<Rightarrow>
          if st \<noteq> 0 then refuse env user r st reason p
          else
            (case enter user cfg p of
               ((st, reason), p1) \<Rightarrow>
                 if st \<noteq> 0 then refuse env user r st reason p1
                 else (case work p1 of (ans, acts, p2) \<Rightarrow> (ans, acts, leave (user_id user) p2))))"

section \<open>Plain-HTTP forwarding\<close>

text \<open>\<open>countReader\<close>: the bytes the transport has read of the request body.\<close>

definition countReader_Read :: "int \<Rightarrow> nat \<Rightarrow> int" where
  "countReader_Read n k = n + int k"

text \<open>
  The streaming loop: the bytes that have reached the client when it ends. The writer of
  \<^verbatim>\<open>net/http\<close> is a \<open>Flusher\<close>; \<open>io.Copy\<close>, the other branch, delivers the same.
\<close>

fun stream_loop :: "read_event list \<Rightarrow> string" where
  "stream_loop [] = []"
| "stream_loop ((data, rerr, werr) # es) =
     (if data \<noteq> [] then
        (case werr of Some k \<Rightarrow> take k data
         | None \<Rightarrow> data @ (if rerr then [] else stream_loop es))
      else if rerr then [] else stream_loop es)"

text \<open>The outgoing request.\<close>

definition outgoing :: "string \<Rightarrow> Request \<Rightarrow> Request" where
  "outgoing clientIP r =
     (let h = removeHopHeaders (rq_Header r);
          xff0 = header_get h ''X-Forwarded-For'';
          xff = (if xff0 \<noteq> [] then xff0 @ '', '' else xff0)
      in r\<lparr>rq_Header := header_set ''X-Forwarded-By'' (''forward-proxy/'' @ Version)
             (header_set ''X-Forwarded-For'' (xff @ clientIP) h)\<rparr>)"

text \<open>The part of \<open>handleForward\<close> between the reservation of the slot and its release.\<close>

definition forward_reserved ::
  "Env \<Rightarrow> Net \<Rightarrow> User option \<Rightarrow> Request \<Rightarrow> Proxy \<Rightarrow> answer \<times> outward list \<times> Proxy"
where
  "forward_reserved env net user r p =
     (let clientIP = clientAddr r; out = outgoing clientIP r; rt = nt_RoundTrip net out;
          target = rq_URL r; uid = user_id user
      in case rt_result rt of
           Inl (err, deadline) \<Rightarrow>
             (let status = (if deadline then 504 else 502);
                  sr = dialSinkholeReason (e_lookup env) (ul_Host target);
                  reason = (if sr \<noteq> [] then ''upstream error: '' @ sr else ''upstream error: '' @ err)
              in case denyAs (after net env) user r status reason p of
                   (resp, p') \<Rightarrow> (Answered resp, [Forwarded out], p'))
         | Inr resp \<Rightarrow>
             (let body = stream_loop (up_Body resp);
                  reqBytes = word_of_int (maxInt64 (foldl countReader_Read 0 (rt_reads rt)));
                  n = word_of_int (int (length body));
                  p1 = account (nt_later net) uid reqBytes n p;
                  p2 = log_add (after net env) (zero_entry\<lparr>le_User := whoName user, le_Method := rq_Method r,
                         le_Host := normalizeHost (ul_Host target), le_Path := take 200 (ul_RequestURI target),
                         le_Status := up_StatusCode resp, le_Outcome := ''ALLOWED'', le_BytesIn := reqBytes,
                         le_BytesOut := n, le_DurationMs := elapsed_ms net env, le_Client := clientIP\<rparr>) p1
              in (Answered \<lparr>rs_status = up_StatusCode resp, rs_header = copyResponseHeaders (up_Header resp) fmempty,
                   rs_cookies = [], rs_body = body\<rparr>, [Forwarded out], p2)))"

definition handleForward :: "Env \<Rightarrow> Net \<Rightarrow> Request \<Rightarrow> Proxy \<Rightarrow> answer \<times> outward list \<times> Proxy" where
  "handleForward env net r p =
     (let cfg = cfg_of p; clientIP = clientAddr r; target = rq_URL r in
      if \<not> px_Enabled (c_Proxy cfg) then refuse env None r 503 ''proxy is disabled'' p
      else if \<not> px_AllowHTTP (c_Proxy cfg) then refuse env None r 403 ''plain-HTTP proxying is disabled'' p
      else if ul_Scheme target \<noteq> [] \<and> ul_Scheme target \<noteq> ''http''
      then refuse env None r 400 (''unsupported URL scheme: '' @ ul_Scheme target) p
      else
        case authorize env r clientIP p of
          (Inl (status, reason), p1) \<Rightarrow> refuse env None r status reason p1
        | (Inr user, p1) \<Rightarrow>
            with_slot env user cfg (ul_Host target) r (forward_reserved env net user r) p1)"

section \<open>CONNECT tunnels\<close>

text \<open>
  \<open>copySide\<close>: the counter at the end, and the data that reached the other side. The counter
  takes a read as a whole before it is written.
\<close>

fun copySide :: "tunnel_event list \<Rightarrow> uint64 \<Rightarrow> uint64 \<times> string" where
  "copySide [] n = (n, [])"
| "copySide ((data, err, werr) # es) n =
     (if data \<noteq> [] then
        (let n' = n + word_of_int (int (length data)) in
         case werr of Some k \<Rightarrow> (n', take k data)
         | None \<Rightarrow> if err then (n', data) else (case copySide es n' of (m, rest) \<Rightarrow> (m, data @ rest)))
      else if err then (n, []) else copySide es n)"

text \<open>
  \<open>runTunnel\<close>: the two directions count in separate variables and are both waited for; each
  one's closing of its destination shows as an error in the other's reads.
\<close>

definition runTunnel :: "tunnel_event list \<Rightarrow> tunnel_event list \<Rightarrow> (uint64 \<times> string) \<times> (uint64 \<times> string)" where
  "runTunnel a b = (copySide a 0, copySide b 0)"

definition crlf :: string where "crlf = [char_of (13 :: nat), char_of (10 :: nat)]"

definition writeRawStatus :: "string \<Rightarrow> string" where
  "writeRawStatus reason =
     (let body = ''forward-proxy: '' @ reason @ [newline] in
      ''HTTP/1.1 502 Bad Gateway'' @ crlf @ ''Content-Type: text/plain; charset=utf-8'' @ crlf
      @ ''Content-Length: '' @ int_dec (int (length body)) @ crlf @ ''Connection: close'' @ crlf @ crlf @ body)"

text \<open>The part after the hijack. \<open>Hijacked\<close> holds the bytes written to the client.\<close>

definition connect_hijacked ::
  "Env \<Rightarrow> Net \<Rightarrow> User option \<Rightarrow> string \<Rightarrow> Request \<Rightarrow> Proxy \<Rightarrow> answer \<times> outward list \<times> Proxy"
where
  "connect_hijacked env net user target r p =
     (let clientIP = clientAddr r; uid = user_id user;
          entry = zero_entry\<lparr>le_User := whoName user, le_Method := ''CONNECT'', le_Host := normalizeHost target,
                    le_Client := clientIP, le_DurationMs := elapsed_ms net env\<rparr>
      in case nt_DialContext net target of
           Some err \<Rightarrow>
             (let sr = dialSinkholeReason (e_lookup env) target; reason = (if sr \<noteq> [] then sr else err)
              in (Hijacked (writeRawStatus (''upstream connect failed: '' @ reason)), [Dialled target],
                  log_add (after net env) (entry\<lparr>le_Status := 502, le_Outcome := ''ERROR: '' @ reason\<rparr>) p))
         | None \<Rightarrow>
             (let greeting = (if nt_deadline_ok net then ''HTTP/1.1 200 Connection Established'' @ crlf @ crlf else []);
                  buffered = nt_buffered net;
                  forwards = (buffered \<noteq> [] \<and> nt_readfull_ok net);
                  acts = Dialled target # (if forwards then [Sent buffered] else [])
              in if forwards \<and> \<not> nt_leftover_ok net then (Hijacked greeting, acts, p)
                 else
                   let p1 = (if forwards
                             then account (e_now env) uid (word_of_int (int (length buffered))) 0 p else p)
                   in case runTunnel (nt_from_client net) (nt_from_upstream net) of
                        ((bytesIn, up), (bytesOut, down)) \<Rightarrow>
                          (Hijacked (greeting @ down), acts @ [Sent up],
                           log_add (after net env) (entry\<lparr>le_Status := 200, le_Outcome := ''CONNECT'',
                               le_BytesIn := bytesIn, le_BytesOut := bytesOut\<rparr>)
                             (account (nt_later net) uid bytesIn bytesOut p1))))"

definition connect_reserved ::
  "Env \<Rightarrow> Net \<Rightarrow> User option \<Rightarrow> string \<Rightarrow> Request \<Rightarrow> Proxy \<Rightarrow> answer \<times> outward list \<times> Proxy"
where
  "connect_reserved env net user target r p =
     (if \<not> nt_hijacker net then refuse env None r 502 ''hijacking unsupported'' p
      else
        case nt_hijack net of
          Some err \<Rightarrow> refuse env None r 502 (''hijack failed: '' @ err) p
        | None \<Rightarrow> connect_hijacked env net user target r p)"

definition handleConnect :: "Env \<Rightarrow> Net \<Rightarrow> Request \<Rightarrow> Proxy \<Rightarrow> answer \<times> outward list \<times> Proxy" where
  "handleConnect env net r p =
     (let cfg = cfg_of p; clientIP = clientAddr r in
      if \<not> px_Enabled (c_Proxy cfg) then refuse env None r 503 ''proxy is disabled'' p
      else if \<not> px_AllowHTTPS (c_Proxy cfg) then refuse env None r 403 ''HTTPS CONNECT is disabled'' p
      else
        case authorize env r clientIP p of
          (Inl (status, reason), p1) \<Rightarrow> refuse env None r status reason p1
        | (Inr user, p1) \<Rightarrow>
            let target = normalizeTarget (rq_Host r) in
            if target = [] then refuse env None r 400 ''CONNECT target missing'' p1
            else with_slot env user cfg target r (connect_reserved env net user target r) p1)"

definition plain_text :: "int \<Rightarrow> header \<Rightarrow> string \<Rightarrow> Response" where
  "plain_text st h body = \<lparr>rs_status = st, rs_header = h, rs_cookies = [], rs_body = body\<rparr>"

text \<open>A URL is absolute when it has a scheme.\<close>

definition ServeHTTP :: "Env \<Rightarrow> Net \<Rightarrow> Request \<Rightarrow> Proxy \<Rightarrow> answer \<times> outward list \<times> Proxy" where
  "ServeHTTP env net r p =
     (if rq_Method r = ''CONNECT'' then handleConnect env net r p
      else if ul_Scheme (rq_URL r) = [] then
        (if ul_Path (rq_URL r) = ''/healthz'' then (Answered (plain_text 200 fmempty ''ok''), [], p)
         else if ul_Path (rq_URL r) = [] \<or> ul_Path (rq_URL r) = ''/'' then
           (Answered (plain_text 200 (content_type ''text/plain; charset=utf-8'')
              (''forward-proxy v'' @ Version @ '' is listening. This is a forward proxy: clients must send absolute-form URLs (or CONNECT).''
               @ [newline])), [], p)
         else refuse env None r 400 ''absolute-form request URI required for proxying'' p)
      else handleForward env net r p)"

section \<open>The two handlers by cases\<close>

text \<open>
  Both handlers pass the same three gates: authentication, rules and quota, connection slot.
  \<open>admitted\<close> relates the state before them to the one in which the slot is held,
  \<open>turned_away\<close> to a state in which a request was stopped at one of them.
\<close>

definition admitted :: "Env \<Rightarrow> Request \<Rightarrow> string \<Rightarrow> User option \<Rightarrow> Proxy \<Rightarrow> Proxy \<Rightarrow> bool" where
  "admitted env r host user p p2 \<longleftrightarrow>
     fst (authorize env r (clientAddr r) p) = Inr user
     \<and> fst (checkAccess (e_now env) user host (snd (authorize env r (clientAddr r) p))) = 0
     \<and> fst (fst (enter user (cfg_of p) (snd (authorize env r (clientAddr r) p)))) = 0
     \<and> p2 = snd (enter user (cfg_of p) (snd (authorize env r (clientAddr r) p)))"

definition turned_away :: "Proxy \<Rightarrow> Proxy \<Rightarrow> bool" where
  "turned_away p q \<longleftrightarrow> cfg_of q = cfg_of p \<and> p_live q = p_live p \<and> p_daily q = p_daily p \<and> p_logs q = p_logs p
     \<and> (p_conns q = p_conns p \<or>
        (\<exists>user st msg. st \<noteq> 0 \<and> tryEnterConn user (c_Proxy (cfg_of p)) (p_conns p) = ((st, msg), p_conns q)))"

lemma turned_away_refl [simp]: "turned_away p p"
  by (simp add: turned_away_def)

lemma enter_sel:
  "fst (enter user cfg p) = fst (tryEnterConn user (c_Proxy cfg) (p_conns p))"
  "p_conns (snd (enter user cfg p)) = snd (tryEnterConn user (c_Proxy cfg) (p_conns p))"
  "p_store (snd (enter user cfg p)) = p_store p" "p_live (snd (enter user cfg p)) = p_live p"
  "p_daily (snd (enter user cfg p)) = p_daily p" "p_logs (snd (enter user cfg p)) = p_logs p"
  by (simp_all add: enter_def split_beta)

lemma turned_away_authorize: "turned_away p (snd (authorize env r ip p))"
  by (simp add: turned_away_def authorize_keeps)

lemma turned_away_enter:
  assumes "fst (fst (enter user (cfg_of p) (snd (authorize env r ip p)))) \<noteq> 0"
  shows "turned_away p (snd (enter user (cfg_of p) (snd (authorize env r ip p))))"
  using assms unfolding turned_away_def enter_sel authorize_keeps
  by (cases "tryEnterConn user (c_Proxy (cfg_of p)) (p_conns p)") (auto intro!: exI [of _ user])

lemma admitted_keeps:
  assumes "admitted env r host user p p2"
  shows "cfg_of p2 = cfg_of p" "p_live p2 = p_live p" "p_daily p2 = p_daily p" "p_logs p2 = p_logs p"
    "tryEnterConn user (c_Proxy (cfg_of p)) (p_conns p) =
       ((0, snd (fst (tryEnterConn user (c_Proxy (cfg_of p)) (p_conns p)))), p_conns p2)"
  using assms by (auto simp: admitted_def enter_sel authorize_keeps prod_eq_iff)

text \<open>What the gates have established for an admitted request.\<close>

definition within_quota :: "time \<Rightarrow> User option \<Rightarrow> daily \<Rightarrow> bool" where
  "within_quota now user m =
     (case user of None \<Rightarrow> True
      | Some u \<Rightarrow> u_DailyTrafficMB u \<le> 0 \<or> dailyBytes now (u_ID u) m < word_of_int (u_DailyTrafficMB u) * 1024 * 1024)"

definition identified :: "Config \<Rightarrow> Request \<Rightarrow> User option \<Rightarrow> bool" where
  "identified cfg r user =
     (case user of None \<Rightarrow> \<not> px_RequireAuth (c_Proxy cfg)
      | Some u \<Rightarrow> px_RequireAuth (c_Proxy cfg) \<and> u \<in> set (c_Users cfg) \<and> u_Enabled u
          \<and> presents_password (proxy_credential r) u)"

lemma checkAccess_zero:
  "fst (checkAccess now user host p) = 0 \<Longrightarrow>
     d_Allowed (Evaluate (p_rules p) user (normalizeHost host)) \<and> within_quota now user (p_daily p)"
  by (simp add: checkAccess_def within_quota_def Let_def split: if_splits option.splits) auto

lemma authorize_identified:
  assumes "auth_ok p" "fst (authorize env r ip p) = Inr user"
  shows "identified (cfg_of p) r user"
proof (cases user)
  case None
  with assms(2) show ?thesis
    by (auto simp: identified_def authorize_eq Let_def split: if_splits option.splits)
next
  case (Some u)
  with authorize_user [of p env r ip u] assms show ?thesis by (simp add: identified_def)
qed

lemma admitted_allowed:
  assumes "admitted env r host user p p2" "auth_ok p"
  shows "identified (cfg_of p) r user" "d_Allowed (Evaluate (p_rules p) user (normalizeHost host))"
    "within_quota (e_now env) user (p_daily p)"
  using assms authorize_identified [of p env r "clientAddr r" user]
    checkAccess_zero [of "e_now env" user host "snd (authorize env r (clientAddr r) p)"]
  by (auto simp: admitted_def authorize_keeps)

text \<open>
  A request is refused in a state that differs from the one before only by the limiter, the caches
  and a rolled-back reservation, or its work is done between reservation and release.
\<close>

lemma with_slot_cases:
  assumes "fst (authorize env r (clientAddr r) p) = Inr user"
  obtains (refused) st reason q where "turned_away p q"
    "with_slot env user (cfg_of p) host r work (snd (authorize env r (clientAddr r) p)) = refuse env user r st reason q"
  | (worked) p2 ans acts p3 where "admitted env r host user p p2" "work p2 = (ans, acts, p3)"
    "with_slot env user (cfg_of p) host r work (snd (authorize env r (clientAddr r) p)) = (ans, acts, leave (user_id user) p3)"
proof -
  let ?p1 = "snd (authorize env r (clientAddr r) p)"
  let ?c = "checkAccess (e_now env) user host ?p1" and ?e = "enter user (cfg_of p) ?p1"
  have eq: "with_slot env user (cfg_of p) host r work ?p1 =
    (if fst ?c \<noteq> 0 then refuse env user r (fst ?c) (snd ?c) ?p1
     else if fst (fst ?e) \<noteq> 0 then refuse env user r (fst (fst ?e)) (snd (fst ?e)) (snd ?e)
     else (fst (work (snd ?e)), fst (snd (work (snd ?e))), leave (user_id user) (snd (snd (work (snd ?e))))))"
    by (simp add: with_slot_def split_beta)
  consider "fst ?c \<noteq> 0" | "fst ?c = 0" "fst (fst ?e) \<noteq> 0" | "fst ?c = 0" "fst (fst ?e) = 0" by blast
  then show thesis
  proof cases
    case 1
    with eq show ?thesis by (intro refused [of ?p1]) (simp_all add: turned_away_authorize)
  next
    case 2
    with eq turned_away_enter [OF 2(2)] show ?thesis by (intro refused [of "snd ?e"]) simp_all
  next
    case 3
    with eq assms show ?thesis by (intro worked [of "snd ?e"]) (simp_all add: admitted_def)
  qed
qed

definition target_of :: "Request \<Rightarrow> string" where
  "target_of r = (if rq_Method r = ''CONNECT'' then normalizeTarget (rq_Host r) else ul_Host (rq_URL r))"

definition switched_on :: "Config \<Rightarrow> Request \<Rightarrow> bool" where
  "switched_on cfg r \<longleftrightarrow> px_Enabled (c_Proxy cfg) \<and>
     (if rq_Method r = ''CONNECT'' then px_AllowHTTPS (c_Proxy cfg)
      else px_AllowHTTP (c_Proxy cfg) \<and> ul_Scheme (rq_URL r) = ''http'')"

definition do_work :: "Env \<Rightarrow> Net \<Rightarrow> User option \<Rightarrow> Request \<Rightarrow> Proxy \<Rightarrow> answer \<times> outward list \<times> Proxy" where
  "do_work env net user r =
     (if rq_Method r = ''CONNECT'' then connect_reserved env net user (target_of r) r else forward_reserved env net user r)"

lemma ServeHTTP_off:
  assumes "\<not> switched_on (cfg_of p) r"
  shows "(\<exists>ans. ServeHTTP env net r p = (ans, [], p) \<and> rq_Method r \<noteq> ''CONNECT'' \<and> ul_Scheme (rq_URL r) = [])
    \<or> (\<exists>st reason. ServeHTTP env net r p = refuse env None r st reason p)"
  using assms
  by (cases "px_Enabled (c_Proxy (cfg_of p))")
    (auto simp: ServeHTTP_def handleConnect_def handleForward_def switched_on_def Let_def)

lemma ServeHTTP_on:
  assumes "switched_on (cfg_of p) r"
  shows "ServeHTTP env net r p =
    (case authorize env r (clientAddr r) p of
       (Inl (st, reason), p1) \<Rightarrow> refuse env None r st reason p1
     | (Inr u, p1) \<Rightarrow>
         if rq_Method r = ''CONNECT'' \<and> target_of r = [] then refuse env None r 400 ''CONNECT target missing'' p1
         else with_slot env u (cfg_of p) (target_of r) r (do_work env net u r) p1)"
  using assms
  by (cases "authorize env r (clientAddr r) p"; cases "fst (authorize env r (clientAddr r) p)")
    (auto simp: ServeHTTP_def handleConnect_def handleForward_def switched_on_def target_of_def do_work_def Let_def
      split: if_splits)

lemma ServeHTTP_gate:
  obtains (local) ans where "ServeHTTP env net r p = (ans, [], p)" "rq_Method r \<noteq> ''CONNECT''" "ul_Scheme (rq_URL r) = []"
  | (refused) st reason q where "turned_away p q" "ServeHTTP env net r p = refuse env None r st reason q"
  | (gated) user where "switched_on (cfg_of p) r" "fst (authorize env r (clientAddr r) p) = Inr user"
    "ServeHTTP env net r p =
       with_slot env user (cfg_of p) (target_of r) r (do_work env net user r) (snd (authorize env r (clientAddr r) p))"
proof (cases "switched_on (cfg_of p) r")
  case False
  then show ?thesis using ServeHTTP_off [OF False, of env net] local refused [of p] by auto
next
  case on: True
  let ?a = "authorize env r (clientAddr r) p"
  note ta = turned_away_authorize [of p env r "clientAddr r"]
  show ?thesis
  proof (cases "fst ?a")
    case (Inl e)
    with ServeHTTP_on [OF on] have "ServeHTTP env net r p = refuse env None r (fst e) (snd e) (snd ?a)"
      by (simp add: split_beta)
    with ta show ?thesis by (rule refused)
  next
    case (Inr u)
    with ServeHTTP_on [OF on] gated [OF on Inr] refused [OF ta] show ?thesis
      by (cases "rq_Method r = ''CONNECT'' \<and> target_of r = []") (simp_all add: split_beta)
  qed
qed

lemma ServeHTTP_cases:
  obtains (local) ans where "ServeHTTP env net r p = (ans, [], p)" "rq_Method r \<noteq> ''CONNECT''" "ul_Scheme (rq_URL r) = []"
  | (refused) user st reason q where "turned_away p q" "ServeHTTP env net r p = refuse env user r st reason q"
  | (worked) user p2 ans acts p3 where "switched_on (cfg_of p) r" "admitted env r (target_of r) user p p2"
    "do_work env net user r p2 = (ans, acts, p3)" "ServeHTTP env net r p = (ans, acts, leave (user_id user) p3)"
proof (cases rule: ServeHTTP_gate [of env net r p])
  case (gated user)
  show ?thesis
    by (rule with_slot_cases [OF gated(2), of "target_of r" "do_work env net user r"])
      (use gated refused worked in auto)
qed (use local refused in blast)+

section \<open>Lemmas on the work\<close>

lemma denyAs_sel [simp]:
  "p_store (snd (denyAs env u r st reason p)) = p_store p" "p_conns (snd (denyAs env u r st reason p)) = p_conns p"
  "p_live (snd (denyAs env u r st reason p)) = p_live p" "p_daily (snd (denyAs env u r st reason p)) = p_daily p"
  by (simp_all add: denyAs_def Let_def)

lemma refuse_sel:
  "fst (snd (refuse env u r st reason p)) = []" "p_store (snd (snd (refuse env u r st reason p))) = p_store p"
  "p_conns (snd (snd (refuse env u r st reason p))) = p_conns p" "p_live (snd (snd (refuse env u r st reason p))) = p_live p"
  "p_daily (snd (snd (refuse env u r st reason p))) = p_daily p"
  using denyAs_sel [of env u r st reason p] by (simp_all add: refuse_def split_beta)

lemma account_sel [simp]:
  "p_store (account now uid i j p) = p_store p" "p_conns (account now uid i j p) = p_conns p" "p_logs (account now uid i j p) = p_logs p"
  by (simp_all add: account_def)

lemma leave_sel [simp]:
  "p_store (leave uid p) = p_store p" "p_live (leave uid p) = p_live p" "p_daily (leave uid p) = p_daily p"
  "p_logs (leave uid p) = p_logs p" "p_conns (leave uid p) = exitConn uid (p_conns p)"
  by (simp_all add: leave_def)

lemma forward_reserved_keeps:
  "p_store (snd (snd (forward_reserved env net u r p))) = p_store p"
  "p_conns (snd (snd (forward_reserved env net u r p))) = p_conns p"
  "fst (snd (forward_reserved env net u r p)) = [Forwarded (outgoing (clientAddr r) r)]"
  by (auto simp: forward_reserved_def Let_def split_beta split: sum.splits)

lemma connect_hijacked_keeps:
  "p_store (snd (snd (connect_hijacked env net u t r p))) = p_store p"
  "p_conns (snd (snd (connect_hijacked env net u t r p))) = p_conns p"
  "hd (fst (snd (connect_hijacked env net u t r p))) = Dialled t"
  by (auto simp: connect_hijacked_def Let_def split_beta split: option.splits)

lemma do_work_keeps:
  "p_store (snd (snd (do_work env net u r p))) = p_store p" "p_conns (snd (snd (do_work env net u r p))) = p_conns p"
  by (auto simp: do_work_def connect_reserved_def forward_reserved_keeps connect_hijacked_keeps refuse_sel split: option.splits)

lemma do_work_first:
  "fst (snd (do_work env net u r p)) \<noteq> [] \<Longrightarrow> hd (fst (snd (do_work env net u r p))) =
     (if rq_Method r = ''CONNECT'' then Dialled (target_of r) else Forwarded (outgoing (clientAddr r) r))"
  by (auto simp: do_work_def connect_reserved_def forward_reserved_keeps connect_hijacked_keeps refuse_sel
      split: option.splits if_splits)

text \<open>
  What carrying one direction over means, read by read: after the reads \<open>pre\<close> that reported
  no end and were all written, either nothing follows, or a read that reports an end and whose data, if
  any, is written too, or a read whose data was only written in part.
\<close>

definition passes :: "tunnel_event \<Rightarrow> bool" where
  "passes e \<longleftrightarrow> (case e of (data, err, werr) \<Rightarrow> \<not> err \<and> (data = [] \<or> werr = None))"

definition carried :: "tunnel_event list \<Rightarrow> uint64 \<Rightarrow> string \<Rightarrow> bool" where
  "carried es n out \<longleftrightarrow> (\<exists>pre post. es = pre @ post \<and> list_all passes pre \<and>
     (let before = concat (map fst pre) in
      post = [] \<and> out = before \<and> n = of_nat (length before)
      \<or> (\<exists>data werr rest. post = (data, True, werr) # rest \<and> (data = [] \<or> werr = None)
           \<and> out = before @ data \<and> n = of_nat (length before + length data))
      \<or> (\<exists>data err k rest. post = (data, err, Some k) # rest \<and> data \<noteq> []
           \<and> out = before @ take k data \<and> n = of_nat (length before + length data))))"

lemma copySide_shift: "copySide es (m + n) = (m + fst (copySide es n), snd (copySide es n))"
proof (induction es arbitrary: n)
  case (Cons e es)
  obtain data err werr where "e = (data, err, werr)" by (metis prod.exhaust)
  with Cons [of "n + of_nat (length data)"] Cons [of n] show ?case
    by (auto simp: Let_def split_beta add.assoc split: option.splits)
qed simp

lemma carried_Cons:
  assumes "carried es n out" "passes e"
  shows "carried (e # es) (of_nat (length (fst e)) + n) (fst e @ out)"
proof -
  obtain pre post where p: "es = pre @ post" "list_all passes pre"
    and c: "let before = concat (map fst pre) in
      post = [] \<and> out = before \<and> n = of_nat (length before)
      \<or> (\<exists>data werr rest. post = (data, True, werr) # rest \<and> (data = [] \<or> werr = None)
           \<and> out = before @ data \<and> n = of_nat (length before + length data))
      \<or> (\<exists>data err k rest. post = (data, err, Some k) # rest \<and> data \<noteq> []
           \<and> out = before @ take k data \<and> n = of_nat (length before + length data))"
    using assms(1) unfolding carried_def by blast
  show ?thesis unfolding carried_def
    by (rule exI [of _ "e # pre"], rule exI [of _ post]) (use p c assms(2) in \<open>auto simp: Let_def\<close>)
qed

lemma carried_stop:
  "data = [] \<or> werr = None \<Longrightarrow> carried ((data, True, werr) # es) (of_nat (length data)) data"
  "data \<noteq> [] \<Longrightarrow> carried ((data, err, Some k) # es) (of_nat (length data)) (take k data)"
  unfolding carried_def by (rule exI [of _ "[]"], simp)+

lemma copySide_carried: "carried es (fst (copySide es 0)) (snd (copySide es 0))"
proof (induction es)
  case Nil
  then show ?case by (simp add: carried_def)
next
  case (Cons e es)
  obtain data err werr where e: "e = (data, err, werr)" by (metis prod.exhaust)
  have "copySide es (of_nat (length data)) = (of_nat (length data) + fst (copySide es 0), snd (copySide es 0))"
    using copySide_shift [of es "of_nat (length data)" 0] by simp
  then have "passes e \<Longrightarrow> copySide (e # es) 0 = (of_nat (length data) + fst (copySide es 0), data @ snd (copySide es 0))"
    by (auto simp: e passes_def Let_def split_beta)
  with carried_Cons [OF Cons, of e] have p: "passes e \<Longrightarrow> ?case" by (simp add: e)
  show ?case
  proof (cases "passes e")
    case False
    then consider "err" "data = [] \<or> werr = None" | k where "data \<noteq> []" "werr = Some k" by (auto simp: e passes_def)
    then show ?thesis using carried_stop(1) [of data werr es] carried_stop(2) [of data err _ es] by cases (auto simp: e)
  qed (rule p)
qed

text \<open>An installation without authentication, and a network that answers.\<close>

definition demo_open :: Proxy where
  "demo_open = demo_proxy\<lparr>p_store := demo_store\<lparr>s_cfg := demo_config\<lparr>c_Proxy := (c_Proxy demo_config)\<lparr>px_RequireAuth := False\<rparr>\<rparr>\<rparr>\<rparr>"

definition demo_net :: Net where
  "demo_net = \<lparr>nt_RoundTrip = (\<lambda>_. \<lparr>rt_reads = [3], rt_result = Inr \<lparr>up_StatusCode = 200, up_Header = fmempty,
       up_Body = [(''hel'', False, None), (''lo'', True, None)]\<rparr>\<rparr>), nt_later = 5000000, nt_hijacker = True, nt_hijack = None,
     nt_DialContext = (\<lambda>_. None), nt_deadline_ok = True, nt_buffered = ''hi'', nt_readfull_ok = True, nt_leftover_ok = True,
     nt_from_client = [(''abc'', False, None), ([], True, None)], nt_from_upstream = [(''de'', True, None)]\<rparr>"

lemma demo_open_sel [simp]:
  "cfg_of demo_open = demo_config\<lparr>c_Proxy := (c_Proxy demo_config)\<lparr>px_RequireAuth := False\<rparr>\<rparr>"
  "p_conns demo_open = \<lparr>cn_user = fmempty, cn_global = 0\<rparr>" "p_rules demo_open = Rebuild NewRulesEngine demo_config"
  "p_live demo_open = newLiveStats" "p_daily demo_open = fmempty" "auth_ok demo_open"
  using demo_auth_ok by (simp_all add: demo_open_def auth_ok_def store_auth_ok_def verify.sound_def cached_verdict_def)

lemma demo_client [simp]: "clientAddr demo_request = ''10.0.0.1''"
  by (simp add: demo_request_def clientAddr_def) code_simp

lemma demo_request_sel [simp]:
  "rq_Method demo_request = ''GET''" "ul_Scheme (rq_URL demo_request) = ''http''" "ul_Host (rq_URL demo_request) = ''example.com''"
  by (simp_all add: demo_request_def)

lemma demo_enter: "enter None (cfg_of demo_open) demo_open = ((0, []), demo_open\<lparr>p_conns := \<lparr>cn_user = fmempty, cn_global = 1\<rparr>\<rparr>)"
  by (simp add: enter_def tryEnterConn_def demo_config_def zero_proxy_def add32_def int32_def Let_def)

lemma demo_access: "fst (checkAccess 0 None ''example.com'' demo_open) = 0"
proof -
  have "normalizeHost ''example.com'' = ''example.com''" by code_simp
  moreover have "c_GlobalRules demo_config = zero_rules" by (simp add: demo_config_def zero_config_def)
  ultimately show ?thesis
    by (simp add: checkAccess_def Evaluate_def Rebuild_def zero_rules_def Let_def)
qed

lemma demo_serve:
  "ServeHTTP demo_env demo_net demo_request demo_open =
     (case forward_reserved demo_env demo_net None demo_request (demo_open\<lparr>p_conns := \<lparr>cn_user = fmempty, cn_global = 1\<rparr>\<rparr>) of
        (ans, acts, p') \<Rightarrow> (ans, acts, leave [] p'))"
proof -
  have "authorize demo_env demo_request ''10.0.0.1'' demo_open = (Inr None, demo_open)"
    by (simp add: authorize_def)
  then show ?thesis
    using demo_enter demo_access
    by (simp add: ServeHTTP_def handleForward_def with_slot_def Let_def user_id_def split_beta)
qed

section \<open>Properties of the proxy port\<close>

text \<open>
  C1: nothing leaves the proxy that the policy does not allow. If serving a request makes the proxy
  contact anyone, then the proxy and the kind of proxying are switched on; the caller is anonymous
  with authentication off, or is an enabled user whose name and password the request carries; the
  rules allow the host the request names; the caller's daily quota is not used up; and what is
  contacted first is that host, with the client's request stripped of hop-by-hop headers or with
  a dialled tunnel. (The host the rules are asked about is the target as \<open>normalizeHost\<close> reads it;
  the user index and the password cache agree with the configuration.)
\<close>

theorem only_allowed_traffic_leaves:
  assumes "auth_ok p" "ServeHTTP env net r p = (ans, acts, p')" "acts \<noteq> []"
  shows "switched_on (cfg_of p) r
    \<and> (\<exists>user. identified (cfg_of p) r user \<and> d_Allowed (Evaluate (p_rules p) user (normalizeHost (target_of r)))
        \<and> within_quota (e_now env) user (p_daily p))
    \<and> hd acts = (if rq_Method r = ''CONNECT'' then Dialled (target_of r) else Forwarded (outgoing (clientAddr r) r))"
proof (cases rule: ServeHTTP_cases [of env net r p])
  case (refused user st reason q)
  with assms(2,3) refuse_sel(1) [of env user r st reason q] show ?thesis by simp
next
  case (worked user p2 ans' acts' p3)
  then have "acts = fst (snd (do_work env net user r p2))" using assms(2) by simp
  with worked assms(3) do_work_first [of env net user r p2] admitted_allowed [OF worked(2) assms(1)] show ?thesis by auto
qed (use assms in auto)

theorem only_allowed_traffic_leaves_witness:
  "\<exists>ans p'. ServeHTTP demo_env demo_net demo_request demo_open = (ans, [Forwarded (outgoing ''10.0.0.1'' demo_request)], p')
    \<and> (\<exists>user. identified (cfg_of demo_open) demo_request user
        \<and> d_Allowed (Evaluate (p_rules demo_open) user (normalizeHost ''example.com'')))"
proof -
  let ?f = "forward_reserved demo_env demo_net None demo_request (demo_open\<lparr>p_conns := \<lparr>cn_user = fmempty, cn_global = 1\<rparr>\<rparr>)"
  have s: "ServeHTTP demo_env demo_net demo_request demo_open =
      (fst ?f, [Forwarded (outgoing ''10.0.0.1'' demo_request)], leave [] (snd (snd ?f)))"
    using forward_reserved_keeps(3) [of demo_env demo_net None demo_request] by (simp add: demo_serve split_beta)
  from only_allowed_traffic_leaves [OF _ s] s show ?thesis by (auto simp: target_of_def)
qed

text \<open>
  C16: no connection slot is leaked by a request, whatever becomes of it, but for users with an empty
  identifier: when it has been served, the global counter and the counter of every non-empty
  identifier are what they were before, at any value an \<open>int32\<close> may have. The counter of the empty
  identifier is too, unless a configured user has that identifier: serving such a user may leave it
  one up. (The state is one in which the user index and the password cache agree with the
  configuration.)
\<close>

theorem connections_balanced:
  assumes "auth_ok p" "conns32 (p_conns p)" "p_conns (snd (snd (ServeHTTP env net r p))) = c'"
  shows "cn_global c' = cn_global (p_conns p)
    \<and> (\<forall>v. v \<noteq> [] \<longrightarrow> userConnCount v c' = userConnCount v (p_conns p))
    \<and> (userConnCount [] c' = userConnCount [] (p_conns p)
       \<or> (\<exists>u \<in> set (c_Users (cfg_of p)). u_ID u = [] \<and> userConnCount [] c' = add32 (userConnCount [] (p_conns p)) 1))"
proof -
  have "ActiveConns v c' = ActiveConns v (p_conns p)
    \<or> v = [] \<and> (\<exists>u \<in> set (c_Users (cfg_of p)). u_ID u = [])
        \<and> ActiveConns v c' = (cn_global (p_conns p), add32 (userConnCount [] (p_conns p)) 1)" for v
  proof (cases rule: ServeHTTP_cases [of env net r p])
    case (refused user st reason q)
    then show ?thesis
      using assms(3) refuse_sel(3) [of env user r st reason q] refused_restores [OF assms(2)] by (auto simp: turned_away_def)
  next
    case (worked user p2 ans acts p3)
    have u: "u \<in> set (c_Users (cfg_of p))" if "user = Some u" for u
      using admitted_allowed(1) [OF worked(2) assms(1)] that by (auto simp: identified_def)
    have "p_conns p3 = p_conns p2" using do_work_keeps(2) [of env net user r p2] worked(3) by simp
    then have "c' = exitConn (case user of None \<Rightarrow> [] | Some u \<Rightarrow> u_ID u) (p_conns p2)"
      using worked(4) assms(3) by (simp add: user_id_def)
    with enter_exit [OF assms(2) admitted_keeps(5) [OF worked(2)], of v] u show ?thesis by auto
  qed (use assms(3) in simp)
  then show ?thesis unfolding ActiveConns_def by (metis prod.inject)
qed

theorem connections_balanced_witness:
  "ActiveConns ''a1'' (p_conns (snd (snd (ServeHTTP demo_env demo_net demo_request demo_open)))) = (0, 0)"
proof -
  have "conns32 (p_conns demo_open)" by (simp add: conns32_def userConnCount_def int32_def)
  from connections_balanced [OF _ this refl, of demo_env demo_net demo_request] show ?thesis
    by (simp add: userConnCount_def ActiveConns_def)
qed

lemma fmlookup_removeHopHeaders:
  "fmlookup (removeHopHeaders g) j = (if j \<in> {''Connection'', ''Keep-Alive'', ''Proxy-Authenticate'',
      ''Proxy-Authorization'', ''Te'', ''Trailers'', ''Trailer'', ''Transfer-Encoding'', ''Upgrade''} then None else fmlookup g j)"
proof -
  have canon: "map CanonicalHeaderKey hopByHopHeaders =
    [''Connection'', ''Keep-Alive'', ''Proxy-Authenticate'', ''Proxy-Authorization'', ''Te'', ''Trailers'',
                     ''Trailer'', ''Transfer-Encoding'', ''Upgrade'']" by code_simp
  have "removeHopHeaders g = foldl (\<lambda>h k. header_del k h) g (map CanonicalHeaderKey hopByHopHeaders)"
    by (simp add: removeHopHeaders_def foldl_map)
  then show ?thesis by (simp add: canon header_del_def)
qed

lemma outgoing_authorization: "header_get (rq_Header (outgoing ip r)) ''Authorization'' = header_get (rq_Header r) ''Authorization''"
  by (simp add: outgoing_def header_get_def header_set_def fmlookup_removeHopHeaders Let_def)

lemma isHop_ToLower: "isHop (ToLower k) \<longleftrightarrow> ToLower k \<in> {''connection'', ''keep-alive'', ''proxy-authenticate'',
    ''proxy-authorization'', ''te'', ''trailers'', ''trailer'', ''transfer-encoding'', ''upgrade''}"
proof -
  have low: "map ToLower hopByHopHeaders = [''connection'', ''keep-alive'', ''proxy-authenticate'',
    ''proxy-authorization'', ''te'', ''trailers'', ''trailer'', ''transfer-encoding'', ''upgrade'']" by code_simp
  have "isHop (ToLower k) \<longleftrightarrow> ToLower k \<in> set (map ToLower hopByHopHeaders)"
    by (auto simp: isHop_def EqualFold_def list_ex_iff intro: rev_image_eqI)
  then show ?thesis unfolding low by simp
qed

text \<open>
  C19: forwarded headers are exactly the right ones. The request sent upstream has the client's
  headers without the hop-by-hop ones, with the client's address appended to
  \<open>X-Forwarded-For\<close> and the proxy named in \<open>X-Forwarded-By\<close>; the response has the
  upstream's headers, with all their values, without those whose name is, in any mixture of upper and
  lower case, one of the nine hop-by-hop names.
\<close>

theorem headers_filtered:
  "fmlookup (rq_Header (outgoing ip r)) k =
     (if k = ''X-Forwarded-By'' then Some [''forward-proxy/1.0.11'']
      else if k = ''X-Forwarded-For'' then
        Some [(let xff = header_get (rq_Header r) ''X-Forwarded-For'' in if xff = [] then ip else xff @ '', '' @ ip)]
      else if k \<in> {''Connection'', ''Keep-Alive'', ''Proxy-Authenticate'', ''Proxy-Authorization'', ''Te'', ''Trailers'',
                     ''Trailer'', ''Transfer-Encoding'', ''Upgrade''} then None
      else fmlookup (rq_Header r) k)
   \<and> fmlookup (copyResponseHeaders h fmempty) k =
     (if ToLower k \<in> {''connection'', ''keep-alive'', ''proxy-authenticate'', ''proxy-authorization'', ''te'', ''trailers'',
                     ''trailer'', ''transfer-encoding'', ''upgrade''} then None
      else if fmlookup h k = Some [] then None else fmlookup h k)"
proof -
  have "fmlookup (copyResponseHeaders h fmempty) k =
     (if isHop (ToLower k) then None else if fmlookup h k = Some [] then None else fmlookup h k)"
    by (cases "fmlookup h k") (simp_all add: copyResponseHeaders_def)
  then show ?thesis
    unfolding isHop_ToLower
    by (simp add: outgoing_def header_set_def header_get_def fmlookup_removeHopHeaders Let_def Version_def)
qed

text \<open>The log entry of a refusal, and that of the work that was done.\<close>

definition logged :: "Env \<Rightarrow> time \<Rightarrow> LogEntry \<Rightarrow> Proxy \<Rightarrow> Proxy \<Rightarrow> bool" where
  "logged env t e p p' \<longleftrightarrow> p_logs p' = Add (e_log env) t (c_Logs (cfg_of p)) e (p_logs p)"

lemma logged_log_add: "p_store q = p_store p \<Longrightarrow> p_logs q = p_logs p \<Longrightarrow> logged env (e_now env) e p (log_add env e q)"
  by (simp add: logged_def log_add_def)

lemma refuse_logged:
  "\<exists>e. logged env (e_now env) e q (snd (snd (refuse env u r st reason q))) \<and> le_Client e = clientAddr r
     \<and> HasPrefix (le_Outcome e) ''DENIED: ''"
  by (auto simp: refuse_def denyAs_def logged_def log_add_def Let_def HasPrefix_def)

lemma reads_sum: "foldl countReader_Read n ks = n + int (sum_list ks)"
  by (induction ks arbitrary: n) (auto simp: countReader_Read_def)

text \<open>
  C20: a forwarded request is answered and accounted for as it went. When the upstream answers, the
  client gets its status, its end-to-end headers and the streamed bytes; the log entry records the
  bytes read of the request and the bytes delivered, and exactly these are added, with one request,
  to the live and the daily counters of the caller.
\<close>

theorem forwarded_request_accounted:
  assumes "ServeHTTP env net r p = (ans, [Forwarded out], p')" "rt_result (nt_RoundTrip net out) = Inr resp" "auth_ok p"
  shows "\<exists>user e. identified (cfg_of p) r user \<and> logged env (nt_later net) e p p'
    \<and> ans = Answered \<lparr>rs_status = up_StatusCode resp, rs_header = copyResponseHeaders (up_Header resp) fmempty,
                       rs_cookies = [], rs_body = stream_loop (up_Body resp)\<rparr>
    \<and> le_User e = whoName user \<and> le_Outcome e = ''ALLOWED'' \<and> le_Status e = up_StatusCode resp
    \<and> le_BytesIn e = of_nat (sum_list (rt_reads (nt_RoundTrip net out)))
    \<and> le_BytesOut e = of_nat (length (stream_loop (up_Body resp)))
    \<and> p_live p' = live_add (nt_later net) (user_id user) (le_BytesIn e) (le_BytesOut e) (p_live p)
    \<and> p_daily p' = addDaily (nt_later net) (user_id user) (le_BytesIn e + le_BytesOut e) (p_daily p)"
proof (cases rule: ServeHTTP_cases [of env net r p])
  case (refused user st reason q)
  with assms(1) refuse_sel(1) [of env user r st reason q] show ?thesis by simp
next
  case (worked user p2 ans' acts' p3)
  have acts: "fst (snd (do_work env net user r p2)) = [Forwarded out]" using worked(3,4) assms(1) by simp
  with do_work_first [of env net user r p2] have c: "rq_Method r \<noteq> ''CONNECT''" "out = outgoing (clientAddr r) r"
    by (simp_all split: if_splits)
  then have f: "forward_reserved env net user r p2 = (ans', acts', p3)" using worked(3) by (simp add: do_work_def)
  have i: "identified (cfg_of p) r user" by (rule admitted_allowed(1) [OF worked(2) assms(3)])
  note k = admitted_keeps [OF worked(2)]
  have p': "p' = leave (user_id user) p3" "ans = ans'" using worked(4) assms(1) by simp_all
  let ?b = "stream_loop (up_Body resp)" and ?n = "of_nat (sum_list (rt_reads (nt_RoundTrip net out))) :: uint64"
  have m: "word_of_int (maxInt64 (foldl countReader_Read 0 (rt_reads (nt_RoundTrip net out)))) = ?n"
    by (simp add: reads_sum maxInt64_def)
  let ?e = "zero_entry\<lparr>le_User := whoName user, le_Method := rq_Method r,
                         le_Host := normalizeHost (ul_Host (rq_URL r)), le_Path := take 200 (ul_RequestURI (rq_URL r)),
                         le_Status := up_StatusCode resp, le_Outcome := ''ALLOWED'', le_BytesIn := ?n,
                         le_BytesOut := of_nat (length ?b), le_DurationMs := elapsed_ms net env, le_Client := clientAddr r\<rparr>"
  have "ans' = Answered \<lparr>rs_status = up_StatusCode resp, rs_header = copyResponseHeaders (up_Header resp) fmempty,
      rs_cookies = [], rs_body = ?b\<rparr>"
    "p3 = log_add (after net env) ?e (account (nt_later net) (user_id user) ?n (of_nat (length ?b)) p2)"
    using f assms(2) m unfolding c(2) by (simp_all add: forward_reserved_def Let_def)
  then show ?thesis
    using i k p' by (intro exI [of _ user] exI [of _ ?e]) (simp add: logged_def log_add_def after_def account_def)
qed (use assms(1) in simp)

theorem forwarded_request_accounted_witness:
  "\<exists>ans p' user e. ServeHTTP demo_env demo_net demo_request demo_open = (ans, [Forwarded (outgoing ''10.0.0.1'' demo_request)], p')
    \<and> le_BytesIn (e :: LogEntry) = 3 \<and> le_BytesOut e = 5 \<and> p_live p' = live_add 5000000 (user_id user) 3 5 newLiveStats"
proof -
  let ?f = "forward_reserved demo_env demo_net None demo_request (demo_open\<lparr>p_conns := \<lparr>cn_user = fmempty, cn_global = 1\<rparr>\<rparr>)"
  have s: "ServeHTTP demo_env demo_net demo_request demo_open =
      (fst ?f, [Forwarded (outgoing ''10.0.0.1'' demo_request)], leave [] (snd (snd ?f)))"
    using forward_reserved_keeps(3) [of demo_env demo_net None demo_request] by (simp add: demo_serve split_beta)
  let ?resp = "\<lparr>up_StatusCode = 200, up_Header = fmempty, up_Body = [(''hel'', False, None), (''lo'', True, None)]\<rparr>"
  have rt: "rt_result (nt_RoundTrip demo_net (outgoing ''10.0.0.1'' demo_request)) = Inr ?resp"
    by (simp add: demo_net_def)
  obtain user and e :: LogEntry where "le_BytesIn e = of_nat (sum_list (rt_reads (nt_RoundTrip demo_net (outgoing ''10.0.0.1'' demo_request))))"
    "le_BytesOut e = of_nat (length (stream_loop (up_Body ?resp)))"
    "p_live (leave [] (snd (snd ?f))) = live_add (nt_later demo_net) (user_id user) (le_BytesIn e) (le_BytesOut e) (p_live demo_open)"
    using forwarded_request_accounted [OF s rt demo_open_sel(6)] by blast
  then have "le_BytesIn e = 3" "le_BytesOut e = 5" "p_live (leave [] (snd (snd ?f))) = live_add 5000000 (user_id user) 3 5 newLiveStats"
    by (simp_all add: demo_net_def)
  with s show ?thesis by blast
qed

lemma forward_reserved_logged:
  assumes "forward_reserved env net user r p = (ans, acts, p')"
  shows "\<exists>t e. logged env t e p p' \<and> le_Client e = clientAddr r"
  using assms
  by (auto simp: forward_reserved_def denyAs_def logged_def log_add_def after_def Let_def split_beta
      split: sum.splits intro!: exI)

lemma connect_hijacked_logged:
  assumes "connect_hijacked env net user target r p = (ans, acts, p')" "nt_buffered net \<noteq> [] \<longrightarrow> nt_leftover_ok net"
  shows "\<exists>t e. logged env t e p p' \<and> le_Client e = clientAddr r"
proof (cases "nt_DialContext net target")
  case None
  let ?q = "if nt_buffered net \<noteq> [] \<and> nt_readfull_ok net
    then account (e_now env) (user_id user) (word_of_int (int (length (nt_buffered net)))) 0 p else p"
  obtain e i j where "p' = log_add (after net env) e (account (nt_later net) (user_id user) i j ?q)" "le_Client e = clientAddr r"
    using assms None by (fastforce simp: connect_hijacked_def Let_def split_beta split: if_splits)
  then show ?thesis by (intro exI [of _ "nt_later net"] exI [of _ e]) (simp add: logged_def log_add_def after_def)
next
  case (Some err)
  with assms(1) show ?thesis
    by (auto simp: connect_hijacked_def logged_def log_add_def after_def Let_def intro!: exI)
qed

lemma do_work_logged:
  assumes "do_work env net user r p = (ans, acts, p')" "nt_buffered net \<noteq> [] \<longrightarrow> nt_leftover_ok net"
  shows "\<exists>t e. logged env t e p p' \<and> le_Client e = clientAddr r
    \<and> (acts = [] \<longrightarrow> HasPrefix (le_Outcome e) ''DENIED: '' \<and> p_live p' = p_live p \<and> p_daily p' = p_daily p)"
proof -
  consider "forward_reserved env net user r p = (ans, acts, p')"
    | "connect_hijacked env net user (target_of r) r p = (ans, acts, p')"
    | reason where "refuse env None r 502 reason p = (ans, acts, p')"
    using assms(1) by (auto simp: do_work_def connect_reserved_def split: if_splits option.splits)
  then show ?thesis
  proof cases
    case 1
    then have "acts \<noteq> []" using forward_reserved_keeps(3) [of env net user r p] by simp
    with forward_reserved_logged [OF 1] show ?thesis by blast
  next
    case 2
    then have "acts \<noteq> []" by (auto simp: connect_hijacked_def Let_def split_beta split: option.splits if_splits)
    with connect_hijacked_logged [OF 2 assms(2)] show ?thesis by blast
  next
    case (3 reason)
    then show ?thesis
      using refuse_logged [of env p None r 502 reason] refuse_sel [of env None r 502 reason p] by auto
  qed
qed

text \<open>
  C21: every proxied request leaves one log entry. A CONNECT or absolute-form request adds exactly
  one entry with the client's address, provided that bytes the client pipelined behind a CONNECT can
  be passed on; if the request is turned away without contacting anyone, that entry is a denial and
  no traffic is accounted.
\<close>

theorem every_request_logged:
  assumes "ServeHTTP env net r p = (ans, acts, p')" "rq_Method r = ''CONNECT'' \<or> ul_Scheme (rq_URL r) \<noteq> []"
    and "nt_buffered net \<noteq> [] \<longrightarrow> nt_leftover_ok net"
  shows "\<exists>t e. logged env t e p p' \<and> le_Client e = clientAddr r
    \<and> (acts = [] \<longrightarrow> HasPrefix (le_Outcome e) ''DENIED: '' \<and> p_live p' = p_live p \<and> p_daily p' = p_daily p)"
proof (cases rule: ServeHTTP_cases [of env net r p])
  case (refused user st reason q)
  then have p': "p' = snd (snd (refuse env user r st reason q))" "acts = fst (snd (refuse env user r st reason q))"
    using assms(1) by (metis snd_conv, metis fst_conv snd_conv)
  from refuse_logged [of env q user r st reason] refused(1) show ?thesis
    unfolding p' refuse_sel by (auto simp: logged_def turned_away_def)
next
  case (worked user p2 ans' acts' p3)
  note k = admitted_keeps [OF worked(2)]
  have p': "p' = leave (user_id user) p3" "acts = acts'" using worked(4) assms(1) by simp_all
  from do_work_logged [OF worked(3) assms(3)] k p' show ?thesis by (simp add: logged_def)
qed (use assms in simp)

theorem every_request_logged_witness:
  "\<exists>t e. logged demo_env t e demo_proxy
       (snd (snd (ServeHTTP demo_env demo_net (demo_request\<lparr>rq_Method := ''CONNECT''\<rparr>) demo_proxy)))
     \<and> le_Client e = ''10.0.0.1''"
proof -
  obtain ans acts p' where "ServeHTTP demo_env demo_net (demo_request\<lparr>rq_Method := ''CONNECT''\<rparr>) demo_proxy = (ans, acts, p')"
    by (metis prod.exhaust)
  moreover have "clientAddr (demo_request\<lparr>rq_Method := ''CONNECT''\<rparr>) = ''10.0.0.1''"
    by (simp add: demo_request_def clientAddr_def) code_simp
  ultimately show ?thesis using every_request_logged by (fastforce simp: demo_net_def)
qed

text \<open>
  C22: a tunnel passes bytes on unchanged and counts what it read. In each direction, while no read
  reports an end and every write succeeds, everything read is delivered in order; the first read that
  reports an end or an error ends the direction, the data that came with it being delivered too; the first
  write that fails ends it with the bytes that got through. The counter ends (modulo \<open>2^64\<close>)
  at the number of bytes read up to there, which is what was delivered unless a write failed.
\<close>

theorem tunnel_transparent:
  "(case runTunnel a b of ((bytesIn, up), (bytesOut, down)) \<Rightarrow> carried a bytesIn up \<and> carried b bytesOut down)"
  using copySide_carried [of a] copySide_carried [of b] by (simp add: runTunnel_def split_beta)

text \<open>
  A Basic \<open>Authorization\<close> header that authenticated the client to the proxy goes on to the
  upstream server: only \<open>Proxy-Authorization\<close> is stripped.
\<close>

theorem authorization_reaches_upstream:
  assumes "ServeHTTP env net r p = (ans, [Forwarded out], p')" "auth_ok p"
    and "px_RequireAuth (c_Proxy (cfg_of p))" "header_get (rq_Header r) ''Proxy-Authorization'' = []"
  shows "\<exists>u \<in> set (c_Users (cfg_of p)). u_Enabled u \<and> presents_password (header_get (rq_Header out) ''Authorization'') u"
proof (cases rule: ServeHTTP_cases [of env net r p])
  case (refused user st reason q)
  with assms(1) refuse_sel(1) [of env user r st reason q] show ?thesis by simp
next
  case (worked user p2 ans' acts' p3)
  then have "fst (snd (do_work env net user r p2)) = [Forwarded out]" using assms(1) by simp
  with do_work_first [of env net user r p2] have "out = outgoing (clientAddr r) r" by (simp split: if_splits)
  then have "header_get (rq_Header out) ''Authorization'' = proxy_credential r"
    using assms(4) by (simp add: proxy_credential_def outgoing_authorization)
  with admitted_allowed(1) [OF worked(2) assms(2)] assms(3) show ?thesis
    by (auto simp: identified_def split: option.splits)
qed (use assms in simp)

definition demo_bob :: Request where
  "demo_bob = demo_request\<lparr>rq_Header := header_set ''Authorization'' ''Basic Ym9iOng='' fmempty\<rparr>"

lemma demo_hash_verifies: "VerifyPassword ''pbkdf2$10000$00$'' pw"
proof -
  have s: "Sscanf_d ''10000'' = Some 10000" by code_simp
  have "hex_encode [nul] = ''00''" "hex_encode [] = []" by code_simp+
  then show ?thesis
    using VerifyPassword_hash_string [OF _ s, of "[nul]" "[]" pw] length_pbkdf2SHA256 [of 10000 pw "[nul]" 0] by simp
qed

lemma demo_bob_authorized: "fst (authorize demo_env demo_bob ''10.0.0.1'' demo_proxy) = Inr (Some demo_user)"
proof -
  have c: "proxy_credential demo_bob = ''Basic Ym9iOng=''"
    by (simp add: proxy_credential_def demo_bob_def) (simp add: header_get_def)
  have "basic_cred ''Basic Ym9iOng='' = Some (''bob'', ''x'')" by code_simp
  then have "presents_password ''Basic Ym9iOng='' demo_user"
    by (simp add: presents_password_def demo_user_def EqualFold_def demo_hash_verifies)
  then have "fst (checkBasicAuth 0 ''Basic Ym9iOng='' demo_store) = Some demo_user"
    using checkBasicAuth_complete [of demo_store demo_user "''Basic Ym9iOng=''" 0] by (simp add: demo_user_def)
  then show ?thesis by (simp add: authorize_eq c proxyAuthAllowed_def Let_def)
qed

lemma demo_bob_access: "p_rules q = p_rules demo_proxy \<Longrightarrow> fst (checkAccess 0 (Some demo_user) ''example.com'' q) = 0"
proof -
  assume "p_rules q = p_rules demo_proxy"
  moreover have "normalizeHost ''example.com'' = ''example.com''" by code_simp
  moreover have "c_GlobalRules demo_config = zero_rules" by (simp add: demo_config_def zero_config_def)
  ultimately show ?thesis
    by (simp add: checkAccess_def Evaluate_def Rebuild_def zero_rules_def Let_def)
      (simp add: demo_user_def zero_user_def rebuild_user_def)
qed

lemma demo_bob_serve:
  "\<exists>ans p'. ServeHTTP demo_env demo_net demo_bob demo_proxy = (ans, [Forwarded (outgoing ''10.0.0.1'' demo_bob)], p')"
proof -
  have c: "clientAddr demo_bob = ''10.0.0.1''" by (simp add: demo_bob_def demo_request_def clientAddr_def) code_simp
  have t: "target_of demo_bob = ''example.com''" "rq_Method demo_bob \<noteq> ''CONNECT''" "switched_on demo_config demo_bob"
    by (simp_all add: target_of_def switched_on_def demo_bob_def demo_request_def)
  let ?q = "snd (authorize demo_env demo_bob ''10.0.0.1'' demo_proxy)"
  have "fst (fst (enter (Some demo_user) demo_config ?q)) = 0"
    by (simp add: enter_sel authorize_keeps tryEnterConn_def user_cap_def demo_config_def zero_proxy_def demo_user_def
        zero_user_def add32_def int32_def userConnCount_def Let_def)
  moreover have "ServeHTTP demo_env demo_net demo_bob demo_proxy =
      with_slot demo_env (Some demo_user) demo_config ''example.com'' demo_bob (do_work demo_env demo_net (Some demo_user) demo_bob) ?q"
    using ServeHTTP_on [of demo_proxy demo_bob demo_env demo_net] t c by (simp add: split_beta demo_bob_authorized)
  ultimately show ?thesis
    using t c demo_bob_access [of ?q] forward_reserved_keeps(3) [of demo_env demo_net "Some demo_user" demo_bob]
    by (simp add: with_slot_def do_work_def split_beta authorize_keeps)
qed

theorem authorization_reaches_upstream_witness:
  "\<exists>u \<in> {demo_admin, demo_user}. presents_password
     (header_get (rq_Header (outgoing ''10.0.0.1'' demo_bob)) ''Authorization'') u"
proof -
  obtain ans p' where s: "ServeHTTP demo_env demo_net demo_bob demo_proxy =
      (ans, [Forwarded (outgoing ''10.0.0.1'' demo_bob)], p')" using demo_bob_serve by blast
  have "header_get (rq_Header demo_bob) ''Proxy-Authorization'' = []"
    by (simp add: demo_bob_def) (simp add: header_get_def)
  then show ?thesis using authorization_reaches_upstream [OF s] by auto
qed

end
