(* ===== verification/Contract.thy ===== *)
theory Contract
  imports Auth
begin

text \<open>
  What the operations of the running proxy promise each other. The invariants of its state: of the
  users, of the ranges of the numbers, of the agreement of indexes, rules, file and listeners with
  the configuration, of the live counters. The contract of an admin handler, and the interface of a
  step of the program (locales \<open>admin_handler\<close>, \<open>core_keeping\<close>, \<open>proxy_step\<close>), which the
  theories of the handlers interpret.
\<close>

section \<open>The invariant of the configuration\<close>

text \<open>
  What the handlers promise of the users: identifiers are present and unique, names are unique
  without regard to case, and there is an enabled admin.
\<close>

definition has_admin :: "Config \<Rightarrow> bool" where
  "has_admin c = list_ex (\<lambda>u. u_Enabled u \<and> u_Role u = ''admin'') (c_Users c)"

definition config_ok :: "Config \<Rightarrow> bool" where
  "config_ok c \<longleftrightarrow> users_distinct c \<and> list_all (\<lambda>u. u_ID u \<noteq> []) (c_Users c) \<and> has_admin c"

text \<open>Applying a configuration never touches the store; a change ends in one of the two configurations.\<close>

lemma bind_store: "p_store (snd (bind env k a p)) = p_store p" "p_disk (snd (bind env k a p)) = p_disk p"
  by (auto simp: bind_def split: option.splits)

lemma shutdownServer_store [simp]: "p_store (shutdownServer s p) = p_store p" "p_disk (shutdownServer s p) = p_disk p"
  by (auto simp: shutdownServer_def split: option.splits)

lemma rebind_store [simp]:
  "p_store (case bind env k a p of (Some e, q) \<Rightarrow> q | (None, q) \<Rightarrow> shutdownServer s q) = p_store p"
  "p_disk (case bind env k a p of (Some e, q) \<Rightarrow> q | (None, q) \<Rightarrow> shutdownServer s q) = p_disk p"
  using bind_store [of env k a p]
  by (cases "bind env k a p"; cases "fst (bind env k a p)"; simp)+

lemma OnConfigChanged_store [simp]:
  "p_store (OnConfigChanged env c p) = p_store p" "p_disk (OnConfigChanged env c p) = p_disk p"
  by (simp_all add: OnConfigChanged_def rebindIfChanged_def applyTransport_def Let_def)

lemma update_config_cfg:
  "cfg_of (snd (update_config env fn p)) = (case fn (cfg_of p) of Inl _ \<Rightarrow> cfg_of p | Inr c \<Rightarrow> c)"
  by (auto simp: update_config_def Update_def store_update_def Let_def split: sum.splits prod.splits option.splits)

lemma update_config_ok:
  assumes "config_ok (cfg_of p)" "\<And>c. fn (cfg_of p) = Inr c \<Longrightarrow> config_ok c"
  shows "config_ok (cfg_of (snd (update_config env fn p)))"
  using assms by (auto simp: update_config_cfg split: sum.splits)

section \<open>What a handler does to the configuration\<close>

text \<open>What a random identifier must be for a new user: not empty, and not one that is in use.\<close>

definition fresh_id :: "Env \<Rightarrow> Proxy \<Rightarrow> bool" where
  "fresh_id env p \<longleftrightarrow> en_id (e_entropy env) \<noteq> [] \<and> randomHex (en_id (e_entropy env)) \<notin> u_ID ` set (c_Users (cfg_of p))"

text \<open>
  What a change of the configuration is about: configuration, indexes, rules and file, and the
  listeners. No handler of the admin port touches anything else of that, nor the live counters. The
  contract of a handler: it leaves this core alone, or does to it what one \<open>Store.Update\<close> does
  with a function that keeps the configuration's invariant and the ranges of its numbers.
\<close>

definition conf :: "Proxy \<Rightarrow> Config \<times> (string, nat) gomap \<times> (string, nat) gomap \<times> RulesEngine \<times> Disk" where
  "conf p = (cfg_of p, s_byID (p_store p), s_byName (p_store p), p_rules p, p_disk p)"

definition core where
  "core p = (conf p, listeners p, p_live p)"

lemmas core_defs = core_def conf_def listeners_def

lemma core_parts: "core q = core p \<longleftrightarrow> conf q = conf p \<and> listeners q = listeners p \<and> p_live q = p_live p"
  by (auto simp: core_def)

definition lawful :: "Env \<Rightarrow> Proxy \<Rightarrow> (Config \<Rightarrow> error + Config) \<Rightarrow> bool" where
  "lawful env p fn \<longleftrightarrow> (\<forall>c. fn (cfg_of p) = Inr c \<longrightarrow>
     (config_ok (cfg_of p) \<and> fresh_id env p \<longrightarrow> config_ok c) \<and> (config_fits (cfg_of p) \<longrightarrow> config_fits c))"

text \<open>
  Beside the core, the state of authentication: the cached verdicts and the hash for unknown names.
  A check of a credential changes it; such a step leaves the core alone and keeps the verdicts right.
\<close>

definition inner where
  "inner p = (core p, s_authCache (p_store p), p_dummyHash p)"

lemma inner_core: "inner q = inner p \<Longrightarrow> core q = core p"
  by (simp add: inner_def)

lemma auth_ok_inner:
  assumes "inner q = inner p"
  shows "auth_ok q = auth_ok p"
proof -
  have "cfg_of q = cfg_of p" "s_authCache (p_store q) = s_authCache (p_store p)" "p_dummyHash q = p_dummyHash p"
    using assms by (simp_all add: inner_def core_defs)
  then show ?thesis unfolding auth_ok_def store_auth_ok_def verify.sound_def cached_verdict_def by (simp only:)
qed

definition gentle :: "Proxy \<Rightarrow> Proxy \<Rightarrow> bool" where
  "gentle p q \<longleftrightarrow> core q = core p \<and> (auth_ok p \<longrightarrow> auth_ok q)"

lemma gentle_inner [intro]: "inner q = inner p \<Longrightarrow> gentle p q"
  unfolding gentle_def using auth_ok_inner [of q p] inner_core [of q p] by blast

lemma gentle_trans: "gentle p q \<Longrightarrow> gentle q r \<Longrightarrow> gentle p r"
  by (simp add: gentle_def)

definition moves :: "Env \<Rightarrow> Proxy \<Rightarrow> Proxy \<Rightarrow> bool" where
  "moves env p q \<longleftrightarrow> (\<exists>p1. gentle p p1 \<and>
     (inner q = inner p1 \<or> (\<exists>fn. lawful env p1 fn \<and> inner q = inner (snd (update_config env fn p1)))))"

lemma moves_gentle: "gentle p q \<Longrightarrow> moves env p q"
  by (auto simp: moves_def)

lemma moves_same [intro]: "inner q = inner p \<Longrightarrow> moves env p q"
  by (rule moves_gentle) blast

lemma moves_update:
  assumes "lawful env p fn" "update_config env fn p = (e, p1)" "inner q = inner p1"
  shows "moves env p q"
proof -
  have "gentle p p" by blast
  moreover have "inner q = inner (snd (update_config env fn p))" using assms(2,3) by simp
  ultimately show ?thesis using assms(1) unfolding moves_def by blast
qed

lemma moves_from: "gentle p q \<Longrightarrow> moves env q s \<Longrightarrow> moves env p s"
  unfolding moves_def using gentle_trans by blast

lemma inner_simps [simp]:
  "inner (audit_record env a w d p) = inner p" "inner (p\<lparr>p_daily := x\<rparr>) = inner p" "inner (p\<lparr>p_logs := y\<rparr>) = inner p"
  "inner (p\<lparr>p_defaultPassCache := z\<rparr>) = inner p" "inner (p\<lparr>p_loginFails := l\<rparr>) = inner p"
  "inner (p\<lparr>p_proxyAuthFails := b, p_accountFails := c\<rparr>) = inner p"
  by (simp_all add: inner_def core_defs audit_record_def)

lemma inner_isDefaultPassword [simp]: "inner (snd (isDefaultPassword u p)) = inner p"
  by (simp add: isDefaultPassword_def Let_def split: option.split)

lemma randomHex_nonempty: "bs \<noteq> [] \<Longrightarrow> randomHex bs \<noteq> []"
  by (cases bs) (simp_all add: randomHex_def hex_encode_def)

lemma lawfulI:
  assumes "\<And>c. fn (cfg_of p) = Inr c \<Longrightarrow> config_ok (cfg_of p) \<Longrightarrow> fresh_id env p \<Longrightarrow> config_ok c"
    and "\<And>c. fn (cfg_of p) = Inr c \<Longrightarrow> config_fits (cfg_of p) \<Longrightarrow> config_fits c"
  shows "lawful env p fn"
  using assms by (simp add: lawful_def)

section \<open>What follows from the contract\<close>

text \<open>A change that is reported as done: the function succeeded, the indexes are fresh.\<close>

lemma update_config_done:
  assumes "update_config env fn p = (None, p')"
  obtains c where "fn (cfg_of p) = Inr c" "cfg_of p' = c" "index_ok (p_store p')"
  using assms by (auto simp: update_config_def Update_def store_update_def Let_def split: sum.splits prod.splits option.splits)

definition save_succeeds :: "Env \<Rightarrow> bool" where
  "save_succeeds env \<longleftrightarrow> io_tmp_partial (e_save env) = None \<and> io_rename_error (e_save env) = None"

lemma update_config_saved:
  assumes "save_succeeds env"
  shows "fst (update_config env fn p) = (case fn (cfg_of p) of Inl e \<Rightarrow> Some e | Inr _ \<Rightarrow> None)"
  using assms by (auto simp: save_succeeds_def update_config_def Update_def store_update_def saveLocked_def Let_def
      split: sum.splits)

text \<open>
  The running proxy agrees with its configuration: the indexes and the compiled rules are those of
  the configuration, and the file on disk decodes to a configuration that a start would bring to the
  same (a start draws a new session key and fills in defaults).
\<close>

definition synced :: "Proxy \<Rightarrow> bool" where
  "synced p \<longleftrightarrow> index_ok (p_store p) \<and> p_rules p = Rebuild NewRulesEngine (cfg_of p)
     \<and> (\<exists>t c. dk_config (p_disk p) = Some t \<and> dec_doc t zero_config = Some c \<and> (\<forall>en. migrate en c = migrate en (cfg_of p)))"

lemma synced_conf: "conf q = conf p \<Longrightarrow> synced q = synced p"
  by (simp add: conf_def synced_def index_ok_def)

lemma listening_cong: "listeners q = listeners p \<Longrightarrow> listening q = listening p"
  by (simp add: listeners_def listening_def)

lemma bound_cong: "conf q = conf p \<Longrightarrow> listeners q = listeners p \<Longrightarrow> bound_as_configured q = bound_as_configured p"
  by (simp add: conf_def listeners_def bound_as_configured_def)

lemma Rebuild_any: "Rebuild e c = Rebuild NewRulesEngine c"
  by (simp add: Rebuild_def)

lemma OnConfigChanged_rules [simp]: "p_rules (OnConfigChanged env c p) = Rebuild NewRulesEngine c"
proof -
  have b: "p_rules (snd (bind env k a p)) = p_rules p" for k a p by (simp add: bind_def split: option.split)
  have "p_rules (case bind env k a p of (Some e, q) \<Rightarrow> q | (None, q) \<Rightarrow> shutdownServer s q) = p_rules p" for k a p s
    using b [of k a p] by (cases "bind env k a p"; cases "fst (bind env k a p)") (simp_all add: shutdownServer_def split: option.split)
  then show ?thesis by (simp add: OnConfigChanged_def rebindIfChanged_def Let_def) (use Rebuild_any in blast)
qed

lemma update_config_syncs:
  assumes "save_succeeds env" "fn (cfg_of p) = Inr c" "config_fits c"
  shows "synced (snd (update_config env fn p))"
proof -
  obtain e d' where sv: "saveLocked (e_save env) (p_disk p) c = (e, d')" by fastforce
  with assms(1) have "e = None" by (auto simp: saveLocked_def save_succeeds_def)
  with sv saveLocked_ok [of "e_save env" "p_disk p" c d'] assms(2) dec_doc_enc_doc [OF assms(3)] show ?thesis
    by (auto simp: update_config_def Update_def store_update_def synced_def)
qed

lemma update_config_failed:
  "fn (cfg_of p) = Inl e \<Longrightarrow> snd (update_config env fn p) = p"
  by (simp add: update_config_def Update_def store_update_def)

lemma update_config_live [simp]: "p_live (snd (update_config env fn p)) = p_live p"
proof -
  have "p_live (rebind env k a old q) = p_live q" for k a old q
    by (cases "e_listen env a"; cases old; cases k) (simp_all add: rebind_def bind_def shutdownServer_def)
  then have "p_live (OnConfigChanged env c q) = p_live q" for c q
    by (simp add: OnConfigChanged_def rebindIfChanged_rebind applyTransport_def Let_def)
  then show ?thesis by (simp add: update_config_def Let_def split: prod.split option.split)
qed

text \<open>What an update does to the listeners: nothing, or what the new configuration asks for.\<close>

lemma update_config_listening:
  assumes "listening p"
  shows "listening (snd (update_config env fn p))"
proof -
  have "listening (p\<lparr>p_store := s, p_disk := d\<rparr>)" for s d using assms by (simp add: listening_def)
  then show ?thesis by (simp add: update_config_def OnConfigChanged_listening Let_def split: prod.split option.split)
qed

lemma update_config_bound:
  assumes "bound_as_configured p" "save_succeeds env" "\<forall>a. e_listen env a = None"
  shows "bound_as_configured (snd (update_config env fn p))"
proof (cases "fn (cfg_of p)")
  case (Inl e)
  with assms(1) show ?thesis by (simp add: update_config_failed)
next
  case (Inr c)
  obtain e d' where sv: "saveLocked (e_save env) (p_disk p) c = (e, d')" by fastforce
  with assms(2) have "e = None" by (auto simp: saveLocked_def save_succeeds_def)
  with sv Inr OnConfigChanged_applied [OF assms(3)] show ?thesis
    by (simp add: update_config_def Update_def store_update_def bound_as_configured_def rebuildIndex_def)
qed

lemma update_config_core:
  assumes "core p = core q"
  shows "core (snd (update_config env fn p)) = core (snd (update_config env fn q))"
proof -
  have l: "listeners (r\<lparr>p_store := s, p_disk := d\<rparr>) = listeners r" for r s d by (simp add: listeners_def)
  have "conf (snd (update_config env fn p)) = conf (snd (update_config env fn q))"
    using assms by (cases "fn (cfg_of q)"; cases "fst (saveLocked (e_save env) (p_disk q) (projr (fn (cfg_of q))))")
      (simp_all add: core_parts conf_def update_config_def Update_def store_update_def rebuildIndex_def split_beta)
  moreover have "listeners (snd (update_config env fn p)) = listeners (snd (update_config env fn q))"
  proof (cases "fn (cfg_of q)")
    case (Inl e)
    then show ?thesis using assms by (simp add: core_parts conf_def update_config_failed)
  next
    case (Inr c)
    obtain e d' where "saveLocked (e_save env) (p_disk q) c = (e, d')" by fastforce
    then show ?thesis using assms Inr
      by (cases e) (auto simp: core_parts conf_def update_config_def Update_def store_update_def l intro!: listeners_OnConfigChanged)
  qed
  ultimately show ?thesis using assms by (simp add: core_parts)
qed

lemma moves_core:
  assumes "moves env p q"
  shows "core q = core p \<or> (\<exists>fn. lawful env p fn \<and> core q = core (snd (update_config env fn p)))"
proof -
  obtain p1 where p1: "core p1 = core p" and
    "inner q = inner p1 \<or> (\<exists>fn. lawful env p1 fn \<and> inner q = inner (snd (update_config env fn p1)))"
    using assms by (auto simp: moves_def gentle_def)
  then show ?thesis
  proof (elim disjE exE conjE)
    fix fn assume "lawful env p1 fn" "inner q = inner (snd (update_config env fn p1))"
    moreover have "lawful env p fn = lawful env p1 fn" using p1 by (simp add: lawful_def fresh_id_def core_defs)
    ultimately show ?thesis using update_config_core [OF p1, of env fn] inner_core by metis
  next
    assume "inner q = inner p1"
    then show ?thesis using p1 inner_core [of q p1] by simp
  qed
qed

lemma moves_config_ok: "moves env p q \<Longrightarrow> config_ok (cfg_of p) \<Longrightarrow> fresh_id env p \<Longrightarrow> config_ok (cfg_of q)"
  using update_config_ok [of p _ env] by (auto dest!: moves_core simp: lawful_def core_parts conf_def)

lemma moves_fits: "moves env p q \<Longrightarrow> config_fits (cfg_of p) \<Longrightarrow> config_fits (cfg_of q)"
  using update_config_cfg [of env _ p]
  by (auto dest!: moves_core simp: lawful_def core_parts conf_def) (metis sum.case(1,2) sum.exhaust)

lemma moves_synced:
  assumes "moves env p q" "synced p" "config_fits (cfg_of p)" "save_succeeds env"
  shows "synced q"
proof -
  have "synced (snd (update_config env fn p))" if "lawful env p fn" for fn
  proof (cases "fn (cfg_of p)")
    case (Inr c)
    with that assms(3) have "config_fits c" by (simp add: lawful_def)
    with assms(4) Inr show ?thesis by (rule update_config_syncs)
  qed (simp add: update_config_failed assms(2))
  with moves_core [OF assms(1)] assms(2) show ?thesis unfolding core_parts using synced_conf by metis
qed

lemma moves_listening: "moves env p q \<Longrightarrow> listening p \<Longrightarrow> listening q"
  using moves_core [of env p q, unfolded core_parts] listening_cong update_config_listening by metis

lemma moves_bound:
  "moves env p q \<Longrightarrow> bound_as_configured p \<Longrightarrow> save_succeeds env \<Longrightarrow> \<forall>a. e_listen env a = None \<Longrightarrow> bound_as_configured q"
  using moves_core [of env p q, unfolded core_parts] bound_cong update_config_bound by metis

lemma moves_live: "moves env p q \<Longrightarrow> p_live q = p_live p"
  by (auto dest!: moves_core simp: core_parts)

text \<open>
  Verdicts stay right as long as no hash in the configuration holds a zero byte; only a configuration
  file or an import can bring one in.
\<close>

definition clean_hashes :: "Config \<Rightarrow> bool" where
  "clean_hashes c = list_all (\<lambda>u. nul \<notin> set (u_PasswordHash u)) (c_Users c)"

lemma auth_ok_clean: "auth_ok p \<Longrightarrow> clean_hashes (cfg_of p)"
  by (simp add: auth_ok_def store_auth_ok_def clean_hashes_def list_all_iff)

lemma auth_okI:
  assumes "auth_ok p" "s_authCache (p_store q) = s_authCache (p_store p)" "p_dummyHash q = p_dummyHash p" "clean_hashes (cfg_of q)"
  shows "auth_ok q"
  using assms unfolding auth_ok_def store_auth_ok_def verify.sound_def cached_verdict_def clean_hashes_def list_all_iff
  by (elim conjE, intro conjI) (simp_all only:)

lemma update_config_auth [simp]:
  "s_authCache (p_store (snd (update_config env fn p))) = s_authCache (p_store p)"
  "p_dummyHash (snd (update_config env fn p)) = p_dummyHash p"
proof -
  have "p_dummyHash (rebind env k a old q) = p_dummyHash q" for k a old q
    by (cases "e_listen env a"; cases old; cases k) (simp_all add: rebind_def bind_def shutdownServer_def)
  then have "p_dummyHash (OnConfigChanged env c q) = p_dummyHash q" for c q
    by (simp add: OnConfigChanged_def rebindIfChanged_rebind applyTransport_def Let_def)
  then show "p_dummyHash (snd (update_config env fn p)) = p_dummyHash p"
    by (simp add: update_config_def Let_def split: prod.split option.split)
  show "s_authCache (p_store (snd (update_config env fn p))) = s_authCache (p_store p)"
    by (auto simp: update_config_def Update_def store_update_def rebuildIndex_def Let_def split: sum.split prod.split option.split)
qed

lemma update_config_TLS [simp]: "p_adminTLS (snd (update_config env fn p)) = p_adminTLS p"
  by (simp add: update_config_def Let_def split: prod.split option.split)

lemma moves_TLS: "moves env p q \<Longrightarrow> p_adminTLS q = p_adminTLS p"
  by (auto dest!: moves_core simp: core_parts listeners_def)

lemma moves_auth:
  assumes "moves env p q" "auth_ok p" "clean_hashes (cfg_of q)"
  shows "auth_ok q"
proof -
  obtain p1 where p1: "auth_ok p1" and
    q: "inner q = inner p1 \<or> (\<exists>fn. inner q = inner (snd (update_config env fn p1)))"
    using assms(1,2) by (auto simp: moves_def gentle_def)
  from q show ?thesis
    by (elim disjE exE) (rule auth_okI [OF p1]; simp add: inner_def assms(3))+
qed

section \<open>Steps of the program\<close>

text \<open>
  The interface between the invariants and whatever may run next: a step of the program, with any
  environment and input, keeps the invariants. A handler meets it through the contract
  \<^const>\<open>moves\<close>; an operation that leaves configuration and listeners alone meets it as it is.
\<close>

locale proxy_step =
  fixes step :: "Env \<Rightarrow> 'i \<Rightarrow> Proxy \<Rightarrow> Proxy"
  assumes keeps_config: "config_ok (cfg_of p) \<Longrightarrow> fresh_id env p \<Longrightarrow> config_ok (cfg_of (step env x p))"
    and keeps_fits: "config_fits (cfg_of p) \<Longrightarrow> config_fits (cfg_of (step env x p))"
    and keeps_live: "live_ok (p_live p) \<Longrightarrow> live_ok (p_live (step env x p))"
    and keeps_TLS: "p_adminTLS (step env x p) = p_adminTLS p"
    and keeps_listening: "listening p \<Longrightarrow> listening (step env x p)"
    and keeps_sync: "synced p \<Longrightarrow> config_fits (cfg_of p) \<Longrightarrow> save_succeeds env \<Longrightarrow> synced (step env x p)"
    and keeps_bound: "bound_as_configured p \<Longrightarrow> save_succeeds env \<Longrightarrow> \<forall>a. e_listen env a = None
      \<Longrightarrow> bound_as_configured (step env x p)"
    and keeps_auth: "auth_ok p \<Longrightarrow> clean_hashes (cfg_of (step env x p)) \<Longrightarrow> auth_ok (step env x p)"

locale admin_handler =
  fixes handler :: "Env \<Rightarrow> Request \<Rightarrow> Proxy \<Rightarrow> Response \<times> Proxy"
  assumes contract: "moves env p (snd (handler env r p))"

sublocale admin_handler \<subseteq> proxy_step "\<lambda>env r p. snd (handler env r p)"
proof unfold_locales
  fix p env r
  note c = contract [of env p r]
  show "live_ok (p_live p) \<Longrightarrow> live_ok (p_live (snd (handler env r p)))" using moves_live [OF c] by simp
  show "auth_ok p \<Longrightarrow> clean_hashes (cfg_of (snd (handler env r p))) \<Longrightarrow> auth_ok (snd (handler env r p))"
    using moves_auth [OF c] .
  show "p_adminTLS (snd (handler env r p)) = p_adminTLS p" using moves_TLS [OF c] .
qed (use contract moves_config_ok moves_fits moves_listening moves_synced moves_bound in blast)+

locale core_keeping =
  fixes quiet :: "Env \<Rightarrow> 'i \<Rightarrow> Proxy \<Rightarrow> Proxy"
  assumes quiet_conf: "conf (quiet env x p) = conf p"
    and quiet_listeners: "listeners (quiet env x p) = listeners p"
    and quiet_live: "live_ok (p_live p) \<Longrightarrow> live_ok (p_live (quiet env x p))"
    and quiet_auth: "auth_ok p \<Longrightarrow> auth_ok (quiet env x p)"
begin

lemma quiet_cfg: "cfg_of (quiet env x p) = cfg_of p"
  using quiet_conf [of env x p] by (simp add: conf_def)

lemma quiet_TLS: "p_adminTLS (quiet env x p) = p_adminTLS p"
  using quiet_listeners [of env x p] by (simp add: listeners_def)

end

sublocale core_keeping \<subseteq> proxy_step quiet
  by unfold_locales (simp_all add: quiet_cfg quiet_live quiet_auth quiet_TLS listening_cong [OF quiet_listeners] synced_conf [OF quiet_conf]
    bound_cong [OF quiet_conf quiet_listeners])

text \<open>Authentication never touches that part.\<close>

lemma store_core_checkBasicAuth [simp]:
  "s_byID (snd (checkBasicAuth now h s)) = s_byID s" "s_byName (snd (checkBasicAuth now h s)) = s_byName s"
  using checkBasicAuth_state [of now h s] by (auto simp: verifyCached_store)

lemma core_equalizeAuthTiming [simp]: "core (equalizeAuthTiming env name pw p) = core p"
  by (simp add: core_defs) (simp add: equalizeAuthTiming_def getDummyHash_def Let_def verifyCached_store split: option.split)

lemma core_checked: "core (checked env r p) = core p"
  using validAdminFromRequest_snd [of "e_now env" r "p_store p"]
  by (auto simp: core_defs checked_def admin_admitted_def split: prod.split bool.split)

lemma gentle_checked: "gentle p (checked env r p)"
  using checked_keeps(3) by (simp add: gentle_def core_checked)

lemma inner_gate [simp]: "inner (admin_accepted r u p) = inner p"
  by (simp add: admin_accepted_def split: bool.split)

lemma core_admin_refused [simp]: "core (admin_refused env r p) = core p"
  using inner_core [OF inner_simps(6)] by (simp add: admin_refused_def Let_def)

lemma gentle_refused: "gentle p (admin_refused env r p)"
  using admin_refused_keeps(2) by (simp add: gentle_def)

lemma inner_admitted [simp]: "inner (snd (admin_admitted env r p)) = inner p"
  by (auto simp: inner_def core_defs admin_admitted_def split: prod.split bool.split)

lemmas core_gate [simp] = inner_admitted [THEN inner_core] inner_gate [THEN inner_core]

lemma requireAdmin_moves:
  assumes "\<And>u p'. moves env p' (snd (next (as_admin u r) p'))"
  shows "moves env p (snd (requireAdmin env next r p))"
proof (cases "admin_throttled (e_now env) r p")
  case True
  then show ?thesis by (auto simp: requireAdmin_throttled)
next
  case False
  show ?thesis
  proof (cases "fst (validAdminFromRequest (e_now env) r (p_store p))")
    case None
    then show ?thesis
      using gentle_trans [OF gentle_checked gentle_refused] by (auto simp: requireAdmin_admitted [OF False] intro!: moves_gentle)
  next
    case (Some u)
    have "gentle p (admin_accepted r u (checked env r p))" using gentle_trans [OF gentle_checked gentle_inner] by simp
    with moves_from [OF this assms] Some show ?thesis by (simp add: requireAdmin_admitted [OF False])
  qed
qed

end
