(* ===== verification/Admin_Users.thy ===== *)
theory Admin_Users
  imports Contract
begin

text \<open>
  User management of \<^verbatim>\<open>admin.go\<close>: the views, the validation of request bodies, and the
  handlers that list, create, change, delete and reset users. A handler takes the environment, the
  request and the proxy and returns the response and the proxy. The function it passes to
  \<open>Store.Update\<close> is a definition of its own, from the configuration to an error or a new
  configuration.
\<close>

section \<open>Requests\<close>

definition adminName :: "Request \<Rightarrow> string" where
  "adminName r = header_get (rq_Header r) ''X-Admin-User''"

definition maxAdminBody :: nat where "maxAdminBody = 2 ^ 20"

text \<open>
  \<open>json.NewDecoder(http.MaxBytesReader(w, r.Body, limit)).Decode(&x)\<close>: the first JSON value of
  the body, complete within the limit; what follows it is not read.
\<close>

definition Decode :: "nat \<Rightarrow> (json \<Rightarrow> 'a \<Rightarrow> 'a option) \<Rightarrow> string \<Rightarrow> 'a \<Rightarrow> 'a option" where
  "Decode limit dec body x =
     (let s = take limit body in
      case parse_value (Suc (length s)) s of None \<Rightarrow> None
      | Some (v, _) \<Rightarrow> if nesting v \<le> maxNestingDepth then dec v x else None)"

lemma Decode_short:
  "length body \<le> limit \<Longrightarrow>
     Decode limit dec body x = (case parse_value (Suc (length body)) body of None \<Rightarrow> None
       | Some (v, _) \<Rightarrow> if nesting v \<le> maxNestingDepth then dec v x else None)"
  by (simp add: Decode_def)

definition jok :: json where "jok = JObj [(''ok'', JBool True)]"

definition path_id :: "Request \<Rightarrow> string" where
  "path_id r = hd (SplitByte (TrimPrefix (ul_Path (rq_URL r)) ''/admin/api/users/'') CHR ''/'')"

text \<open>A field of a patch: a nil pointer leaves the target as it is.\<close>

definition opt_upd :: "(('a \<Rightarrow> 'a) \<Rightarrow> 'b \<Rightarrow> 'b) \<Rightarrow> 'a option \<Rightarrow> 'b \<Rightarrow> 'b" where
  "opt_upd upd v x = (case v of None \<Rightarrow> x | Some a \<Rightarrow> upd (\<lambda>_. a) x)"

section \<open>Names\<close>

definition is_alnum :: "char \<Rightarrow> bool" where
  "is_alnum c \<longleftrightarrow> is_digit c \<or> (65 \<le> byte_of c \<and> byte_of c \<le> 90) \<or> (97 \<le> byte_of c \<and> byte_of c \<le> 122)"

definition usernameRe :: "string \<Rightarrow> bool" where
  "usernameRe s =
     (case s of [] \<Rightarrow> False
      | c # cs \<Rightarrow> is_alnum c \<and> 1 \<le> length cs \<and> length cs \<le> 63
          \<and> list_all (\<lambda>d. is_alnum d \<or> d = CHR ''.'' \<or> d = CHR ''_'' \<or> d = CHR ''-'') cs)"

definition usernameTaken :: "Config \<Rightarrow> string \<Rightarrow> string \<Rightarrow> bool" where
  "usernameTaken c name excludeID = list_ex (\<lambda>u. u_ID u \<noteq> excludeID \<and> EqualFold (u_Username u) name) (c_Users c)"

definition countEnabledAdmins :: "Config \<Rightarrow> string \<Rightarrow> nat" where
  "countEnabledAdmins c excludeID =
     length (filter (\<lambda>u. u_Role u = ''admin'' \<and> u_Enabled u \<and> u_ID u \<noteq> excludeID) (c_Users c))"

section \<open>Views\<close>

record userView =
  uv_ID :: string
  uv_Username :: string
  uv_Role :: string
  uv_Enabled :: bool
  uv_WhitelistOnly :: bool
  uv_Whitelist :: "string list"
  uv_Blacklist :: "string list"
  uv_MaxConns :: int
  uv_DailyTrafficMB :: int
  uv_CreatedAt :: string
  uv_LastUsedAt :: string
  uv_Stats :: UserStats
  uv_ActiveConns :: int
  uv_DefaultPassword :: bool

definition enc_view :: "userView \<Rightarrow> json" where
  "enc_view v = JObj
     [(''id'', JStr (uv_ID v)), (''username'', JStr (uv_Username v)), (''role'', JStr (uv_Role v)),
      (''enabled'', JBool (uv_Enabled v)), (''whitelist_only'', JBool (uv_WhitelistOnly v)),
      (''whitelist'', jstrings (uv_Whitelist v)), (''blacklist'', jstrings (uv_Blacklist v)),
      (''max_conns'', jint (uv_MaxConns v)), (''daily_traffic_mb'', jint (uv_DailyTrafficMB v)),
      (''created_at'', JStr (uv_CreatedAt v)), (''last_used_at'', JStr (uv_LastUsedAt v)),
      (''stats'', enc_stats (uv_Stats v)), (''active_conns'', jint (uv_ActiveConns v)),
      (''default_password'', JBool (uv_DefaultPassword v))]"

definition toView :: "User \<Rightarrow> Proxy \<Rightarrow> userView \<times> Proxy" where
  "toView u p =
     (case isDefaultPassword u p of
        (d, p') \<Rightarrow>
          (\<lparr>uv_ID = u_ID u, uv_Username = u_Username u, uv_Role = u_Role u, uv_Enabled = u_Enabled u,
            uv_WhitelistOnly = u_WhitelistOnly u, uv_Whitelist = u_Whitelist u, uv_Blacklist = u_Blacklist u,
            uv_MaxConns = u_MaxConns u, uv_DailyTrafficMB = u_DailyTrafficMB u, uv_CreatedAt = u_CreatedAt u,
            uv_LastUsedAt = u_LastUsedAt u, uv_Stats = MergedStats (p_live p) u,
            uv_ActiveConns = userConnCount (u_ID u) (p_conns p), uv_DefaultPassword = d\<rparr>, p'))"

fun toViews :: "User list \<Rightarrow> Proxy \<Rightarrow> userView list \<times> Proxy" where
  "toViews [] p = ([], p)"
| "toViews (u # us) p = (case toView u p of (v, p1) \<Rightarrow> (case toViews us p1 of (vs, p2) \<Rightarrow> (v # vs, p2)))"

section \<open>Request bodies\<close>

record userBody =
  ub_Username :: string
  ub_Password :: string
  ub_Role :: string
  ub_Enabled :: "bool option"
  ub_WhitelistOnly :: "bool option"
  ub_Whitelist :: "string list option"
  ub_Blacklist :: "string list option"
  ub_MaxConns :: "int option"
  ub_DailyTrafficMB :: "int option"

definition zero_body :: userBody where
  "zero_body = \<lparr>ub_Username = [], ub_Password = [], ub_Role = [], ub_Enabled = None, ub_WhitelistOnly = None,
     ub_Whitelist = None, ub_Blacklist = None, ub_MaxConns = None, ub_DailyTrafficMB = None\<rparr>"

definition dec_body :: "(string \<times> json) list \<Rightarrow> userBody \<Rightarrow> userBody option" where
  "dec_body ms x = do {
     a \<leftarrow> dec_field ''username'' dec_string ms (ub_Username x);
     b \<leftarrow> dec_field ''password'' dec_string ms (ub_Password x);
     c \<leftarrow> dec_field ''role'' dec_string ms (ub_Role x);
     d \<leftarrow> dec_field ''enabled'' (dec_ptr dec_bool False) ms (ub_Enabled x);
     e \<leftarrow> dec_field ''whitelist_only'' (dec_ptr dec_bool False) ms (ub_WhitelistOnly x);
     f \<leftarrow> dec_field ''whitelist'' (dec_ptr dec_strings []) ms (ub_Whitelist x);
     g \<leftarrow> dec_field ''blacklist'' (dec_ptr dec_strings []) ms (ub_Blacklist x);
     h \<leftarrow> dec_field ''max_conns'' (dec_ptr dec_int 0) ms (ub_MaxConns x);
     i \<leftarrow> dec_field ''daily_traffic_mb'' (dec_ptr dec_int 0) ms (ub_DailyTrafficMB x);
     Some \<lparr>ub_Username = a, ub_Password = b, ub_Role = c, ub_Enabled = d, ub_WhitelistOnly = e, ub_Whitelist = f,
       ub_Blacklist = g, ub_MaxConns = h, ub_DailyTrafficMB = i\<rparr>}"

text \<open>The error of a validation, \<^const>\<open>None\<close> when there is none.\<close>

fun validatePatterns :: "string list \<Rightarrow> string option" where
  "validatePatterns [] = None"
| "validatePatterns (pat # pats) =
     (if TrimSpace pat = [] then validatePatterns pats
      else case compilePattern pat of
        Inl err \<Rightarrow> Some (''invalid pattern '' @ quote pat @ '': '' @ error_message err)
      | Inr _ \<Rightarrow> validatePatterns pats)"

definition outside :: "int \<Rightarrow> int \<Rightarrow> int option \<Rightarrow> bool" where
  "outside lo hi v = (case v of None \<Rightarrow> False | Some n \<Rightarrow> n < lo \<or> n > hi)"

definition validate :: "bool \<Rightarrow> userBody \<Rightarrow> string option" where
  "validate create b =
     (let opt = (\<lambda>s. \<not> create \<and> s = []) in
      if \<not> opt (ub_Username b) \<and> \<not> usernameRe (ub_Username b)
      then Some ''username must be 2-64 chars: letters, digits, dot, dash, underscore''
      else if \<not> opt (ub_Role b) \<and> ub_Role b \<noteq> ''user'' \<and> ub_Role b \<noteq> ''admin'' then Some ''role must be user or admin''
      else if \<not> opt (ub_Password b) \<and> length (ub_Password b) < 6 then Some ''password must be at least 6 characters''
      else if outside 0 100000 (ub_MaxConns b) then Some ''max_conns out of range''
      else if outside 0 1000000 (ub_DailyTrafficMB b) then Some ''daily_traffic_mb out of range''
      else
        case (case ub_Whitelist b of None \<Rightarrow> None | Some l \<Rightarrow> validatePatterns l) of
          Some err \<Rightarrow> Some err
        | None \<Rightarrow> (case ub_Blacklist b of None \<Rightarrow> None | Some l \<Rightarrow> validatePatterns l))"

text \<open>The optional fields of a body applied to a user, in the order of the source.\<close>

definition patch_user :: "userBody \<Rightarrow> User \<Rightarrow> User" where
  "patch_user b u =
     opt_upd u_Enabled_update (ub_Enabled b)
      (opt_upd u_DailyTrafficMB_update (ub_DailyTrafficMB b)
        (opt_upd u_MaxConns_update (ub_MaxConns b)
          (opt_upd u_Blacklist_update (ub_Blacklist b)
            (opt_upd u_Whitelist_update (ub_Whitelist b)
              (opt_upd u_WhitelistOnly_update (ub_WhitelistOnly b) u)))))"

section \<open>Handlers\<close>

definition user_create_fn :: "User \<Rightarrow> Config \<Rightarrow> error + Config" where
  "user_create_fn u c =
     (if usernameTaken c (u_Username u) [] then Inl ErrDuplicateName else Inr (c\<lparr>c_Users := c_Users c @ [u]\<rparr>))"

text \<open>No case of the switch matches: nothing is written, which answers 200 with no body.\<close>

definition no_answer :: Response where
  "no_answer = \<lparr>rs_status = 200, rs_header = fmempty, rs_cookies = [], rs_body = []\<rparr>"

definition create_user :: "Env \<Rightarrow> Request \<Rightarrow> userBody \<Rightarrow> Proxy \<Rightarrow> Response \<times> Proxy" where
  "create_user env r b p =
     (case validate True b of Some err \<Rightarrow> (writeJSON 400 (jerror err), p)
      | None \<Rightarrow>
        if FindUserByName (p_store p) (ub_Username b) \<noteq> None
        then (writeJSON 409 (jerror ''username already exists''), p)
        else
          (case NewUser (e_entropy env) (e_now env) (ub_Username b) (ub_Password b) (ub_Role b) of
             Inl err \<Rightarrow> (writeJSON 500 (jerror (error_message err)), p)
           | Inr u0 \<Rightarrow>
              let u = patch_user b u0 in
              (case update_config env (user_create_fn u) p of
                 (Some ErrDuplicateName, p1) \<Rightarrow> (writeJSON 409 (jerror ''username already exists''), p1)
               | (Some err, p1) \<Rightarrow> (writeJSON 500 (jerror (error_message err)), p1)
               | (None, p1) \<Rightarrow>
                  let p2 = p1\<lparr>p_daily := addDaily (e_now env) (u_ID u) 0 (p_daily p1)\<rparr>;
                      p3 = audit_record env ''user.create'' (adminName r)
                             (''username='' @ u_Username u @ '' role='' @ u_Role u) p2
                  in case toView u p3 of (v, p4) \<Rightarrow> (writeJSON 201 (enc_view v), p4))))"

definition apiUsers :: "Env \<Rightarrow> Request \<Rightarrow> Proxy \<Rightarrow> Response \<times> Proxy" where
  "apiUsers env r p =
     (if rq_Method r = ''GET'' then
        (case toViews (c_Users (cfg_of p)) p of (vs, p') \<Rightarrow> (writeJSON 200 (JArr (map enc_view vs)), p'))
      else if rq_Method r = ''POST'' then
        (case Decode maxAdminBody (dec_struct dec_body) (rq_Body r) zero_body of
           None \<Rightarrow> (writeJSON 400 (jerror ''invalid body''), p)
         | Some b \<Rightarrow> create_user env r b p)
      else (no_answer, p))"

definition apiUserGet :: "Env \<Rightarrow> Request \<Rightarrow> Proxy \<Rightarrow> Response \<times> Proxy" where
  "apiUserGet env r p =
     (case FindUser (p_store p) (path_id r) of
        None \<Rightarrow> (writeJSON 404 (jerror ''user not found''), p)
      | Some u \<Rightarrow> (case toView u p of (v, p') \<Rightarrow> (writeJSON 200 (enc_view v), p')))"

text \<open>The position of the first user with an identifier.\<close>

fun user_pos :: "string \<Rightarrow> User list \<Rightarrow> nat option" where
  "user_pos i [] = None"
| "user_pos i (u # us) = (if u_ID u = i then Some 0 else map_option Suc (user_pos i us))"

text \<open>
  The update function of \<open>apiUserUpdate\<close> and its steps, with the random salt.
  \<open>c.Users[i]\<close> is changed in place, so the checks see the changed list.
\<close>

definition rename_user :: "userBody \<Rightarrow> User \<Rightarrow> User" where
  "rename_user b u = (if ub_Username b \<noteq> [] then u\<lparr>u_Username := ub_Username b\<rparr> else u)"

definition set_role :: "userBody \<Rightarrow> User \<Rightarrow> User" where
  "set_role b u = (if ub_Role b \<noteq> [] then u\<lparr>u_Role := ub_Role b\<rparr> else u)"

definition set_password :: "string option \<Rightarrow> userBody \<Rightarrow> User \<Rightarrow> User option" where
  "set_password salt b u =
     (if ub_Password b \<noteq> []
      then map_option (\<lambda>hash. u\<lparr>u_PasswordHash := hash, u_TokenEpoch := inc_int (u_TokenEpoch u)\<rparr>)
             (HashPassword salt (ub_Password b))
      else Some u)"

definition user_update_fn :: "string option \<Rightarrow> userBody \<Rightarrow> string \<Rightarrow> Config \<Rightarrow> error + Config" where
  "user_update_fn salt b i c =
     (case user_pos i (c_Users c) of None \<Rightarrow> Inl (ErrMsg ''user not found'')
      | Some k \<Rightarrow>
         let u1 = rename_user b (c_Users c ! k) in
         if usernameTaken (c\<lparr>c_Users := (c_Users c)[k := u1]\<rparr>) (u_Username u1) i then Inl ErrDuplicateName
         else
           (case set_password salt b (patch_user b (set_role b u1)) of
             None \<Rightarrow> Inl (ErrMsg ''entropy source failed'')
           | Some u4 \<Rightarrow>
              let c' = c\<lparr>c_Users := (c_Users c)[k := u4]\<rparr> in
              if (u_Role u4 \<noteq> ''admin'' \<or> \<not> u_Enabled u4) \<and> countEnabledAdmins c' i = 0
              then Inl ErrLastAdmin else Inr c'))"

definition show_bool :: "bool \<Rightarrow> string" where
  "show_bool b = (if b then ''true'' else ''false'')"

definition auditUserUpdate :: "Env \<Rightarrow> Request \<Rightarrow> string \<Rightarrow> userBody \<Rightarrow> Proxy \<Rightarrow> Proxy" where
  "auditUserUpdate env r i b p =
     (case FindUser (p_store p) i of None \<Rightarrow> p
      | Some u \<Rightarrow>
         audit_record env ''user.update'' (adminName r)
           (''username='' @ u_Username u
            @ (if ub_Role b \<noteq> [] then '' role='' @ ub_Role b else [])
            @ (case ub_Enabled b of None \<Rightarrow> [] | Some e \<Rightarrow> '' enabled='' @ show_bool e)
            @ (case ub_MaxConns b of None \<Rightarrow> [] | Some n \<Rightarrow> '' max_conns='' @ int_dec n)
            @ (case ub_DailyTrafficMB b of None \<Rightarrow> [] | Some n \<Rightarrow> '' daily_mb='' @ int_dec n)
            @ (if ub_Password b \<noteq> [] then '' password=changed'' else [])) p)"

definition apiUserUpdate :: "Env \<Rightarrow> Request \<Rightarrow> Proxy \<Rightarrow> Response \<times> Proxy" where
  "apiUserUpdate env r p =
     (let i = path_id r in
      case Decode maxAdminBody (dec_struct dec_body) (rq_Body r) zero_body of
        None \<Rightarrow> (writeJSON 400 (jerror ''invalid body''), p)
      | Some b \<Rightarrow>
         (case validate False b of Some err \<Rightarrow> (writeJSON 400 (jerror err), p)
          | None \<Rightarrow>
             if (case FindUserByName (p_store p) (ub_Username b) of None \<Rightarrow> False | Some other \<Rightarrow> u_ID other \<noteq> i)
             then (writeJSON 409 (jerror ''username already exists''), p)
             else
               (case update_config env (user_update_fn (en_salt (e_entropy env)) b i) p of
                  (Some ErrDuplicateName, p1) \<Rightarrow> (writeJSON 409 (jerror ''username already exists''), p1)
                | (Some ErrLastAdmin, p1) \<Rightarrow> (writeJSON 400 (jerror ''cannot remove the last enabled admin''), p1)
                | (Some err, p1) \<Rightarrow> (writeJSON 400 (jerror (error_message err)), p1)
                | (None, p1) \<Rightarrow> (writeJSON 200 jok, auditUserUpdate env r i b p1))))"

text \<open>The update function of \<open>apiUserDelete\<close>; the name it captures is that of the user deleted.\<close>

definition user_delete_fn :: "string \<Rightarrow> Config \<Rightarrow> error + Config" where
  "user_delete_fn i c =
     (case user_pos i (c_Users c) of None \<Rightarrow> Inl (ErrMsg ''user not found'')
      | Some k \<Rightarrow>
         let u = c_Users c ! k in
         if u_Role u = ''admin'' \<and> u_Enabled u \<and> countEnabledAdmins c i = 0 then Inl ErrLastAdmin
         else Inr (c\<lparr>c_Users := take k (c_Users c) @ drop (Suc k) (c_Users c)\<rparr>))"

definition name_of :: "string \<Rightarrow> Config \<Rightarrow> string" where
  "name_of i c = (case user_pos i (c_Users c) of None \<Rightarrow> [] | Some k \<Rightarrow> u_Username (c_Users c ! k))"

definition apiUserDelete :: "Env \<Rightarrow> Request \<Rightarrow> Proxy \<Rightarrow> Response \<times> Proxy" where
  "apiUserDelete env r p =
     (let i = path_id r; deleted = name_of i (cfg_of p) in
      case update_config env (user_delete_fn i) p of
        (Some ErrLastAdmin, p1) \<Rightarrow> (writeJSON 400 (jerror ''cannot remove the last enabled admin''), p1)
      | (Some err, p1) \<Rightarrow> (writeJSON 400 (jerror (error_message err)), p1)
      | (None, p1) \<Rightarrow> (writeJSON 200 jok, audit_record env ''user.delete'' (adminName r) (''username='' @ deleted) p1))"

definition user_password_fn :: "string \<Rightarrow> string \<Rightarrow> Config \<Rightarrow> error + Config" where
  "user_password_fn hash i c =
     (case user_pos i (c_Users c) of None \<Rightarrow> Inl (ErrMsg ''user not found'')
      | Some k \<Rightarrow>
         let u = c_Users c ! k in
         Inr (c\<lparr>c_Users := (c_Users c)[k := u\<lparr>u_PasswordHash := hash, u_TokenEpoch := inc_int (u_TokenEpoch u)\<rparr>]\<rparr>))"

definition dec_password :: "(string \<times> json) list \<Rightarrow> string \<Rightarrow> string option" where
  "dec_password ms x = dec_field ''password'' dec_string ms x"

definition apiUserPassword :: "Env \<Rightarrow> Request \<Rightarrow> Proxy \<Rightarrow> Response \<times> Proxy" where
  "apiUserPassword env r p =
     (let i = path_id r; who = name_of i (cfg_of p) in
      case Decode maxAdminBody (dec_struct dec_password) (rq_Body r) [] of
        None \<Rightarrow> (writeJSON 400 (jerror ''password must be at least 6 characters''), p)
      | Some password \<Rightarrow>
         if length password < 6 then (writeJSON 400 (jerror ''password must be at least 6 characters''), p)
         else
           (case HashPassword (en_salt (e_entropy env)) password of
              None \<Rightarrow> (writeJSON 500 (jerror ''entropy source failed''), p)
            | Some hash \<Rightarrow>
               (case update_config env (user_password_fn hash i) p of
                  (Some err, p1) \<Rightarrow> (writeJSON 404 (jerror (error_message err)), p1)
                | (None, p1) \<Rightarrow> (writeJSON 200 jok, audit_record env ''user.password'' (adminName r) (''username='' @ who) p1))))"

definition apiUserReset :: "Env \<Rightarrow> Request \<Rightarrow> Proxy \<Rightarrow> Response \<times> Proxy" where
  "apiUserReset env r p =
     (let i = path_id r in
      case FindUser (p_store p) i of
        None \<Rightarrow> (writeJSON 404 (jerror ''user not found''), p)
      | Some u \<Rightarrow>
         (writeJSON 200 jok,
          audit_record env ''user.reset'' (adminName r) (''username='' @ u_Username u @ '' daily usage cleared'')
            (p\<lparr>p_daily := resetDaily i (p_daily p)\<rparr>)))"

section \<open>The functions keep the invariant\<close>

lemma user_pos_Some: "user_pos i us = Some k \<Longrightarrow> k < length us \<and> u_ID (us ! k) = i"
  by (induction i us arbitrary: k rule: user_pos.induct) (auto split: if_splits)

lemma user_pos_None: "user_pos i us = None \<longleftrightarrow> (\<forall>u \<in> set us. u_ID u \<noteq> i)"
  by (induction i us rule: user_pos.induct) auto

text \<open>Replacing the user at a position by one with the same identifier and a free name.\<close>

lemma users_distinct_update:
  assumes "users_distinct c" "user_pos i (c_Users c) = Some k" "u_ID v = i" "\<not> usernameTaken c (u_Username v) i"
  shows "users_distinct (c\<lparr>c_Users := (c_Users c)[k := v]\<rparr>)"
proof -
  let ?us = "c_Users c"
  have k: "k < length ?us" "u_ID (?us ! k) = i" using user_pos_Some [OF assms(2)] by auto
  have ids: "distinct (map u_ID ?us)" and names: "distinct (map (\<lambda>u. ToLower (u_Username u)) ?us)"
    using assms(1) by (simp_all add: users_distinct_def)
  have "map u_ID (?us[k := v]) = map u_ID ?us" using k assms(3) by (simp add: map_update list_update_same_conv)
  moreover have "ToLower (u_Username v) \<notin> (\<lambda>u. ToLower (u_Username u)) ` set ?us - {ToLower (u_Username (?us ! k))}"
  proof
    assume "ToLower (u_Username v) \<in> (\<lambda>u. ToLower (u_Username u)) ` set ?us - {ToLower (u_Username (?us ! k))}"
    then obtain u where u: "u \<in> set ?us" "ToLower (u_Username v) = ToLower (u_Username u)"
      "ToLower (u_Username u) \<noteq> ToLower (u_Username (?us ! k))" by auto
    then have "u \<noteq> ?us ! k" by blast
    moreover have "inj_on u_ID (set ?us)" using ids by (simp add: distinct_map)
    ultimately have "u_ID u \<noteq> i" using u(1) k nth_mem [OF k(1)] by (metis inj_onD)
    with u assms(4) show False by (auto simp: usernameTaken_def list_ex_iff EqualFold_def)
  qed
  then have "distinct ((map (\<lambda>u. ToLower (u_Username u)) ?us)[k := ToLower (u_Username v)])"
    using names k by (intro distinct_list_update) auto
  ultimately show ?thesis using ids by (simp add: users_distinct_def map_update)
qed

lemma usernameTaken_update:
  "user_pos i (c_Users c) = Some k \<Longrightarrow> u_ID v = i \<Longrightarrow>
     usernameTaken (c\<lparr>c_Users := (c_Users c)[k := v]\<rparr>) name i = usernameTaken c name i"
  using user_pos_Some [of i "c_Users c" k] by (simp add: usernameTaken_def list_ex_update)

lemma has_admin_others: "0 < countEnabledAdmins c i \<Longrightarrow> \<exists>u \<in> set (c_Users c). u_ID u \<noteq> i \<and> u_Enabled u \<and> u_Role u = ''admin''"
  by (auto simp: countEnabledAdmins_def filter_empty_conv)

lemma patch_user_sel [simp]:
  "u_ID (patch_user b u) = u_ID u" "u_Username (patch_user b u) = u_Username u" "u_Role (patch_user b u) = u_Role u"
  "u_PasswordHash (patch_user b u) = u_PasswordHash u" "u_TokenEpoch (patch_user b u) = u_TokenEpoch u"
  by (auto simp: patch_user_def opt_upd_def split: option.splits)

lemma set_password_Some:
  assumes "set_password salt b u = Some v"
  shows "u_ID v = u_ID u" "u_Username v = u_Username u" "u_Role v = u_Role u" "u_Enabled v = u_Enabled u"
    "if ub_Password b = [] then u_PasswordHash v = u_PasswordHash u \<and> u_TokenEpoch v = u_TokenEpoch u
     else HashPassword salt (ub_Password b) = Some (u_PasswordHash v) \<and> u_TokenEpoch v = inc_int (u_TokenEpoch u)"
  using assms by (auto simp: set_password_def split: if_splits)

lemma rename_user_sel [simp]:
  "u_ID (rename_user b u) = u_ID u" "u_PasswordHash (rename_user b u) = u_PasswordHash u"
  "u_TokenEpoch (rename_user b u) = u_TokenEpoch u"
  by (simp_all add: rename_user_def)

lemma set_role_sel [simp]:
  "u_ID (set_role b u) = u_ID u" "u_Username (set_role b u) = u_Username u"
  "u_PasswordHash (set_role b u) = u_PasswordHash u" "u_TokenEpoch (set_role b u) = u_TokenEpoch u"
  by (simp_all add: set_role_def)

lemma user_update_fn_Inr:
  assumes "user_update_fn salt b i c = Inr c'"
  obtains k v where "user_pos i (c_Users c) = Some k" "c' = c\<lparr>c_Users := (c_Users c)[k := v]\<rparr>" "u_ID v = i"
    "u_Username v = u_Username (rename_user b (c_Users c ! k))" "\<not> usernameTaken c (u_Username v) i"
    "u_Role v = ''admin'' \<and> u_Enabled v \<or> 0 < countEnabledAdmins c' i"
    "set_password salt b (patch_user b (set_role b (rename_user b (c_Users c ! k)))) = Some v"
proof -
  obtain k where k: "user_pos i (c_Users c) = Some k" using assms by (auto simp: user_update_fn_def split: option.splits)
  have i: "u_ID (c_Users c ! k) = i" using user_pos_Some [OF k] by simp
  let ?u1 = "rename_user b (c_Users c ! k)"
  obtain v where v: "set_password salt b (patch_user b (set_role b ?u1)) = Some v"
    "\<not> usernameTaken (c\<lparr>c_Users := (c_Users c)[k := ?u1]\<rparr>) (u_Username ?u1) i"
    "c' = c\<lparr>c_Users := (c_Users c)[k := v]\<rparr>" "u_Role v = ''admin'' \<and> u_Enabled v \<or> 0 < countEnabledAdmins c' i"
    using assms k by (auto simp: user_update_fn_def Let_def split: if_splits option.splits)
  from v(2) have "\<not> usernameTaken c (u_Username ?u1) i" using usernameTaken_update [OF k] i by simp
  then show thesis using that [OF k v(3) _ _ _ v(4,1)] set_password_Some [OF v(1)] i by simp
qed

lemma has_admin_remains:
  assumes "0 < countEnabledAdmins c i"
  shows "has_admin c"
  using assms by (auto simp: countEnabledAdmins_def has_admin_def list_ex_iff filter_empty_conv)

lemma user_update_fn_ok:
  assumes "config_ok c" "user_update_fn salt b i c = Inr c'"
  shows "config_ok c'"
proof -
  from assms(2) obtain k v where u: "user_pos i (c_Users c) = Some k" "c' = c\<lparr>c_Users := (c_Users c)[k := v]\<rparr>" "u_ID v = i"
    "\<not> usernameTaken c (u_Username v) i" "u_Role v = ''admin'' \<and> u_Enabled v \<or> 0 < countEnabledAdmins c' i"
    by (rule user_update_fn_Inr)
  note k = user_pos_Some [OF u(1)]
  from u(5) have "has_admin c'"
  proof
    assume "u_Role v = ''admin'' \<and> u_Enabled v"
    then show ?thesis using u(2) k by (auto simp: has_admin_def list_ex_iff set_update_memI intro!: bexI [of _ v])
  qed (rule has_admin_remains)
  moreover have "users_distinct c'"
    unfolding u(2) using assms(1) u by (intro users_distinct_update) (simp_all add: config_ok_def)
  moreover have "list_all (\<lambda>u. u_ID u \<noteq> []) (c_Users c')"
    using assms(1) u(2,3) k set_update_subset_insert [of "c_Users c" k v] by (auto simp: config_ok_def list_all_iff)
  ultimately show ?thesis by (simp add: config_ok_def)
qed

lemma user_delete_fn_ok:
  assumes "config_ok c" "user_delete_fn i c = Inr c'"
  shows "config_ok c'"
proof -
  obtain k where k: "user_pos i (c_Users c) = Some k" using assms(2) by (auto simp: user_delete_fn_def split: option.splits)
  let ?us = "c_Users c" and ?u = "c_Users c ! k"
  have c': "c' = c\<lparr>c_Users := take k ?us @ drop (Suc k) ?us\<rparr>"
    and guard: "\<not> (u_Role ?u = ''admin'' \<and> u_Enabled ?u) \<or> 0 < countEnabledAdmins c i"
    using assms(2) k by (auto simp: user_delete_fn_def Let_def split: if_splits)
  have i: "u_ID ?u = i" using user_pos_Some [OF k] by simp
  obtain w where w: "w \<in> set ?us" "u_Enabled w" "u_Role w = ''admin''" "w \<noteq> ?u"
    using guard assms(1) has_admin_others [of c i] i by (auto simp: config_ok_def has_admin_def list_ex_iff)
  then have "w \<in> set (c_Users c')" using set_delete_at [of k ?us] user_pos_Some [OF k] c' by auto
  with w have "has_admin c'" by (auto simp: has_admin_def list_ex_iff)
  moreover have "users_distinct c'"
    using assms(1) distinct_map_delete_at [of u_ID ?us k] distinct_map_delete_at [of "\<lambda>u. ToLower (u_Username u)" ?us k]
    unfolding c' config_ok_def users_distinct_def by simp
  moreover have "list_all (\<lambda>u. u_ID u \<noteq> []) (c_Users c')"
    using assms(1) c' by (auto simp: config_ok_def list_all_iff dest: in_set_takeD in_set_dropD)
  ultimately show ?thesis by (simp add: config_ok_def)
qed

lemma own_name_free:
  assumes "users_distinct c" "user_pos i (c_Users c) = Some k"
  shows "\<not> usernameTaken c (u_Username (c_Users c ! k)) i"
proof
  assume "usernameTaken c (u_Username (c_Users c ! k)) i"
  then obtain u where u: "u \<in> set (c_Users c)" "u_ID u \<noteq> i" "ToLower (u_Username u) = ToLower (u_Username (c_Users c ! k))"
    by (auto simp: usernameTaken_def list_ex_iff EqualFold_def)
  have "inj_on (\<lambda>u. ToLower (u_Username u)) (set (c_Users c))" using assms(1) by (simp add: users_distinct_def distinct_map)
  then show False using u user_pos_Some [OF assms(2)] nth_mem [of k "c_Users c"] by (metis inj_onD)
qed

lemma has_admin_map: "has_admin c = (True \<in> set (map (\<lambda>u. u_Enabled u \<and> u_Role u = ''admin'') (c_Users c)))"
  by (auto simp: has_admin_def list_ex_iff)

text \<open>A change of a user that keeps its identifier, its name, its role and whether it is enabled.\<close>

lemma config_ok_update:
  assumes "config_ok c" "user_pos i (c_Users c) = Some k" "u_ID v = i" "u_Username v = u_Username (c_Users c ! k)"
    "u_Role v = u_Role (c_Users c ! k)" "u_Enabled v = u_Enabled (c_Users c ! k)"
  shows "config_ok (c\<lparr>c_Users := (c_Users c)[k := v]\<rparr>)"
proof -
  let ?us = "c_Users c"
  note k = user_pos_Some [OF assms(2)]
  have "map (\<lambda>u. u_Enabled u \<and> u_Role u = ''admin'') (?us[k := v]) = map (\<lambda>u. u_Enabled u \<and> u_Role u = ''admin'') ?us"
    using k assms(5,6) by (simp add: map_update list_update_same_conv)
  then have "has_admin (c\<lparr>c_Users := ?us[k := v]\<rparr>)"
    using assms(1) by (simp add: config_ok_def has_admin_map)
  moreover have "users_distinct (c\<lparr>c_Users := ?us[k := v]\<rparr>)"
    using assms own_name_free [OF _ assms(2)] by (intro users_distinct_update) (simp_all add: config_ok_def)
  moreover have "list_all (\<lambda>u. u_ID u \<noteq> []) (?us[k := v])"
    using assms(1,3) k set_update_subset_insert [of ?us k v] nth_mem [of k ?us] by (auto simp: config_ok_def list_all_iff)
  ultimately show ?thesis by (simp add: config_ok_def)
qed

lemma user_password_fn_ok:
  assumes "config_ok c" "user_password_fn hash i c = Inr c'"
  shows "config_ok c'"
proof -
  obtain k where k: "user_pos i (c_Users c) = Some k" using assms(2) by (auto simp: user_password_fn_def split: option.splits)
  with user_pos_Some [OF k] assms show ?thesis by (auto simp: user_password_fn_def Let_def intro!: config_ok_update)
qed

lemma user_create_fn_ok:
  assumes "config_ok c" "user_create_fn u c = Inr c'" "u_ID u \<noteq> []" "u_ID u \<notin> u_ID ` set (c_Users c)"
  shows "config_ok c'"
  using assms by (force simp: user_create_fn_def config_ok_def users_distinct_def usernameTaken_def list_ex_iff
    list_all_iff has_admin_def EqualFold_def split: if_splits)

text \<open>The same for the ranges of Go's integers: a body that was validated keeps them.\<close>

definition body_fits :: "userBody \<Rightarrow> bool" where
  "body_fits b \<longleftrightarrow> pred_option in_int64 (ub_MaxConns b) \<and> pred_option in_int64 (ub_DailyTrafficMB b)"

lemma validate_fits:
  assumes "validate create b = None"
  shows "body_fits b"
proof -
  have "\<not> outside 0 100000 (ub_MaxConns b)" "\<not> outside 0 1000000 (ub_DailyTrafficMB b)"
    using assms by (simp_all add: validate_def Let_def split: if_split_asm)
  then show ?thesis by (auto simp: body_fits_def outside_def in_int64_def option.pred_set split: option.splits)
qed

lemma patch_user_fits: "body_fits b \<Longrightarrow> user_fits u \<Longrightarrow> user_fits (patch_user b u)"
  by (cases "ub_MaxConns b"; cases "ub_DailyTrafficMB b")
    (simp_all add: user_fits_def body_fits_def patch_user_def opt_upd_def split: option.split)

lemma config_fits_update:
  assumes "config_fits c" "user_fits v"
  shows "config_fits (c\<lparr>c_Users := (c_Users c)[k := v]\<rparr>)"
  using assms set_update_subset_insert [of "c_Users c" k v] by (auto simp: config_fits_parts list_all_iff)

lemma user_update_fn_fits:
  assumes "config_fits c" "body_fits b" "user_update_fn salt b i c = Inr c'"
  shows "config_fits c'"
proof -
  obtain k v where u: "user_pos i (c_Users c) = Some k" "c' = c\<lparr>c_Users := (c_Users c)[k := v]\<rparr>"
    "set_password salt b (patch_user b (set_role b (rename_user b (c_Users c ! k)))) = Some v"
    using assms(3) by (rule user_update_fn_Inr)
  have "user_fits (c_Users c ! k)" using assms(1) user_pos_Some [OF u(1)] by (simp add: config_fits_parts list_all_length)
  then have "user_fits (set_role b (rename_user b (c_Users c ! k)))" by (simp add: user_fits_def set_role_def rename_user_def)
  then have "user_fits (patch_user b (set_role b (rename_user b (c_Users c ! k))))" by (rule patch_user_fits [OF assms(2)])
  then have "user_fits v" using u(3) by (auto simp: set_password_def user_fits_def split: if_splits)
  with assms(1) show ?thesis unfolding u(2) by (rule config_fits_update)
qed

lemma list_all_delete_at: "list_all P xs \<Longrightarrow> list_all P (take k xs @ drop (Suc k) xs)"
  using set_take_subset [of k xs] set_drop_subset [of "Suc k" xs] by (auto simp: list_all_iff)

lemma user_delete_fn_fits: "config_fits c \<Longrightarrow> user_delete_fn i c = Inr c' \<Longrightarrow> config_fits c'"
  using list_all_delete_at [of user_fits "c_Users c"]
  by (simp add: user_delete_fn_def config_fits_parts Let_def split: option.splits if_splits) (auto simp: config_fits_parts)

lemma user_password_fn_fits:
  assumes "config_fits c" "user_password_fn hash i c = Inr c'"
  shows "config_fits c'"
proof -
  obtain k where k: "user_pos i (c_Users c) = Some k" using assms(2) by (auto simp: user_password_fn_def split: option.splits)
  then have "user_fits (c_Users c ! k)" using assms(1) user_pos_Some [OF k] by (simp add: config_fits_parts list_all_length)
  then show ?thesis using assms k by (auto simp: user_password_fn_def Let_def user_fits_def intro!: config_fits_update)
qed

lemma user_create_fn_fits: "config_fits c \<Longrightarrow> user_fits u \<Longrightarrow> user_create_fn u c = Inr c' \<Longrightarrow> config_fits c'"
  by (auto simp: user_create_fn_def config_fits_parts split: if_splits)

lemma NewUser_fits: "NewUser en now n pw ro = Inr u \<Longrightarrow> user_fits u"
  by (auto simp: NewUser_def user_fits_def in_int64_def split: option.splits)

section \<open>What a handler does to the configuration\<close>

lemma inner_toView [simp]: "inner (snd (toView u p)) = inner p"
  by (simp add: toView_def split_beta)

lemma inner_toViews [simp]: "inner (snd (toViews us p)) = inner p"
  by (induction us arbitrary: p) (simp_all add: split_beta)

lemma inner_auditUserUpdate [simp]: "inner (auditUserUpdate env r i b p) = inner p"
  by (simp add: auditUserUpdate_def split: option.split)

lemma NewUser_id: "NewUser en now n pw ro = Inr u \<Longrightarrow> u_ID u = randomHex (en_id en)"
  by (auto simp: NewUser_def split: option.splits)

lemma lawful_user_fns:
  "lawful env p (user_delete_fn i)" "lawful env p (user_password_fn hash i)"
  "body_fits b \<Longrightarrow> lawful env p (user_update_fn salt b i)"
  by (rule lawfulI, erule (1) user_delete_fn_ok [rotated], erule (1) user_delete_fn_fits [rotated])
    (rule lawfulI, erule (1) user_password_fn_ok [rotated], erule (1) user_password_fn_fits [rotated],
     rule lawfulI, erule (1) user_update_fn_ok [rotated], erule (2) user_update_fn_fits [rotated 2])

lemma lawful_create:
  assumes "u_ID u = randomHex (en_id (e_entropy env))" "user_fits u"
  shows "lawful env p (user_create_fn u)"
proof (rule lawfulI)
  fix c assume c: "user_create_fn u (cfg_of p) = Inr c"
  show "config_ok c" if "config_ok (cfg_of p)" "fresh_id env p"
    using that assms(1) randomHex_nonempty by (intro user_create_fn_ok [OF _ c]) (simp_all add: fresh_id_def)
  show "config_fits c" if "config_fits (cfg_of p)" using user_create_fn_fits [OF that assms(2) c] .
qed

lemma create_user_moves: "moves env p (snd (create_user env r b p))"
proof (cases "validate True b = None \<and> (\<exists>u. NewUser (e_entropy env) (e_now env) (ub_Username b) (ub_Password b) (ub_Role b) = Inr u)")
  case True
  then obtain u0 where u0: "validate True b = None" "NewUser (e_entropy env) (e_now env) (ub_Username b) (ub_Password b) (ub_Role b) = Inr u0"
    by blast
  obtain e p1 where up: "update_config env (user_create_fn (patch_user b u0)) p = (e, p1)" by fastforce
  have "inner (snd (create_user env r b p)) = inner p \<or> inner (snd (create_user env r b p)) = inner p1"
    using u0 up by (cases e) (simp_all add: create_user_def Let_def split_beta split: option.split error.split)
  moreover have "lawful env p (user_create_fn (patch_user b u0))"
    using NewUser_id [OF u0(2)] patch_user_fits [OF validate_fits [OF u0(1)] NewUser_fits [OF u0(2)]] by (intro lawful_create) simp_all
  ultimately show ?thesis using moves_update [OF _ up] by blast
next
  case False
  then have "inner (snd (create_user env r b p)) = inner p"
    by (cases "validate True b"; cases "NewUser (e_entropy env) (e_now env) (ub_Username b) (ub_Password b) (ub_Role b)")
      (simp_all add: create_user_def)
  then show ?thesis by (rule moves_same)
qed

lemma apiUserUpdate_moves: "moves env p (snd (apiUserUpdate env r p))"
proof (cases "Decode maxAdminBody (dec_struct dec_body) (rq_Body r) zero_body")
  case (Some b)
  obtain e p1 where up: "update_config env (user_update_fn (en_salt (e_entropy env)) b (path_id r)) p = (e, p1)" by fastforce
  show ?thesis
  proof (cases "validate False b")
    case None
    have "inner (snd (apiUserUpdate env r p)) = inner p \<or> inner (snd (apiUserUpdate env r p)) = inner p1"
      using None Some up by (cases e) (simp_all add: apiUserUpdate_def Let_def split: option.split error.split)
    then show ?thesis using moves_update [OF lawful_user_fns(3) [OF validate_fits [OF None]] up] by blast
  qed (use Some in \<open>auto simp: apiUserUpdate_def\<close>)
qed (auto simp: apiUserUpdate_def)

lemma apiUserDelete_moves: "moves env p (snd (apiUserDelete env r p))"
proof -
  obtain e p1 where up: "update_config env (user_delete_fn (path_id r)) p = (e, p1)" by fastforce
  then have "inner (snd (apiUserDelete env r p)) = inner p1"
    by (cases e) (simp_all add: apiUserDelete_def Let_def split: error.split)
  with moves_update [OF lawful_user_fns(1) up] show ?thesis .
qed

lemma apiUserPassword_moves: "moves env p (snd (apiUserPassword env r p))"
proof (cases "Option.bind (Decode maxAdminBody (dec_struct dec_password) (rq_Body r) [])
    (HashPassword (en_salt (e_entropy env)))")
  case (Some h)
  obtain e p1 where up: "update_config env (user_password_fn h (path_id r)) p = (e, p1)" by fastforce
  have "inner (snd (apiUserPassword env r p)) = inner p \<or> inner (snd (apiUserPassword env r p)) = inner p1"
    using Some up by (cases e) (auto simp: apiUserPassword_def Let_def bind_eq_Some_conv)
  then show ?thesis using moves_update [OF lawful_user_fns(2) up] by blast
qed (auto simp: apiUserPassword_def Let_def bind_eq_None_conv split: option.split)

lemma user_handlers_move:
  "moves env p (snd (apiUsers env r p))" "moves env p (snd (apiUserGet env r p))" "moves env p (snd (apiUserReset env r p))"
  using create_user_moves [of env p r]
  by (auto simp: apiUsers_def apiUserGet_def apiUserReset_def Let_def split_beta split: option.split)

text \<open>The user handlers.\<close>

interpretation list_or_create: admin_handler apiUsers
  by unfold_locales (rule user_handlers_move)

interpretation get_user: admin_handler apiUserGet
  by unfold_locales (rule user_handlers_move)

interpretation reset_user: admin_handler apiUserReset
  by unfold_locales (rule user_handlers_move)

interpretation update_user: admin_handler apiUserUpdate
  by unfold_locales (rule apiUserUpdate_moves)

interpretation delete_user: admin_handler apiUserDelete
  by unfold_locales (rule apiUserDelete_moves)

interpretation change_password: admin_handler apiUserPassword
  by unfold_locales (rule apiUserPassword_moves)

section \<open>Properties of user management\<close>

lemma users_update_map:
  assumes "distinct (map u_ID us)" "user_pos i us = Some k"
  shows "us[k := f (us ! k)] = map (\<lambda>v. if u_ID v = i then f v else v) us"
proof (rule nth_equalityI)
  fix j assume j: "j < length (us[k := f (us ! k)])"
  then show "us[k := f (us ! k)] ! j = map (\<lambda>v. if u_ID v = i then f v else v) us ! j"
    using user_pos_Some [OF assms(2)] assms(1) by (auto simp: nth_list_update distinct_conv_nth)
qed simp

lemma user_pos_nth:
  assumes "distinct (map u_ID us)" "u \<in> set us"
  obtains k where "user_pos (u_ID u) us = Some k" "us ! k = u"
proof -
  obtain k where k: "user_pos (u_ID u) us = Some k" using user_pos_None [of "u_ID u" us] assms(2) by auto
  then have "u_ID (us ! k) = u_ID u" "us ! k \<in> set us" using user_pos_Some [OF k] by simp_all
  then have "us ! k = u" using assms by (auto simp: distinct_map inj_on_def)
  with k that show thesis by blast
qed

lemma delete_at_filter:
  "distinct (map f xs) \<Longrightarrow> k < length xs \<Longrightarrow> take k xs @ drop (Suc k) xs = filter (\<lambda>x. f x \<noteq> f (xs ! k)) xs"
proof (induction xs arbitrary: k)
  case (Cons x xs)
  then show ?case
    by (cases k) (auto simp: filter_id_conv image_iff intro!: filter_True [symmetric])
qed simp

lemma user_delete_fn_exact:
  assumes "config_ok c"
  shows "user_delete_fn i c = (if i \<in> u_ID ` set (c_Users c)
      then if list_ex (\<lambda>v. u_ID v \<noteq> i \<and> u_Enabled v \<and> u_Role v = ''admin'') (c_Users c)
        then Inr (c\<lparr>c_Users := filter (\<lambda>u. u_ID u \<noteq> i) (c_Users c)\<rparr>) else Inl ErrLastAdmin
      else Inl (ErrMsg ''user not found''))"
proof (cases "user_pos i (c_Users c)")
  case None
  then have "i \<notin> u_ID ` set (c_Users c)" using user_pos_None [of i "c_Users c"] by auto
  with None show ?thesis by (simp add: user_delete_fn_def)
next
  case (Some k)
  let ?us = "c_Users c" let ?u = "?us ! k"
  note k = user_pos_Some [OF Some]
  have d: "distinct (map u_ID ?us)" using assms by (simp add: config_ok_def users_distinct_def)
  have others: "0 < countEnabledAdmins c i \<longleftrightarrow> list_ex (\<lambda>v. u_ID v \<noteq> i \<and> u_Enabled v \<and> u_Role v = ''admin'') ?us"
    by (auto simp: countEnabledAdmins_def list_ex_iff filter_empty_conv)
  have adm: "u_Role ?u = ''admin'' \<and> u_Enabled ?u" if "\<not> 0 < countEnabledAdmins c i"
  proof -
    obtain w where w: "w \<in> set ?us" "u_Enabled w" "u_Role w = ''admin''" using assms by (auto simp: config_ok_def has_admin_def list_ex_iff)
    with that others have "u_ID w = i" by (auto simp: list_ex_iff)
    then have "w = ?u" using w(1) k d nth_mem [of k ?us] by (metis distinct_map inj_onD)
    with w show ?thesis by simp
  qed
  have "take k ?us @ drop (Suc k) ?us = filter (\<lambda>u. u_ID u \<noteq> i) ?us" using delete_at_filter [OF d, of k] k by simp
  moreover have "i \<in> u_ID ` set ?us" using k nth_mem by blast
  ultimately show ?thesis using adm
    by (cases "0 < countEnabledAdmins c i") (simp_all add: user_delete_fn_def Some others [symmetric])
qed

lemma token_loop_stale:
  assumes "index_ok s" "users_distinct (s_cfg s)" "v \<in> set (c_Users (s_cfg s))" "EqualFold (u_Username v) name"
    and "verifyToken now (c_SessionKey (s_cfg s)) tok = Some (name, exp, epoch)" "epoch \<noteq> u_TokenEpoch v"
  shows "token_loop now s [tok] = None"
proof -
  have "FindUserByName s name = Some v" using assms(1-4) FindUserByName_iff by (simp add: users_distinct_def)
  with assms(5,6) show ?thesis by simp
qed

lemma apiUserPassword_done:
  assumes "apiUserPassword env r p = (resp, p')" "rs_status resp = 200"
  obtains pw hash p1 where "Decode maxAdminBody (dec_struct dec_password) (rq_Body r) [] = Some pw" "6 \<le> length pw"
    "HashPassword (en_salt (e_entropy env)) pw = Some hash"
    "update_config env (user_password_fn hash (path_id r)) p = (None, p1)" "p_store p' = p_store p1"
proof -
  obtain pw where pw: "Decode maxAdminBody (dec_struct dec_password) (rq_Body r) [] = Some pw" "6 \<le> length pw"
    using assms by (fastforce simp: apiUserPassword_def Let_def writeJSON_def not_less split: option.splits if_splits)
  obtain hash where h: "HashPassword (en_salt (e_entropy env)) pw = Some hash"
    using assms pw by (fastforce simp: apiUserPassword_def Let_def writeJSON_def split: option.splits)
  obtain e p1 where up: "update_config env (user_password_fn hash (path_id r)) p = (e, p1)" by fastforce
  with assms pw h have "e = None \<and> p_store p' = p_store p1"
    by (cases e) (auto simp: apiUserPassword_def Let_def writeJSON_def)
  with that pw h up show thesis by blast
qed

text \<open>
  C11: changing a password takes effect at once and ends the user's sessions. When the password
  endpoint answers 200, the user named in the path has a password of at least 6 bytes, the one sent,
  a new epoch and is otherwise unchanged, every other user is unchanged, and no session token that
  was good for that user before is accepted at any time. (Names and identifiers are unique and there is an
  enabled admin.)
\<close>

theorem password_change_revokes:
  assumes "apiUserPassword env r p = (resp, p')" "rs_status resp = 200" "config_ok (cfg_of p)"
  shows "\<exists>u pw hash. u \<in> set (c_Users (cfg_of p)) \<and> u_ID u = path_id r
    \<and> Decode maxAdminBody (dec_struct dec_password) (rq_Body r) [] = Some pw \<and> 6 \<le> length pw
    \<and> VerifyPassword hash pw
    \<and> c_Users (cfg_of p') = map (\<lambda>v. if u_ID v = path_id r then v\<lparr>u_PasswordHash := hash, u_TokenEpoch := inc_int (u_TokenEpoch v)\<rparr>
        else v) (c_Users (cfg_of p))
    \<and> (\<forall>now tok. token_loop now (p_store p) [tok] = Some u \<longrightarrow> token_loop now (p_store p') [tok] = None)"
proof -
  obtain pw hash p1 where pw: "Decode maxAdminBody (dec_struct dec_password) (rq_Body r) [] = Some pw" "6 \<le> length pw"
    and h: "HashPassword (en_salt (e_entropy env)) pw = Some hash"
    and up: "update_config env (user_password_fn hash (path_id r)) p = (None, p1)" "p_store p' = p_store p1"
    using assms(1,2) by (rule apiUserPassword_done)
  obtain c where c: "user_password_fn hash (path_id r) (cfg_of p) = Inr c" "cfg_of p1 = c" "index_ok (p_store p1)"
    using up(1) by (rule update_config_done)
  obtain k where k: "user_pos (path_id r) (c_Users (cfg_of p)) = Some k"
    using c(1) by (auto simp: user_password_fn_def split: option.splits)
  let ?us = "c_Users (cfg_of p)" let ?u = "?us ! k"
  let ?v = "?u\<lparr>u_PasswordHash := hash, u_TokenEpoch := inc_int (u_TokenEpoch ?u)\<rparr>"
  have u: "k < length ?us" "u_ID ?u = path_id r" using user_pos_Some [OF k] by auto
  have c': "c = (cfg_of p)\<lparr>c_Users := ?us[k := ?v]\<rparr>" using c(1) k by (simp add: user_password_fn_def Let_def)
  have "config_ok c" using user_password_fn_ok [OF assms(3) c(1)] .
  then have d: "users_distinct c" by (simp add: config_ok_def)
  have revoked: "token_loop now (p_store p') [tok] = None" if old: "token_loop now (p_store p) [tok] = Some ?u" for now tok
  proof -
    obtain name e where "verifyToken now (c_SessionKey (cfg_of p)) tok = Some (name, e, u_TokenEpoch ?u)" "EqualFold (u_Username ?u) name"
      using token_loop_sound [OF old] by auto
    moreover have "?v \<in> set (c_Users c)" using u(1) c' by (simp add: set_update_memI)
    ultimately show ?thesis
      using token_loop_stale [of "p_store p'" ?v name now tok e "u_TokenEpoch ?u"] c c' d up(2) by (simp add: inc_int_neq [symmetric])
  qed
  have "?us[k := ?v] = map (\<lambda>v. if u_ID v = path_id r then v\<lparr>u_PasswordHash := hash, u_TokenEpoch := inc_int (u_TokenEpoch v)\<rparr> else v) ?us"
    using users_update_map [OF _ k] assms(3) by (simp add: config_ok_def users_distinct_def)
  with revoked pw u c(2) c' up(2) HashPassword_own [OF h] nth_mem [OF u(1)] show ?thesis
    by (intro exI [of _ ?u] exI [of _ pw] exI [of _ hash]) simp
qed

text \<open>A request to change the password of the example's plain user.\<close>

definition demo_password_request :: Request where
  "demo_password_request = demo_request\<lparr>rq_Method := ''POST'',
     rq_URL := (rq_URL demo_request)\<lparr>ul_Path := ''/admin/api/users/b2/password''\<rparr>,
     rq_Body := [CHR ''{'', char_of (34 :: nat)] @ ''password'' @ [char_of (34 :: nat), CHR '':'', char_of (34 :: nat)]
       @ ''s3cret!'' @ [char_of (34 :: nat), CHR ''}'']\<rparr>"

definition demo_salted :: Env where
  "demo_salted = demo_env\<lparr>e_entropy := \<lparr>en_salt = Some ''0123456789abcdef'', en_id = ''i'', en_key = ''k''\<rparr>\<rparr>"

lemma demo_config_ok [simp]: "config_ok demo_config"
  by (simp add: config_ok_def has_admin_def) (simp add: demo_admin_def demo_user_def)

lemma demo_saved [simp]: "save_succeeds demo_env" "save_succeeds demo_salted"
  by (simp_all add: save_succeeds_def demo_salted_def demo_env_def demo_save_def)

lemma demo_ids [simp]: "u_ID demo_admin = ''a1''" "u_ID demo_user = ''b2''"
  by (simp_all add: demo_admin_def demo_user_def)

lemma demo_password_request_body:
  "Decode maxAdminBody (dec_struct dec_password) (rq_Body demo_password_request) [] = Some ''s3cret!''"
  "path_id demo_password_request = ''b2''"
proof -
  let ?b = "rq_Body demo_password_request"
  let ?v = "JObj [(''password'', JStr ''s3cret!'')]"
  have "parse_value (Suc (length ?b)) ?b = Some (?v, [])" "dec_struct dec_password ?v [] = Some ''s3cret!''" by code_simp+
  moreover have "nesting ?v \<le> maxNestingDepth" by (simp add: maxNestingDepth_def nesting.simps)
  moreover have "length ?b \<le> maxAdminBody" by (simp add: demo_password_request_def maxAdminBody_def)
  ultimately show "Decode maxAdminBody (dec_struct dec_password) ?b [] = Some ''s3cret!''"
    by (simp only: Decode_short option.case prod.case if_True)
qed code_simp

theorem password_change_revokes_witness:
  "\<exists>hash. VerifyPassword hash ''s3cret!'' \<and> map u_PasswordHash (c_Users (cfg_of (snd (apiUserPassword demo_salted demo_password_request demo_proxy))))
     = [u_PasswordHash demo_admin, hash]"
proof -
  obtain h where h: "HashPassword (en_salt (e_entropy demo_salted)) ''s3cret!'' = Some h"
    by (simp add: demo_salted_def HashPassword_def)
  have pos: "user_pos ''b2'' [demo_admin, demo_user] = Some 1" by (simp add: demo_admin_def demo_user_def)
  obtain resp p' where run: "apiUserPassword demo_salted demo_password_request demo_proxy = (resp, p')" by fastforce
  have "fst (update_config demo_salted (user_password_fn h ''b2'') demo_proxy) = None"
    by (simp add: update_config_saved user_password_fn_def pos Let_def)
  with run h have "rs_status resp = 200"
    by (auto simp: apiUserPassword_def demo_password_request_body Let_def writeJSON_def split: prod.splits)
  with password_change_revokes [OF run] show ?thesis
    by (auto simp: demo_password_request_body run demo_admin_def demo_user_def)
qed

text \<open>
  C12: deleting a user removes exactly that user, and never the last enabled admin. When the save
  succeeds, the answer is 200 if the user exists and another enabled admin remains, and the users are
  then those with another identifier, in their order; in every other case the answer is 400 and the
  configuration is as before. (Names and identifiers are unique and there is an enabled admin.)
\<close>

theorem delete_exact:
  assumes "config_ok (cfg_of p)" "save_succeeds env"
  shows "let us = c_Users (cfg_of p); i = path_id r;
      deletable = (i \<in> u_ID ` set us \<and> list_ex (\<lambda>v. u_ID v \<noteq> i \<and> u_Enabled v \<and> u_Role v = ''admin'') us)
    in rs_status (fst (apiUserDelete env r p)) = (if deletable then 200 else 400)
      \<and> cfg_of (snd (apiUserDelete env r p)) =
          (if deletable then (cfg_of p)\<lparr>c_Users := filter (\<lambda>u. u_ID u \<noteq> i) us\<rparr> else cfg_of p)"
proof -
  let ?us = "c_Users (cfg_of p)" and ?i = "path_id r"
  let ?c = "(cfg_of p)\<lparr>c_Users := filter (\<lambda>u. u_ID u \<noteq> ?i) ?us\<rparr>"
  have fn: "user_delete_fn ?i (cfg_of p) = (if ?i \<in> u_ID ` set ?us
      then if list_ex (\<lambda>v. u_ID v \<noteq> ?i \<and> u_Enabled v \<and> u_Role v = ''admin'') ?us then Inr ?c else Inl ErrLastAdmin
      else Inl (ErrMsg ''user not found''))"
    by (rule user_delete_fn_exact [OF assms(1)])
  obtain e p1 where up: "update_config env (user_delete_fn ?i) p = (e, p1)" by fastforce
  have "e = (case user_delete_fn ?i (cfg_of p) of Inl e \<Rightarrow> Some e | Inr _ \<Rightarrow> None)"
    using update_config_saved [OF assms(2), of "user_delete_fn ?i" p] up by simp
  moreover have "cfg_of p1 = (case user_delete_fn ?i (cfg_of p) of Inl _ \<Rightarrow> cfg_of p | Inr c \<Rightarrow> c)"
    using update_config_cfg [of env "user_delete_fn ?i" p] up by simp
  ultimately show ?thesis using up by (auto simp: apiUserDelete_def Let_def fn writeJSON_def)
qed

theorem delete_exact_witness:
  "let r = demo_request\<lparr>rq_Method := ''DELETE'', rq_URL := (rq_URL demo_request)\<lparr>ul_Path := ''/admin/api/users/a1''\<rparr>\<rparr>
   in rs_status (fst (apiUserDelete demo_env r demo_proxy)) = 400
     \<and> cfg_of (snd (apiUserDelete demo_env r demo_proxy)) = demo_config"
proof -
  define r where "r = demo_request\<lparr>rq_Method := ''DELETE'', rq_URL := (rq_URL demo_request)\<lparr>ul_Path := ''/admin/api/users/a1''\<rparr>\<rparr>"
  have "path_id r = ''a1''" unfolding r_def by code_simp
  with delete_exact [of demo_proxy demo_env r] show ?thesis
    unfolding r_def [symmetric] by (simp add: Let_def) (simp add: demo_admin_def demo_user_def)
qed

end
