(* ===== verification/Admin_Settings.thy ===== *)
theory Admin_Settings
  imports Admin_Users
begin

text \<open>
  Settings of \<^verbatim>\<open>admin.go\<close>: the global rules, the proxy and log settings with their partial
  updates, and the export and import of a configuration snapshot. The text of a JSON decoding error
  is left out of the messages.
\<close>

section \<open>Global rules\<close>

text \<open>The conversion \<open>GlobalRules(b)\<close> is the identity: both structs have the same fields and tags.\<close>

type_synonym rulesBody = GlobalRules

definition rules_fn :: "rulesBody \<Rightarrow> Config \<Rightarrow> error + Config" where
  "rules_fn b c = Inr (c\<lparr>c_GlobalRules := b\<rparr>)"

definition put_rules :: "Env \<Rightarrow> Request \<Rightarrow> rulesBody \<Rightarrow> Proxy \<Rightarrow> Response \<times> Proxy" where
  "put_rules env r b p =
     (case (case validatePatterns (gr_Whitelist b) of Some err \<Rightarrow> Some err | None \<Rightarrow> validatePatterns (gr_Blacklist b)) of
        Some err \<Rightarrow> (writeJSON 400 (jerror err), p)
      | None \<Rightarrow>
         (case update_config env (rules_fn b) p of
            (Some err, p1) \<Rightarrow> (writeJSON 500 (jerror (error_message err)), p1)
          | (None, p1) \<Rightarrow>
              (writeJSON 200 jok,
               audit_record env ''rules.update'' (adminName r)
                 (''whitelist_only='' @ show_bool (gr_WhitelistOnly b) @ '' wl='' @ int_dec (int (length (gr_Whitelist b)))
                  @ '' bl='' @ int_dec (int (length (gr_Blacklist b)))) p1)))"

definition apiGlobalRules :: "Env \<Rightarrow> Request \<Rightarrow> Proxy \<Rightarrow> Response \<times> Proxy" where
  "apiGlobalRules env r p =
     (if rq_Method r = ''GET'' then (writeJSON 200 (enc_rules (c_GlobalRules (cfg_of p))), p)
      else if rq_Method r = ''PUT'' then
        (case Decode maxAdminBody (dec_struct dec_rules) (rq_Body r) zero_rules of
           None \<Rightarrow> (writeJSON 400 (jerror ''invalid body''), p)
         | Some b \<Rightarrow> put_rules env r b p)
      else (no_answer, p))"

section \<open>Settings\<close>

definition valid_port :: "string \<Rightarrow> bool" where
  "valid_port s = (case Atoi s of None \<Rightarrow> False | Some n \<Rightarrow> 0 < n \<and> n < 65536)"

definition validListenAddr :: "string \<Rightarrow> bool" where
  "validListenAddr addr =
     (if addr = [] then False
      else if HasPrefix addr '':'' then valid_port (tl addr)
      else case SplitHostPort addr of Some (_, port) \<Rightarrow> valid_port port | None \<Rightarrow> False)"

text \<open>\<open>net.Listen\<close> and, on success, \<open>Close\<close> (whose error is not modelled).\<close>

definition tryBind :: "Env \<Rightarrow> string \<Rightarrow> string option" where
  "tryBind env addr = e_listen env addr"

record proxySettingsPatch =
  pp_Enabled :: "bool option"
  pp_ListenAddr :: "string option"
  pp_AdminListenAddr :: "string option"
  pp_RequireAuth :: "bool option"
  pp_AllowHTTP :: "bool option"
  pp_AllowHTTPS :: "bool option"
  pp_ConnectTimeoutSec :: "int option"
  pp_ReadTimeoutSec :: "int option"
  pp_DefaultMaxConns :: "int option"
  pp_MaxGlobalConns :: "int option"

record logSettingsPatch =
  lp_RingSize :: "int option"
  lp_FileMaxMB :: "int option"
  lp_ToFile :: "bool option"

record settingsBody =
  sb_Proxy :: "proxySettingsPatch option"
  sb_Logs :: "logSettingsPatch option"

definition zero_proxy_patch :: proxySettingsPatch where
  "zero_proxy_patch = \<lparr>pp_Enabled = None, pp_ListenAddr = None, pp_AdminListenAddr = None, pp_RequireAuth = None,
     pp_AllowHTTP = None, pp_AllowHTTPS = None, pp_ConnectTimeoutSec = None, pp_ReadTimeoutSec = None,
     pp_DefaultMaxConns = None, pp_MaxGlobalConns = None\<rparr>"

definition zero_log_patch :: logSettingsPatch where
  "zero_log_patch = \<lparr>lp_RingSize = None, lp_FileMaxMB = None, lp_ToFile = None\<rparr>"

definition dec_proxy_patch :: "(string \<times> json) list \<Rightarrow> proxySettingsPatch \<Rightarrow> proxySettingsPatch option" where
  "dec_proxy_patch ms x = do {
     a \<leftarrow> dec_field ''enabled'' (dec_ptr dec_bool False) ms (pp_Enabled x);
     b \<leftarrow> dec_field ''listen_addr'' (dec_ptr dec_string []) ms (pp_ListenAddr x);
     c \<leftarrow> dec_field ''admin_listen_addr'' (dec_ptr dec_string []) ms (pp_AdminListenAddr x);
     d \<leftarrow> dec_field ''require_auth'' (dec_ptr dec_bool False) ms (pp_RequireAuth x);
     e \<leftarrow> dec_field ''allow_http'' (dec_ptr dec_bool False) ms (pp_AllowHTTP x);
     f \<leftarrow> dec_field ''allow_https'' (dec_ptr dec_bool False) ms (pp_AllowHTTPS x);
     g \<leftarrow> dec_field ''connect_timeout_sec'' (dec_ptr dec_int 0) ms (pp_ConnectTimeoutSec x);
     h \<leftarrow> dec_field ''read_timeout_sec'' (dec_ptr dec_int 0) ms (pp_ReadTimeoutSec x);
     i \<leftarrow> dec_field ''default_max_conns'' (dec_ptr dec_int 0) ms (pp_DefaultMaxConns x);
     j \<leftarrow> dec_field ''max_global_conns'' (dec_ptr dec_int 0) ms (pp_MaxGlobalConns x);
     Some \<lparr>pp_Enabled = a, pp_ListenAddr = b, pp_AdminListenAddr = c, pp_RequireAuth = d, pp_AllowHTTP = e,
       pp_AllowHTTPS = f, pp_ConnectTimeoutSec = g, pp_ReadTimeoutSec = h, pp_DefaultMaxConns = i,
       pp_MaxGlobalConns = j\<rparr>}"

definition dec_log_patch :: "(string \<times> json) list \<Rightarrow> logSettingsPatch \<Rightarrow> logSettingsPatch option" where
  "dec_log_patch ms x = do {
     a \<leftarrow> dec_field ''ring_size'' (dec_ptr dec_int 0) ms (lp_RingSize x);
     b \<leftarrow> dec_field ''file_max_mb'' (dec_ptr dec_int 0) ms (lp_FileMaxMB x);
     c \<leftarrow> dec_field ''to_file'' (dec_ptr dec_bool False) ms (lp_ToFile x);
     Some \<lparr>lp_RingSize = a, lp_FileMaxMB = b, lp_ToFile = c\<rparr>}"

definition dec_settings :: "(string \<times> json) list \<Rightarrow> settingsBody \<Rightarrow> settingsBody option" where
  "dec_settings ms x = do {
     a \<leftarrow> dec_field ''proxy'' (dec_ptr (dec_struct dec_proxy_patch) zero_proxy_patch) ms (sb_Proxy x);
     b \<leftarrow> dec_field ''logs'' (dec_ptr (dec_struct dec_log_patch) zero_log_patch) ms (sb_Logs x);
     Some \<lparr>sb_Proxy = a, sb_Logs = b\<rparr>}"

definition applyProxyPatch :: "proxySettingsPatch \<Rightarrow> ProxySettings \<Rightarrow> ProxySettings" where
  "applyProxyPatch pt dst =
     opt_upd px_MaxGlobalConns_update (pp_MaxGlobalConns pt)
      (opt_upd px_DefaultMaxConns_update (pp_DefaultMaxConns pt)
        (opt_upd px_ReadTimeoutSec_update (pp_ReadTimeoutSec pt)
          (opt_upd px_ConnectTimeoutSec_update (pp_ConnectTimeoutSec pt)
            (opt_upd px_AllowHTTPS_update (pp_AllowHTTPS pt)
              (opt_upd px_AllowHTTP_update (pp_AllowHTTP pt)
                (opt_upd px_RequireAuth_update (pp_RequireAuth pt)
                  (opt_upd px_AdminListenAddr_update (pp_AdminListenAddr pt)
                    (opt_upd px_ListenAddr_update (pp_ListenAddr pt)
                      (opt_upd px_Enabled_update (pp_Enabled pt) dst)))))))))"

definition applyLogPatch :: "logSettingsPatch \<Rightarrow> LogSettings \<Rightarrow> LogSettings" where
  "applyLogPatch pt dst =
     opt_upd lg_ToFile_update (lp_ToFile pt)
      (opt_upd lg_FileMaxMB_update (lp_FileMaxMB pt) (opt_upd lg_RingSize_update (lp_RingSize pt) dst))"

text \<open>
  The range checks over a map literal, which Go visits in an order of its own: the keys in the
  given order first, the others after them.
\<close>

definition visit :: "string list \<Rightarrow> (string \<times> 'a) list \<Rightarrow> (string \<times> 'a) list" where
  "visit order kvs =
     concat (map (\<lambda>k. filter (\<lambda>kv. fst kv = k) kvs) (remdups order)) @ filter (\<lambda>kv. fst kv \<notin> set order) kvs"

definition range_fields :: "ProxySettings \<Rightarrow> (string \<times> int) list" where
  "range_fields px =
     [(''connect_timeout_sec'', px_ConnectTimeoutSec px), (''read_timeout_sec'', px_ReadTimeoutSec px),
      (''default_max_conns'', px_DefaultMaxConns px), (''max_global_conns'', px_MaxGlobalConns px)]"

definition range_error :: "Env \<Rightarrow> ProxySettings \<Rightarrow> string option" where
  "range_error env px =
     map_option (\<lambda>(name, _). name @ '' out of range'')
       (find (\<lambda>(_, v). v < 0 \<or> v > 100000) (visit (e_order env) (range_fields px)))"

definition log_range_error :: "LogSettings \<Rightarrow> string option" where
  "log_range_error lg =
     (if lg_RingSize lg < 100 \<or> lg_RingSize lg > 200000 then Some ''ring_size must be 100..200000''
      else if lg_FileMaxMB lg < 0 \<or> lg_FileMaxMB lg > 10000 then Some ''file_max_mb out of range''
      else None)"

text \<open>The check that new addresses can be bound, the same in \<open>apiSettings\<close> and \<open>apiImport\<close>.\<close>

definition bind_error :: "Env \<Rightarrow> ProxySettings \<Rightarrow> ProxySettings \<Rightarrow> string option" where
  "bind_error env cur new =
     (case (if px_ListenAddr new \<noteq> px_ListenAddr cur then tryBind env (px_ListenAddr new) else None) of
        Some err \<Rightarrow> Some (''proxy listen address cannot be bound: '' @ err)
      | None \<Rightarrow>
         (case (if px_AdminListenAddr new \<noteq> px_AdminListenAddr cur then tryBind env (px_AdminListenAddr new) else None) of
            Some err \<Rightarrow> Some (''admin listen address cannot be bound: '' @ err)
          | None \<Rightarrow> None))"

definition settings_error :: "Env \<Rightarrow> ProxySettings \<Rightarrow> ProxySettings \<Rightarrow> LogSettings \<Rightarrow> string option" where
  "settings_error env cur px lg =
     (if \<not> validListenAddr (px_ListenAddr px) \<or> \<not> validListenAddr (px_AdminListenAddr px)
      then Some ''invalid listen address (use :port or host:port)''
      else case bind_error env cur px of Some err \<Rightarrow> Some err
        | None \<Rightarrow> (case range_error env px of Some err \<Rightarrow> Some err | None \<Rightarrow> log_range_error lg))"

definition settings_fn :: "ProxySettings \<Rightarrow> LogSettings \<Rightarrow> Config \<Rightarrow> error + Config" where
  "settings_fn px lg c = Inr (c\<lparr>c_Proxy := px, c_Logs := lg\<rparr>)"

definition put_settings :: "Env \<Rightarrow> Request \<Rightarrow> settingsBody \<Rightarrow> Proxy \<Rightarrow> Response \<times> Proxy" where
  "put_settings env r b p =
     (if sb_Proxy b = None \<and> sb_Logs b = None
      then (writeJSON 400 (jerror (''no settings provided (send a '' @ quote ''proxy'' @ '' and/or '' @ quote ''logs'' @ '' object)'')), p)
      else
        let cur = cfg_of p;
            px = (case sb_Proxy b of None \<Rightarrow> c_Proxy cur | Some pt \<Rightarrow> applyProxyPatch pt (c_Proxy cur));
            lg = (case sb_Logs b of None \<Rightarrow> c_Logs cur | Some pt \<Rightarrow> applyLogPatch pt (c_Logs cur))
        in case settings_error env (c_Proxy cur) px lg of
             Some err \<Rightarrow> (writeJSON 400 (jerror err), p)
           | None \<Rightarrow>
              (case update_config env (settings_fn px lg) p of
                 (Some err, p1) \<Rightarrow> (writeJSON 500 (jerror (error_message err)), p1)
               | (None, p1) \<Rightarrow>
                   (writeJSON 200 jok,
                    audit_record env ''settings.update'' (adminName r)
                      (''proxy_addr='' @ px_ListenAddr px @ '' admin_addr='' @ px_AdminListenAddr px
                       @ '' ring='' @ int_dec (lg_RingSize lg) @ '' to_file='' @ show_bool (lg_ToFile lg)) p1)))"

definition apiSettings :: "Env \<Rightarrow> Request \<Rightarrow> Proxy \<Rightarrow> Response \<times> Proxy" where
  "apiSettings env r p =
     (if rq_Method r = ''GET'' then
        (writeJSON 200 (JObj [(''logs'', enc_logs (c_Logs (cfg_of p))), (''proxy'', enc_proxy (c_Proxy (cfg_of p)))]), p)
      else if rq_Method r = ''PUT'' then
        (case Decode maxAdminBody (dec_struct dec_settings) (rq_Body r) \<lparr>sb_Proxy = None, sb_Logs = None\<rparr> of
           None \<Rightarrow> (writeJSON 400 (jerror ''invalid body''), p)
         | Some b \<Rightarrow> put_settings env r b p)
      else (no_answer, p))"

section \<open>Export and import\<close>

record configExport =
  cx_Version :: int
  cx_Proxy :: ProxySettings
  cx_GlobalRules :: GlobalRules
  cx_Logs :: LogSettings
  cx_Users :: "User list"

definition maxImportBody :: nat where "maxImportBody = 8 * 2 ^ 20"

definition zero_export :: configExport where
  "zero_export = \<lparr>cx_Version = 0, cx_Proxy = zero_proxy, cx_GlobalRules = zero_rules, cx_Logs = zero_logs, cx_Users = []\<rparr>"

definition enc_export :: "configExport \<Rightarrow> json" where
  "enc_export x = JObj
     [(''version'', jint (cx_Version x)),
      (''proxy'', enc_proxy (cx_Proxy x)),
      (''global_rules'', enc_rules (cx_GlobalRules x)),
      (''logs'', enc_logs (cx_Logs x)),
      (''users'', JArr (map enc_user (cx_Users x)))]"

definition dec_export :: "(string \<times> json) list \<Rightarrow> configExport \<Rightarrow> configExport option" where
  "dec_export ms x = do {
     a \<leftarrow> dec_field ''version'' dec_int ms (cx_Version x);
     b \<leftarrow> dec_field ''proxy'' (dec_struct dec_proxy) ms (cx_Proxy x);
     c \<leftarrow> dec_field ''global_rules'' (dec_struct dec_rules) ms (cx_GlobalRules x);
     d \<leftarrow> dec_field ''logs'' (dec_struct dec_logs) ms (cx_Logs x);
     e \<leftarrow> dec_field ''users'' (dec_slice (dec_struct dec_user) zero_user) ms (cx_Users x);
     Some \<lparr>cx_Version = a, cx_Proxy = b, cx_GlobalRules = c, cx_Logs = d, cx_Users = e\<rparr>}"

definition export_of :: "Config \<Rightarrow> configExport" where
  "export_of cfg = \<lparr>cx_Version = c_Version cfg, cx_Proxy = c_Proxy cfg, cx_GlobalRules = c_GlobalRules cfg,
     cx_Logs = c_Logs cfg, cx_Users = c_Users cfg\<rparr>"

definition apiExport :: "Env \<Rightarrow> Request \<Rightarrow> Proxy \<Rightarrow> Response \<times> Proxy" where
  "apiExport env r p =
     (let resp = writeJSON 200 (enc_export (export_of (cfg_of p))) in
      (resp\<lparr>rs_header := header_set ''Content-Disposition'' (''attachment; filename='' @ quote ''forward-proxy-config.json'')
              (rs_header resp)\<rparr>,
       audit_record env ''config.export'' (adminName r) (''users='' @ int_dec (int (length (c_Users (cfg_of p))))) p))"

text \<open>The loop over the users: their number so far, the identifiers and names seen, and the enabled admins.\<close>

definition user_error :: "string list \<Rightarrow> string list \<Rightarrow> int \<Rightarrow> User \<Rightarrow> string option" where
  "user_error seenIDs seenNames i u =
     (let name = TrimSpace (u_Username u) in
      if u_ID u = [] then Some (''user #'' @ int_dec (i + 1) @ '': missing id'')
      else if u_ID u \<in> set seenIDs then Some (''duplicate user id '' @ quote (u_ID u))
      else if \<not> usernameRe name then Some (''invalid username '' @ quote (u_Username u))
      else if ToLower name \<in> set seenNames then Some (''duplicate username '' @ quote name)
      else if u_Role u \<noteq> ''user'' \<and> u_Role u \<noteq> ''admin'' then Some (''user '' @ quote name @ '': role must be user or admin'')
      else if \<not> validPasswordHash (u_PasswordHash u) then Some (''user '' @ quote name @ '': invalid password hash'')
      else
        case validatePatterns (u_Whitelist u) of Some err \<Rightarrow> Some (''user '' @ quote name @ '' whitelist: '' @ err)
        | None \<Rightarrow>
           (case validatePatterns (u_Blacklist u) of Some err \<Rightarrow> Some (''user '' @ quote name @ '' blacklist: '' @ err)
            | None \<Rightarrow>
               if u_MaxConns u < 0 \<or> u_MaxConns u > 100000 then Some (''user '' @ quote name @ '': max_conns out of range'')
               else if u_DailyTrafficMB u < 0 \<or> u_DailyTrafficMB u > 1000000
               then Some (''user '' @ quote name @ '': daily_traffic_mb out of range'')
               else None))"

fun users_loop :: "string list \<Rightarrow> string list \<Rightarrow> int \<Rightarrow> nat \<Rightarrow> User list \<Rightarrow> string + nat" where
  "users_loop seenIDs seenNames i admins [] = Inr admins"
| "users_loop seenIDs seenNames i admins (u # us) =
     (case user_error seenIDs seenNames i u of Some err \<Rightarrow> Inl err
      | None \<Rightarrow> users_loop (u_ID u # seenIDs) (ToLower (TrimSpace (u_Username u)) # seenNames) (i + 1)
                  (if u_Role u = ''admin'' \<and> u_Enabled u then Suc admins else admins) us)"

definition validateImportSnapshot :: "Env \<Rightarrow> configExport \<Rightarrow> string option" where
  "validateImportSnapshot env exp =
     (if \<not> validListenAddr (px_ListenAddr (cx_Proxy exp)) \<or> \<not> validListenAddr (px_AdminListenAddr (cx_Proxy exp))
      then Some ''invalid listen address (use :port or host:port)''
      else case range_error env (cx_Proxy exp) of Some err \<Rightarrow> Some err
      | None \<Rightarrow> (case log_range_error (cx_Logs exp) of Some err \<Rightarrow> Some err
      | None \<Rightarrow> (case validatePatterns (gr_Whitelist (cx_GlobalRules exp)) of Some err \<Rightarrow> Some (''global whitelist: '' @ err)
      | None \<Rightarrow> (case validatePatterns (gr_Blacklist (cx_GlobalRules exp)) of Some err \<Rightarrow> Some (''global blacklist: '' @ err)
      | None \<Rightarrow> (case users_loop [] [] 0 0 (cx_Users exp) of Inl err \<Rightarrow> Some err
      | Inr admins \<Rightarrow> if admins = 0 then Some ''snapshot must contain at least one enabled admin'' else None)))))"

definition configHasEnabledAdminNamed :: "configExport \<Rightarrow> string \<Rightarrow> bool" where
  "configHasEnabledAdminNamed exp name =
     list_ex (\<lambda>u. u_Enabled u \<and> u_Role u = ''admin'' \<and> EqualFold (u_Username u) name) (cx_Users exp)"

definition import_fn :: "configExport \<Rightarrow> Config \<Rightarrow> error + Config" where
  "import_fn exp c = Inr (c\<lparr>c_Version := 1, c_Proxy := cx_Proxy exp, c_GlobalRules := cx_GlobalRules exp,
     c_Logs := cx_Logs exp, c_Users := cx_Users exp\<rparr>)"

definition em_dash :: string where
  "em_dash = [char_of (226 :: nat), char_of (128 :: nat), char_of (148 :: nat)]"

definition import_answer :: "configExport \<Rightarrow> string \<Rightarrow> json" where
  "import_answer exp who =
     JObj ([(''ok'', JBool True), (''users'', jint (int (length (cx_Users exp))))]
       @ (if who \<noteq> [] \<and> \<not> configHasEnabledAdminNamed exp who
          then [(''warnings'', jstrings [''the current admin user '' @ quote who @ '' will no longer have access after this import ''
                  @ em_dash @ '' make sure an enabled admin exists in the snapshot''])]
          else []))"

definition apiImport :: "Env \<Rightarrow> Request \<Rightarrow> Proxy \<Rightarrow> Response \<times> Proxy" where
  "apiImport env r p =
     (case Decode maxImportBody (dec_struct dec_export) (rq_Body r) zero_export of
        None \<Rightarrow> (writeJSON 400 (jerror ''invalid snapshot: ''), p)
      | Some exp \<Rightarrow>
         (case (case validateImportSnapshot env exp of Some err \<Rightarrow> Some err
                | None \<Rightarrow> bind_error env (c_Proxy (cfg_of p)) (cx_Proxy exp)) of
            Some err \<Rightarrow> (writeJSON 400 (jerror err), p)
          | None \<Rightarrow>
             (case update_config env (import_fn exp) p of
                (Some err, p1) \<Rightarrow> (writeJSON 500 (jerror (error_message err)), p1)
              | (None, p1) \<Rightarrow>
                  (writeJSON 200 (import_answer exp (adminName r)),
                   audit_record env ''config.import'' (adminName r)
                     (''users='' @ int_dec (int (length (cx_Users exp))) @ '' proxy_addr='' @ px_ListenAddr (cx_Proxy exp)
                      @ '' admin_addr='' @ px_AdminListenAddr (cx_Proxy exp)) p1))))"

section \<open>What the validations accept\<close>

definition patterns_ok :: "string list \<Rightarrow> bool" where
  "patterns_ok pats = list_all (\<lambda>pat. TrimSpace pat = [] \<or> \<not> isl (compilePattern pat)) pats"

definition in_range :: "int \<Rightarrow> int \<Rightarrow> int \<Rightarrow> bool" where
  "in_range lo hi v \<longleftrightarrow> lo \<le> v \<and> v \<le> hi"

definition proxy_settings_ok :: "ProxySettings \<Rightarrow> bool" where
  "proxy_settings_ok px \<longleftrightarrow> validListenAddr (px_ListenAddr px) \<and> validListenAddr (px_AdminListenAddr px)
     \<and> in_range 0 100000 (px_ConnectTimeoutSec px) \<and> in_range 0 100000 (px_ReadTimeoutSec px)
     \<and> in_range 0 100000 (px_DefaultMaxConns px) \<and> in_range 0 100000 (px_MaxGlobalConns px)"

definition log_settings_ok :: "LogSettings \<Rightarrow> bool" where
  "log_settings_ok lg \<longleftrightarrow> in_range 100 200000 (lg_RingSize lg) \<and> in_range 0 10000 (lg_FileMaxMB lg)"

definition user_ok :: "User \<Rightarrow> bool" where
  "user_ok u \<longleftrightarrow> u_ID u \<noteq> [] \<and> usernameRe (TrimSpace (u_Username u)) \<and> (u_Role u = ''user'' \<or> u_Role u = ''admin'')
     \<and> validPasswordHash (u_PasswordHash u) \<and> patterns_ok (u_Whitelist u) \<and> patterns_ok (u_Blacklist u)
     \<and> in_range 0 100000 (u_MaxConns u) \<and> in_range 0 1000000 (u_DailyTrafficMB u)"

definition trimmed_name :: "User \<Rightarrow> string" where
  "trimmed_name u = ToLower (TrimSpace (u_Username u))"

text \<open>A snapshot that may replace the configuration, stated without the order of the checks.\<close>

definition snapshot_ok :: "configExport \<Rightarrow> bool" where
  "snapshot_ok x \<longleftrightarrow> proxy_settings_ok (cx_Proxy x) \<and> log_settings_ok (cx_Logs x)
     \<and> patterns_ok (gr_Whitelist (cx_GlobalRules x)) \<and> patterns_ok (gr_Blacklist (cx_GlobalRules x))
     \<and> list_all user_ok (cx_Users x) \<and> distinct (map u_ID (cx_Users x)) \<and> distinct (map trimmed_name (cx_Users x))
     \<and> list_ex (\<lambda>u. u_Role u = ''admin'' \<and> u_Enabled u) (cx_Users x)"

lemma validatePatterns_None: "validatePatterns pats = None \<longleftrightarrow> patterns_ok pats"
  by (induction pats rule: validatePatterns.induct) (auto simp: patterns_ok_def split: sum.splits)

lemma set_visit [simp]: "set (visit order kvs) = set kvs"
  by (auto simp: visit_def)

lemma range_error_None:
  "range_error env px = None \<longleftrightarrow> list_all (\<lambda>(_, v). in_range 0 100000 v) (range_fields px)"
  by (auto simp: range_error_def find_None_iff in_range_def list_all_iff split_beta not_less)

lemma log_range_error_None: "log_range_error lg = None \<longleftrightarrow> log_settings_ok lg"
  by (simp add: log_range_error_def log_settings_ok_def in_range_def not_less)

lemma user_error_None:
  "user_error ids names i u = None \<longleftrightarrow> user_ok u \<and> u_ID u \<notin> set ids \<and> trimmed_name u \<notin> set names"
  unfolding user_error_def Let_def user_ok_def trimmed_name_def in_range_def validatePatterns_None [symmetric]
  by (cases "validatePatterns (u_Whitelist u)"; cases "validatePatterns (u_Blacklist u)") simp_all

lemma users_loop_Inr:
  "users_loop ids names i a us = Inr n \<longleftrightarrow>
     list_all user_ok us \<and> distinct (map u_ID us) \<and> distinct (map trimmed_name us)
     \<and> u_ID ` set us \<inter> set ids = {} \<and> trimmed_name ` set us \<inter> set names = {}
     \<and> n = a + length (filter (\<lambda>u. u_Role u = ''admin'' \<and> u_Enabled u) us)"
proof (induction us arbitrary: ids names i a)
  case (Cons u us)
  show ?case
  proof (cases "user_error ids names i u")
    case None
    then have "user_ok u" "u_ID u \<notin> set ids" "trimmed_name u \<notin> set names" using user_error_None by blast+
    moreover have "ToLower (TrimSpace (u_Username u)) = trimmed_name u" by (simp add: trimmed_name_def)
    ultimately show ?thesis using None by (simp add: Cons) blast
  next
    case (Some err)
    then have "\<not> (user_ok u \<and> u_ID u \<notin> set ids \<and> trimmed_name u \<notin> set names)"
      using user_error_None [of ids names i u] by simp
    with Some show ?thesis by (simp) blast
  qed
qed auto

lemma validate_None: "validateImportSnapshot env x = None \<longleftrightarrow> snapshot_ok x"
proof -
  let ?n = "length (filter (\<lambda>u. u_Role u = ''admin'' \<and> u_Enabled u) (cx_Users x))"
  have r: "range_error env (cx_Proxy x) = None \<and> validListenAddr (px_ListenAddr (cx_Proxy x)) \<and> validListenAddr (px_AdminListenAddr (cx_Proxy x))
      \<longleftrightarrow> proxy_settings_ok (cx_Proxy x)"
    unfolding range_error_None proxy_settings_ok_def range_fields_def by auto
  have u: "(\<exists>n. users_loop [] [] 0 0 (cx_Users x) = Inr n \<and> n \<noteq> 0) \<longleftrightarrow>
      list_all user_ok (cx_Users x) \<and> distinct (map u_ID (cx_Users x)) \<and> distinct (map trimmed_name (cx_Users x))
      \<and> list_ex (\<lambda>u. u_Role u = ''admin'' \<and> u_Enabled u) (cx_Users x)"
    unfolding users_loop_Inr by (auto simp: list_ex_iff filter_empty_conv)
  have "validateImportSnapshot env x = None \<longleftrightarrow>
      (range_error env (cx_Proxy x) = None \<and> validListenAddr (px_ListenAddr (cx_Proxy x)) \<and> validListenAddr (px_AdminListenAddr (cx_Proxy x)))
      \<and> log_range_error (cx_Logs x) = None \<and> validatePatterns (gr_Whitelist (cx_GlobalRules x)) = None
      \<and> validatePatterns (gr_Blacklist (cx_GlobalRules x)) = None \<and> (\<exists>n. users_loop [] [] 0 0 (cx_Users x) = Inr n \<and> n \<noteq> 0)"
    unfolding validateImportSnapshot_def by (simp split: option.split sum.split) blast
  then show ?thesis unfolding r u log_range_error_None validatePatterns_None snapshot_ok_def by blast
qed

lemma is_space_lower [simp]: "is_space (lower_char c) = is_space c"
  by (auto simp: is_space_def lower_char_def)

lemma ToLower_TrimSpace: "ToLower (TrimSpace s) = TrimSpace (ToLower s)"
proof -
  have "is_space \<circ> lower_char = is_space" by auto
  then show ?thesis by (simp add: ToLower_def TrimSpace_def dropWhile_map rev_map)
qed

lemma snapshot_config_ok:
  assumes "snapshot_ok x" "c_Users c = cx_Users x"
  shows "config_ok c"
proof -
  have "distinct (map TrimSpace (map (\<lambda>u. ToLower (u_Username u)) (cx_Users x)))"
    using assms(1) by (simp add: snapshot_ok_def trimmed_name_def [abs_def] ToLower_TrimSpace comp_def)
  then have "distinct (map (\<lambda>u. ToLower (u_Username u)) (cx_Users x))" using distinct_map by blast
  moreover have "list_all (\<lambda>u. u_ID u \<noteq> []) (cx_Users x)"
    using assms(1) by (auto simp: snapshot_ok_def user_ok_def list_all_iff)
  ultimately show ?thesis
    using assms by (auto simp: config_ok_def users_distinct_def has_admin_def snapshot_ok_def list_ex_iff)
qed

section \<open>What the handlers do to the configuration\<close>

lemma config_ok_users: "c_Users c = c_Users d \<Longrightarrow> config_ok c = config_ok d"
  by (simp add: config_ok_def users_distinct_def has_admin_def)

lemma lawful_rules: "lawful env p (rules_fn b)"
  using config_ok_users [of "(cfg_of p)\<lparr>c_GlobalRules := b\<rparr>" "cfg_of p"]
  by (simp add: lawful_def rules_fn_def config_fits_parts)

lemma lawful_settings: "proxy_fits px \<Longrightarrow> logs_fit lg \<Longrightarrow> lawful env p (settings_fn px lg)"
  using config_ok_users [of "(cfg_of p)\<lparr>c_Proxy := px, c_Logs := lg\<rparr>" "cfg_of p"]
  by (simp add: lawful_def settings_fn_def config_fits_parts)

lemma settings_error_fits: "settings_error env cur px lg = None \<Longrightarrow> proxy_fits px \<and> logs_fit lg"
  by (auto simp: settings_error_def range_error_None log_range_error_None range_fields_def log_settings_ok_def in_range_def
      proxy_fits_def logs_fit_def in_int64_def split: if_splits option.splits)

lemma put_rules_moves: "moves env p (snd (put_rules env r b p))"
proof -
  obtain e p1 where up: "update_config env (rules_fn b) p = (e, p1)" by fastforce
  then have "inner (snd (put_rules env r b p)) = inner p \<or> inner (snd (put_rules env r b p)) = inner p1"
    by (cases e) (simp_all add: put_rules_def split: option.split)
  then show ?thesis using moves_update [OF lawful_rules up] by blast
qed

lemma put_settings_moves: "moves env p (snd (put_settings env r b p))"
proof -
  let ?px = "case sb_Proxy b of None \<Rightarrow> c_Proxy (cfg_of p) | Some pt \<Rightarrow> applyProxyPatch pt (c_Proxy (cfg_of p))"
  let ?lg = "case sb_Logs b of None \<Rightarrow> c_Logs (cfg_of p) | Some pt \<Rightarrow> applyLogPatch pt (c_Logs (cfg_of p))"
  obtain e p1 where up: "update_config env (settings_fn ?px ?lg) p = (e, p1)" by fastforce
  show ?thesis
  proof (cases "settings_error env (c_Proxy (cfg_of p)) ?px ?lg")
    case None
    with up have "inner (snd (put_settings env r b p)) = inner p \<or> inner (snd (put_settings env r b p)) = inner p1"
      by (cases e) (simp_all add: put_settings_def Let_def)
    moreover have "lawful env p (settings_fn ?px ?lg)" using settings_error_fits [OF None] by (intro lawful_settings) simp_all
    ultimately show ?thesis using moves_update [OF _ up] by blast
  next
    case (Some err)
    then have "inner (snd (put_settings env r b p)) = inner p" by (simp add: put_settings_def Let_def)
    then show ?thesis by (rule moves_same)
  qed
qed

lemma settings_handlers_move:
  "moves env p (snd (apiGlobalRules env r p))" "moves env p (snd (apiSettings env r p))" "moves env p (snd (apiExport env r p))"
  using put_rules_moves [of env p r] put_settings_moves [of env p r]
  by (auto simp: apiGlobalRules_def apiSettings_def apiExport_def Let_def split: option.split)

text \<open>An import that is refused changes nothing; one that is not replaces all but the session key.\<close>

definition importable :: "Env \<Rightarrow> Proxy \<Rightarrow> configExport \<Rightarrow> bool" where
  "importable env p x \<longleftrightarrow> snapshot_ok x
     \<and> (px_ListenAddr (cx_Proxy x) = px_ListenAddr (c_Proxy (cfg_of p)) \<or> e_listen env (px_ListenAddr (cx_Proxy x)) = None)
     \<and> (px_AdminListenAddr (cx_Proxy x) = px_AdminListenAddr (c_Proxy (cfg_of p))
        \<or> e_listen env (px_AdminListenAddr (cx_Proxy x)) = None)"

lemma bind_error_None:
  "bind_error env cur new = None \<longleftrightarrow>
     (px_ListenAddr new = px_ListenAddr cur \<or> e_listen env (px_ListenAddr new) = None)
     \<and> (px_AdminListenAddr new = px_AdminListenAddr cur \<or> e_listen env (px_AdminListenAddr new) = None)"
  by (simp add: bind_error_def tryBind_def split: option.split)

lemma import_error_None:
  "(case validateImportSnapshot env x of Some err \<Rightarrow> Some err
    | None \<Rightarrow> bind_error env (c_Proxy (cfg_of p)) (cx_Proxy x)) = None \<longleftrightarrow> importable env p x"
  unfolding importable_def validate_None [of env, symmetric] bind_error_None [symmetric] by (simp split: option.split)

lemma apiImport_refused:
  assumes "Decode maxImportBody (dec_struct dec_export) (rq_Body r) zero_export = Some x" "\<not> importable env p x"
  shows "\<exists>err. apiImport env r p = (writeJSON 400 (jerror err), p)"
proof -
  obtain err where "(case validateImportSnapshot env x of Some err \<Rightarrow> Some err
    | None \<Rightarrow> bind_error env (c_Proxy (cfg_of p)) (cx_Proxy x)) = Some err"
    using import_error_None [where env = env and x = x and p = p] assms(2) by blast
  with assms(1) show ?thesis by (auto simp: apiImport_def)
qed

lemma apiImport_accepted:
  assumes "Decode maxImportBody (dec_struct dec_export) (rq_Body r) zero_export = Some x" "importable env p x"
  shows "fst (update_config env (import_fn x) p) = None \<Longrightarrow> rs_status (fst (apiImport env r p)) = 200"
    "p_store (snd (apiImport env r p)) = p_store (snd (update_config env (import_fn x) p))"
  using assms import_error_None [where env = env and x = x and p = p] by (auto simp: apiImport_def writeJSON_def split: prod.split option.split)

lemma apiImport_invalid:
  "Decode maxImportBody (dec_struct dec_export) (rq_Body r) zero_export = None \<Longrightarrow>
     apiImport env r p = (writeJSON 400 (jerror ''invalid snapshot: ''), p)"
  by (simp add: apiImport_def)

definition export_fits :: "configExport \<Rightarrow> bool" where
  "export_fits x \<longleftrightarrow> in_int64 (cx_Version x) \<and> proxy_fits (cx_Proxy x) \<and> logs_fit (cx_Logs x) \<and> list_all user_fits (cx_Users x)"

lemma dec_export_keeps: "dec_struct dec_export v x = Some y \<Longrightarrow> export_fits x \<Longrightarrow> export_fits y"
  by (erule dec_struct_keeps) (auto simp: dec_export_def export_fits_def bind_eq_Some_conv elim!: dec_part_fields)

lemma Decode_fits: "Decode limit (dec_struct dec_export) body zero_export = Some x \<Longrightarrow> export_fits x"
  using dec_export_keeps [of _ zero_export x]
  by (auto simp: Decode_def Let_def export_fits_def zero_export_def in_int64_def split: option.splits if_splits)

lemma lawful_import: "snapshot_ok x \<Longrightarrow> export_fits x \<Longrightarrow> lawful env p (import_fn x)"
  using snapshot_config_ok [of x] by (auto simp: lawful_def import_fn_def config_fits_parts export_fits_def in_int64_def)

lemma apiImport_moves: "moves env p (snd (apiImport env r p))"
proof (cases "Decode maxImportBody (dec_struct dec_export) (rq_Body r) zero_export")
  case (Some x)
  show ?thesis
  proof (cases "importable env p x")
    case True
    obtain e p1 where up: "update_config env (import_fn x) p = (e, p1)" by fastforce
    then have "inner (snd (apiImport env r p)) = inner p1"
      using Some True import_error_None [where env = env and x = x and p = p] by (cases e) (simp_all add: apiImport_def)
    moreover have "lawful env p (import_fn x)" using True Decode_fits [OF Some] by (intro lawful_import) (simp_all add: importable_def)
    ultimately show ?thesis using moves_update [OF _ up] by blast
  next
    case False
    with apiImport_refused [OF Some False] show ?thesis by auto
  qed
qed (auto simp: apiImport_invalid)

text \<open>All four handlers meet the contract.\<close>

interpretation global_rules: admin_handler apiGlobalRules
  by unfold_locales (rule settings_handlers_move)

interpretation settings: admin_handler apiSettings
  by unfold_locales (rule settings_handlers_move)

interpretation export: admin_handler apiExport
  by unfold_locales (rule settings_handlers_move)

interpretation restore: admin_handler apiImport
  by unfold_locales (rule apiImport_moves)

section \<open>Properties of settings, export and import\<close>

text \<open>
  A reference for the merge: every field is the one sent if the field was sent, the old one
  otherwise.
\<close>

definition pick :: "'b option \<Rightarrow> ('b \<Rightarrow> 'a option) \<Rightarrow> 'a \<Rightarrow> 'a" where
  "pick pt field old = (case pt of None \<Rightarrow> old | Some q \<Rightarrow> (case field q of None \<Rightarrow> old | Some v \<Rightarrow> v))"

definition merged_proxy :: "settingsBody \<Rightarrow> ProxySettings \<Rightarrow> ProxySettings" where
  "merged_proxy b cur =
     (let pt = sb_Proxy b in
      \<lparr>px_Enabled = pick pt pp_Enabled (px_Enabled cur), px_ListenAddr = pick pt pp_ListenAddr (px_ListenAddr cur),
       px_AdminListenAddr = pick pt pp_AdminListenAddr (px_AdminListenAddr cur),
       px_RequireAuth = pick pt pp_RequireAuth (px_RequireAuth cur), px_AllowHTTP = pick pt pp_AllowHTTP (px_AllowHTTP cur),
       px_AllowHTTPS = pick pt pp_AllowHTTPS (px_AllowHTTPS cur),
       px_ConnectTimeoutSec = pick pt pp_ConnectTimeoutSec (px_ConnectTimeoutSec cur),
       px_ReadTimeoutSec = pick pt pp_ReadTimeoutSec (px_ReadTimeoutSec cur),
       px_DefaultMaxConns = pick pt pp_DefaultMaxConns (px_DefaultMaxConns cur),
       px_MaxGlobalConns = pick pt pp_MaxGlobalConns (px_MaxGlobalConns cur)\<rparr>)"

definition merged_logs :: "settingsBody \<Rightarrow> LogSettings \<Rightarrow> LogSettings" where
  "merged_logs b cur =
     \<lparr>lg_RingSize = pick (sb_Logs b) lp_RingSize (lg_RingSize cur), lg_FileMaxMB = pick (sb_Logs b) lp_FileMaxMB (lg_FileMaxMB cur),
      lg_ToFile = pick (sb_Logs b) lp_ToFile (lg_ToFile cur)\<rparr>"

lemma opt_upd_sel:
  "opt_upd upd v x = upd (\<lambda>old. case v of None \<Rightarrow> old | Some a \<Rightarrow> a) x" if "upd (\<lambda>old. old) x = x"
  using that by (cases v) (simp_all add: opt_upd_def)

lemma merged_proxy_eq:
  "(case sb_Proxy b of None \<Rightarrow> cur | Some pt \<Rightarrow> applyProxyPatch pt cur) = merged_proxy b cur"
  by (cases "sb_Proxy b") (simp_all add: merged_proxy_def pick_def applyProxyPatch_def opt_upd_sel)

lemma merged_logs_eq:
  "(case sb_Logs b of None \<Rightarrow> cur | Some pt \<Rightarrow> applyLogPatch pt cur) = merged_logs b cur"
  by (cases "sb_Logs b") (simp_all add: merged_logs_def pick_def applyLogPatch_def opt_upd_sel)

lemma settings_error_None:
  "settings_error env cur px lg = None \<longleftrightarrow> proxy_settings_ok px \<and> log_settings_ok lg \<and> bind_error env cur px = None"
proof -
  have r: "range_error env px = None \<and> validListenAddr (px_ListenAddr px) \<and> validListenAddr (px_AdminListenAddr px)
      \<longleftrightarrow> proxy_settings_ok px"
    unfolding range_error_None proxy_settings_ok_def range_fields_def by auto
  have "settings_error env cur px lg = None \<longleftrightarrow>
      (range_error env px = None \<and> validListenAddr (px_ListenAddr px) \<and> validListenAddr (px_AdminListenAddr px))
      \<and> log_range_error lg = None \<and> bind_error env cur px = None"
    unfolding settings_error_def by (cases "range_error env px"; cases "bind_error env cur px") auto
  then show ?thesis unfolding r log_range_error_None .
qed

text \<open>Settings that may be put in force over the present ones.\<close>

definition settings_acceptable :: "Env \<Rightarrow> settingsBody \<Rightarrow> Config \<Rightarrow> bool" where
  "settings_acceptable env b c \<longleftrightarrow> (sb_Proxy b \<noteq> None \<or> sb_Logs b \<noteq> None)
     \<and> proxy_settings_ok (merged_proxy b (c_Proxy c)) \<and> log_settings_ok (merged_logs b (c_Logs c))
     \<and> (px_ListenAddr (merged_proxy b (c_Proxy c)) = px_ListenAddr (c_Proxy c)
        \<or> e_listen env (px_ListenAddr (merged_proxy b (c_Proxy c))) = None)
     \<and> (px_AdminListenAddr (merged_proxy b (c_Proxy c)) = px_AdminListenAddr (c_Proxy c)
        \<or> e_listen env (px_AdminListenAddr (merged_proxy b (c_Proxy c))) = None)"

text \<open>
  C13: a settings update merges, and only valid settings get in. A \<open>PUT\<close> with a decodable body,
  when the save succeeds, is answered with 200 if \<open>proxy\<close> or \<open>logs\<close> was sent, the merged settings
  are in range, the addresses are well formed and each is the present one or can be bound, and then exactly
  the fields that were sent have changed, and no other part of the configuration; otherwise it is answered with 400 and nothing
  changes. The order in which Go visits a map plays no role in this.
\<close>

theorem settings_merge:
  assumes "rq_Method r = ''PUT''" "save_succeeds env"
    and "Decode maxAdminBody (dec_struct dec_settings) (rq_Body r) \<lparr>sb_Proxy = None, sb_Logs = None\<rparr> = Some b"
  shows "rs_status (fst (apiSettings env r p)) = (if settings_acceptable env b (cfg_of p) then 200 else 400)
    \<and> cfg_of (snd (apiSettings env r p)) =
        (if settings_acceptable env b (cfg_of p)
         then (cfg_of p)\<lparr>c_Proxy := merged_proxy b (c_Proxy (cfg_of p)), c_Logs := merged_logs b (c_Logs (cfg_of p))\<rparr>
         else cfg_of p)"
proof -
  let ?px = "merged_proxy b (c_Proxy (cfg_of p))" and ?lg = "merged_logs b (c_Logs (cfg_of p))"
  have run: "apiSettings env r p = put_settings env r b p" using assms(1,3) by (simp add: apiSettings_def)
  have acc: "settings_acceptable env b (cfg_of p) \<longleftrightarrow>
      \<not> (sb_Proxy b = None \<and> sb_Logs b = None) \<and> settings_error env (c_Proxy (cfg_of p)) ?px ?lg = None"
    unfolding settings_acceptable_def settings_error_None bind_error_None by simp
  obtain e p1 where up: "update_config env (settings_fn ?px ?lg) p = (e, p1)" by fastforce
  have p1: "e = None" "cfg_of p1 = (cfg_of p)\<lparr>c_Proxy := ?px, c_Logs := ?lg\<rparr>"
    using up update_config_saved [OF assms(2), of "settings_fn ?px ?lg" p] update_config_cfg [of env "settings_fn ?px ?lg" p]
    by (simp_all add: settings_fn_def)
  show ?thesis
    unfolding run put_settings_def merged_proxy_eq merged_logs_eq Let_def acc
    using up p1 by (simp add: writeJSON_def split: option.split)
qed

text \<open>A request body with three settings.\<close>

definition demo_settings_json :: json where
  "demo_settings_json = JObj [(''proxy'', JObj [(''listen_addr'', JStr '':3128''), (''admin_listen_addr'', JStr '':8080'')]),
     (''logs'', JObj [(''ring_size'', jint 500)])]"

definition demo_settings_request :: Request where
  "demo_settings_request = demo_request\<lparr>rq_Method := ''PUT'', rq_Body := Marshal demo_settings_json\<rparr>"

definition demo_settings :: settingsBody where
  "demo_settings = \<lparr>sb_Proxy = Some (zero_proxy_patch\<lparr>pp_ListenAddr := Some '':3128'', pp_AdminListenAddr := Some '':8080''\<rparr>),
     sb_Logs = Some (zero_log_patch\<lparr>lp_RingSize := Some 500\<rparr>)\<rparr>"

lemma Decode_Marshal:
  assumes "json_ok v" "num_end rest" "length (Marshal v @ rest) \<le> limit"
  shows "Decode limit dec (Marshal v @ rest) x = dec v x"
proof -
  have "parse_value (Suc (length (Marshal v @ rest))) (Marshal v @ rest) = Some (v, rest)"
    using compact.json_nums_reads_back assms(1,2) unfolding json_ok_def by (simp add: compact.reads_back_def Marshal_def del: parse_value.simps)
  then show ?thesis using assms(1) unfolding Decode_short [OF assms(3)] json_ok_def by (simp only: option.case prod.case if_True)
qed

lemma demo_settings_body:
  "Decode maxAdminBody (dec_struct dec_settings) (rq_Body demo_settings_request) \<lparr>sb_Proxy = None, sb_Logs = None\<rparr>
   = Some demo_settings"
proof -
  have "length (Marshal demo_settings_json @ []) \<le> 100" by code_simp
  then have "length (Marshal demo_settings_json @ []) \<le> maxAdminBody" by (rule order_trans) (simp add: maxAdminBody_def)
  moreover have "dec_struct dec_settings demo_settings_json \<lparr>sb_Proxy = None, sb_Logs = None\<rparr> = Some demo_settings" by code_simp
  moreover have "json_ok demo_settings_json" by (rule json_okI) (auto simp: demo_settings_json_def)
  ultimately show ?thesis
    using Decode_Marshal [of demo_settings_json "[]" maxAdminBody "dec_struct dec_settings"]
    by (simp add: demo_settings_request_def num_end_def)
qed

theorem settings_merge_witness:
  "rs_status (fst (apiSettings demo_env demo_settings_request demo_proxy)) = 200
   \<and> c_Logs (cfg_of (snd (apiSettings demo_env demo_settings_request demo_proxy))) = (c_Logs demo_config)\<lparr>lg_RingSize := 500\<rparr>"
proof -
  have "settings_acceptable demo_env demo_settings demo_config" by code_simp
  moreover have "rq_Method demo_settings_request = ''PUT''" by (simp add: demo_settings_request_def)
  moreover have "merged_logs demo_settings (c_Logs demo_config) = (c_Logs demo_config)\<lparr>lg_RingSize := 500\<rparr>" by code_simp
  ultimately show ?thesis using settings_merge [OF _ _ demo_settings_body, of demo_env demo_proxy] by simp
qed

text \<open>
  C14: an import is accepted exactly when the snapshot is sound. The checks accept a snapshot if and
  only if addresses, ranges, patterns, roles and hash formats are right, identifiers are present and
  unique, names are well formed and unique without regard to case, and there is an enabled admin. When
  the save succeeds, an accepted snapshot whose addresses are the present ones or can be bound replaces
  everything but the session key; any other leaves the proxy as it was, with 400.
\<close>

theorem import_exact:
  assumes "save_succeeds env"
  shows "(validateImportSnapshot env x = None \<longleftrightarrow> snapshot_ok x) \<and>
    (case Decode maxImportBody (dec_struct dec_export) (rq_Body r) zero_export of
      None \<Rightarrow> rs_status (fst (apiImport env r p)) = 400 \<and> snd (apiImport env r p) = p
    | Some x \<Rightarrow>
       if importable env p x
       then rs_status (fst (apiImport env r p)) = 200
         \<and> cfg_of (snd (apiImport env r p)) = \<lparr>c_Version = 1, c_SessionKey = c_SessionKey (cfg_of p), c_Proxy = cx_Proxy x,
             c_GlobalRules = cx_GlobalRules x, c_Logs = cx_Logs x, c_Users = cx_Users x\<rparr>
       else rs_status (fst (apiImport env r p)) = 400 \<and> snd (apiImport env r p) = p)"
proof
  show "validateImportSnapshot env x = None \<longleftrightarrow> snapshot_ok x" by (rule validate_None)
  show "case Decode maxImportBody (dec_struct dec_export) (rq_Body r) zero_export of
      None \<Rightarrow> rs_status (fst (apiImport env r p)) = 400 \<and> snd (apiImport env r p) = p
    | Some x \<Rightarrow>
       if importable env p x
       then rs_status (fst (apiImport env r p)) = 200
         \<and> cfg_of (snd (apiImport env r p)) = \<lparr>c_Version = 1, c_SessionKey = c_SessionKey (cfg_of p), c_Proxy = cx_Proxy x,
             c_GlobalRules = cx_GlobalRules x, c_Logs = cx_Logs x, c_Users = cx_Users x\<rparr>
       else rs_status (fst (apiImport env r p)) = 400 \<and> snd (apiImport env r p) = p"
  proof (cases "Decode maxImportBody (dec_struct dec_export) (rq_Body r) zero_export")
    case (Some x)
    show ?thesis
    proof (cases "importable env p x")
      case True
      have "fst (update_config env (import_fn x) p) = None"
        using update_config_saved [OF assms, of "import_fn x" p] by (simp add: import_fn_def)
      with apiImport_accepted [OF Some True] Some True show ?thesis
        by (simp add: update_config_cfg import_fn_def)
    next
      case False
      with apiImport_refused [OF Some False] Some show ?thesis by (auto simp: writeJSON_def)
    qed
  qed (simp add: apiImport_invalid writeJSON_def)
qed

text \<open>A snapshot of one admin, valid and importable everywhere.\<close>

definition demo_snapshot :: configExport where
  "demo_snapshot = \<lparr>cx_Version = 1, cx_Proxy = zero_proxy\<lparr>px_ListenAddr := '':3128'', px_AdminListenAddr := '':8080''\<rparr>,
     cx_GlobalRules = zero_rules, cx_Logs = zero_logs\<lparr>lg_RingSize := 100\<rparr>, cx_Users = [demo_admin]\<rparr>"

lemma demo_snapshot_ok: "snapshot_ok demo_snapshot"
  by code_simp

lemma json_ok_enc_export [simp]: "json_ok (enc_export x)"
  by (rule json_okI) (auto simp: enc_export_def list_all_iff)

lemma dec_enc_export:
  assumes "export_fits x"
  shows "dec_struct dec_export (enc_export x) z = Some x"
proof -
  have "dec_slice (dec_struct dec_user) zero_user (JArr (map enc_user (cx_Users x))) us = Some (cx_Users x)" for us
    using assms by (auto simp: dec_slice_def export_fits_def list_all_iff intro!: dec_list_map dec_enc_user)
  moreover have "dec_struct dec_proxy (enc_proxy (cx_Proxy x)) y = Some (cx_Proxy x)"
    "dec_struct dec_logs (enc_logs (cx_Logs x)) y' = Some (cx_Logs x)" for y y'
    using assms by (simp_all add: export_fits_def proxy_fits_def logs_fit_def)
  moreover have "in_int64 (cx_Version x)" using assms by (simp add: export_fits_def)
  moreover have "dec_struct dec_export (JObj ms) z = dec_export ms z" for ms by (simp add: dec_struct_def)
  ultimately show ?thesis by (simp add: enc_export_def dec_export_def EqualFold_def tag_lower)
qed

lemma Decode_export:
  assumes "export_fits x" "length (Marshal (enc_export x) @ rest) \<le> maxImportBody" "num_end rest"
  shows "Decode maxImportBody (dec_struct dec_export) (Marshal (enc_export x) @ rest) zero_export = Some x"
  by (subst Decode_Marshal [OF json_ok_enc_export assms(3,2)]) (rule dec_enc_export [OF assms(1)])

lemma num_end_newline: "num_end [newline]"
  by code_simp

text \<open>
  C15: a backup can be restored. Importing the body of an export, on the same or another deployment,
  succeeds when the exported configuration passes the checks of an import, fits the size limit, its
  addresses are in use there or can be bound and the save succeeds; the configuration is then the
  exported one, with version 1 and the session key of the importing side.
\<close>

theorem export_import_roundtrip:
  assumes "rq_Body r' = rs_body (fst (apiExport env r p))"
    and "config_fits (cfg_of p)" "length (rq_Body r') \<le> maxImportBody"
    and "importable env' q (export_of (cfg_of p))" "save_succeeds env'"
  shows "rs_status (fst (apiImport env' r' q)) = 200
    \<and> cfg_of (snd (apiImport env' r' q)) = (cfg_of p)\<lparr>c_Version := 1, c_SessionKey := c_SessionKey (cfg_of q)\<rparr>"
proof -
  let ?x = "export_of (cfg_of p)"
  have body: "rq_Body r' = Marshal (enc_export ?x) @ [newline]"
    using assms(1) by (simp add: apiExport_def Let_def writeJSON_def)
  have "export_fits ?x" using assms(2) by (simp add: export_fits_def export_of_def config_fits_parts)
  then have dec: "Decode maxImportBody (dec_struct dec_export) (rq_Body r') zero_export = Some ?x"
    using assms(3) num_end_newline unfolding body by (intro Decode_export)
  have "fst (update_config env' (import_fn ?x) q) = None"
    using update_config_saved [OF assms(5), of "import_fn ?x" q] by (simp add: import_fn_def)
  with apiImport_accepted [OF dec assms(4)] show ?thesis
    by (simp add: update_config_cfg import_fn_def) (simp add: export_of_def)
qed

text \<open>The example's installation after an import, and a request that imports the snapshot.\<close>

definition demo_restored :: Proxy where
  "demo_restored = snd (update_config demo_env (import_fn demo_snapshot) demo_proxy)"

lemma demo_restored_cfg [simp]:
  "cfg_of demo_restored = \<lparr>c_Version = 1, c_SessionKey = ''k'', c_Proxy = cx_Proxy demo_snapshot,
     c_GlobalRules = cx_GlobalRules demo_snapshot, c_Logs = cx_Logs demo_snapshot, c_Users = cx_Users demo_snapshot\<rparr>"
  by (simp add: demo_restored_def update_config_cfg import_fn_def demo_config_def)

lemma demo_export [simp]: "export_of (cfg_of demo_restored) = demo_snapshot"
  by (simp add: export_of_def) (simp add: demo_snapshot_def)

definition demo_import_request :: Request where
  "demo_import_request = demo_request\<lparr>rq_Method := ''POST'', rq_Body := Marshal (enc_export demo_snapshot) @ [newline]\<rparr>"

lemma demo_import_body: "rq_Body demo_import_request = Marshal (enc_export demo_snapshot) @ [newline]"
  by (simp add: demo_import_request_def)

lemma demo_import_size: "length (rq_Body demo_import_request) \<le> maxImportBody"
proof -
  have "length (rq_Body demo_import_request) \<le> 1000" by code_simp
  then show ?thesis by (rule order_trans) (simp add: maxImportBody_def)
qed

lemma demo_importable [simp]: "importable demo_env p demo_snapshot"
  using demo_snapshot_ok by (simp add: importable_def demo_env_def)

lemma demo_import_decodes:
  "Decode maxImportBody (dec_struct dec_export) (rq_Body demo_import_request) zero_export = Some demo_snapshot"
proof -
  have "export_fits demo_snapshot" by code_simp
  then show ?thesis
    using demo_import_size num_end_newline unfolding demo_import_body by (intro Decode_export)
qed

theorem export_import_roundtrip_witness:
  "rs_status (fst (apiImport demo_env demo_import_request demo_proxy)) = 200
   \<and> c_Users (cfg_of (snd (apiImport demo_env demo_import_request demo_proxy))) = [demo_admin]"
proof -
  have "rq_Body demo_import_request = rs_body (fst (apiExport demo_env demo_request demo_restored))"
    unfolding demo_import_body by (simp add: apiExport_def Let_def writeJSON_def del: demo_restored_cfg)
  moreover have "config_fits (cfg_of demo_restored)" by code_simp
  ultimately show ?thesis
    using export_import_roundtrip [of demo_import_request demo_env demo_request demo_restored demo_env demo_proxy] demo_import_size
    by (simp del: demo_restored_cfg) (simp add: demo_snapshot_def)
qed

theorem import_exact_witness:
  "cfg_of (snd (apiImport demo_env demo_import_request demo_proxy)) =
     \<lparr>c_Version = 1, c_SessionKey = ''k'', c_Proxy = cx_Proxy demo_snapshot, c_GlobalRules = cx_GlobalRules demo_snapshot,
      c_Logs = cx_Logs demo_snapshot, c_Users = cx_Users demo_snapshot\<rparr>"
  using import_exact [of demo_env demo_snapshot demo_import_request demo_proxy] by (simp add: demo_import_decodes)

text \<open>
  C39: an import can revive a session that was ended. Whatever the state before, after a successful
  import of a snapshot with an enabled admin, every unexpired token signed by this process that names
  the admin and carries the epoch recorded in the snapshot opens a session of that admin: when the
  snapshot is older than a password change, this holds for the tokens that the change had revoked.
\<close>

theorem import_revives_session:
  assumes "Decode maxImportBody (dec_struct dec_export) (rq_Body r) zero_export = Some x" "importable env p x"
    and "save_succeeds env" "u \<in> set (cx_Users x)" "u_Enabled u" "u_Role u = ''admin''"
    and "verifyToken now (c_SessionKey (cfg_of p)) tok = Some (name, exp, u_TokenEpoch u)" "EqualFold (u_Username u) name"
  shows "token_loop now (p_store (snd (apiImport env r p))) [tok] = Some u"
proof -
  obtain e p1 where up: "update_config env (import_fn x) p = (e, p1)" by fastforce
  then have "e = None" using update_config_saved [OF assms(3), of "import_fn x" p] by (simp add: import_fn_def)
  with up obtain c where c: "import_fn x (cfg_of p) = Inr c" "cfg_of p1 = c" "index_ok (p_store p1)"
    using update_config_done by metis
  have st: "p_store (snd (apiImport env r p)) = p_store p1" using apiImport_accepted(2) [OF assms(1,2)] up by simp
  have cs: "c_Users c = cx_Users x" "c_SessionKey c = c_SessionKey (cfg_of p)" using c(1) by (auto simp: import_fn_def)
  have "config_ok c" using snapshot_config_ok [of x c] assms(2) cs by (simp add: importable_def)
  then have "FindUserByName (p_store p1) name = Some u"
    using FindUserByName_iff [OF c(3)] c(2) cs assms(4,8) by (simp add: config_ok_def users_distinct_def)
  with assms(5-7) c(2) cs show ?thesis by (simp add: st)
qed

text \<open>A token with epoch 3 is refused after a password change, and good again after the import.\<close>

theorem import_revives_session_witness:
  "let p = demo_proxy\<lparr>p_store := demo_store\<lparr>s_cfg := demo_config\<lparr>c_Users := [demo_admin\<lparr>u_TokenEpoch := 4\<rparr>, demo_user]\<rparr>\<rparr>\<rparr>
   in token_loop 0 (p_store p) [demo_token ''root'' 3] = None
    \<and> token_loop 0 (p_store (snd (apiImport demo_env demo_import_request p))) [demo_token ''root'' 3] = Some demo_admin"
proof -
  define p where "p = demo_proxy\<lparr>p_store := demo_store\<lparr>s_cfg := demo_config\<lparr>c_Users := [demo_admin\<lparr>u_TokenEpoch := 4\<rparr>, demo_user]\<rparr>\<rparr>\<rparr>"
  have tok: "verifyToken 0 (c_SessionKey (cfg_of p)) (demo_token ''root'' 3) = Some (''root'', 3600, u_TokenEpoch demo_admin)"
    by (simp add: p_def in_int64_def) (simp add: demo_admin_def)
  have old: "token_loop 0 (p_store p) [demo_token ''root'' 3] = None"
    using FindUserByName_SomeD [of "p_store p" "''root''"]
    by (auto simp: p_def in_int64_def demo_admin_def demo_user_def split: option.splits)
  have "demo_admin \<in> set (cx_Users demo_snapshot)" "u_Enabled demo_admin" "u_Role demo_admin = ''admin''" "EqualFold (u_Username demo_admin) ''root''"
    by (simp_all add: demo_snapshot_def) (simp_all add: demo_admin_def EqualFold_def)
  with import_revives_session [OF demo_import_decodes demo_importable demo_saved(1) _ _ _ tok] old
  show ?thesis unfolding p_def [symmetric] Let_def by blast
qed

end
