(* ===== verification/In_Place.thy ===== *)
theory In_Place
  imports Admin_Settings
begin

text \<open>
  \<open>Store.update\<close> of \<^verbatim>\<open>config.go\<close> as it runs: the function it is given changes the
  configuration in place and may return an error half way; then the snapshot taken before, a JSON
  text, is decoded over the changed configuration. The other theories use an update function that
  returns an error or a new configuration, and an update that leaves the store alone on an error.
  This theory shows that both are the same, for every function that the program passes.

  \<open>json.Unmarshal\<close> reuses the elements of the slice it decodes into, and the unused rest of
  the array behind it, which is an argument here.
\<close>

section \<open>Decoding over an existing configuration\<close>

definition dec_slice_into :: "(json \<Rightarrow> 'a \<Rightarrow> 'a option) \<Rightarrow> 'a list \<Rightarrow> 'a \<Rightarrow> json \<Rightarrow> 'a list \<Rightarrow> 'a list option" where
  "dec_slice_into dec stale z v xs =
     (case v of JArr vs \<Rightarrow> dec_list dec (xs @ stale) z vs | JNull \<Rightarrow> Some [] | _ \<Rightarrow> None)"

definition dec_config_into :: "User list \<Rightarrow> (string \<times> json) list \<Rightarrow> Config \<Rightarrow> Config option" where
  "dec_config_into stale ms x = do {
     a0 \<leftarrow> dec_field ''version'' dec_int ms (c_Version x);
     a1 \<leftarrow> dec_field ''session_key'' dec_string ms (c_SessionKey x);
     a2 \<leftarrow> dec_field ''proxy'' (dec_struct dec_proxy) ms (c_Proxy x);
     a3 \<leftarrow> dec_field ''global_rules'' (dec_struct dec_rules) ms (c_GlobalRules x);
     a4 \<leftarrow> dec_field ''logs'' (dec_struct dec_logs) ms (c_Logs x);
     a5 \<leftarrow> dec_field ''users'' (dec_slice_into (dec_struct dec_user) stale zero_user) ms (c_Users x);
     Some \<lparr>c_Version = a0, c_SessionKey = a1, c_Proxy = a2, c_GlobalRules = a3, c_Logs = a4, c_Users = a5\<rparr>}"

section \<open>Updates in place\<close>

text \<open>
  An update function in place: the error it returns, if any, and what it has made of the
  configuration by then. When the snapshot does not decode, the source logs and goes on; that this
  does not happen is part of what is shown below.
\<close>

type_synonym mutator = "Config \<Rightarrow> error option \<times> Config"

definition update_in_place ::
  "SaveIO \<Rightarrow> User list \<Rightarrow> mutator \<Rightarrow> bool \<Rightarrow> Store \<Rightarrow> Disk \<Rightarrow> error option \<times> Store \<times> Disk \<times> Config option"
where
  "update_in_place io stale fn notify s d =
     (let raw = Marshal (enc_config (s_cfg s)) in
      case fn (s_cfg s) of
        (Some e, c) \<Rightarrow>
          (let c0 = (case Unmarshal (dec_struct (dec_config_into stale)) raw c of None \<Rightarrow> c | Some c0 \<Rightarrow> c0)
           in (Some e, s\<lparr>s_cfg := c0\<rparr>, d, None))
      | (None, c) \<Rightarrow>
         (case saveLocked io d c of
            (Some e, d') \<Rightarrow> (Some e, s\<lparr>s_cfg := c\<rparr>, d', None)
          | (None, d') \<Rightarrow> (None, rebuildIndex (s\<lparr>s_cfg := c\<rparr>), d', if notify then Some c else None)))"

text \<open>The functions of the handlers and of the flush, in place.\<close>

definition user_create_mut :: "User \<Rightarrow> mutator" where
  "user_create_mut u c =
     (if usernameTaken c (u_Username u) [] then (Some ErrDuplicateName, c) else (None, c\<lparr>c_Users := c_Users c @ [u]\<rparr>))"

definition user_update_mut :: "string option \<Rightarrow> userBody \<Rightarrow> string \<Rightarrow> mutator" where
  "user_update_mut salt b i c =
     (case user_pos i (c_Users c) of None \<Rightarrow> (Some (ErrMsg ''user not found''), c)
      | Some k \<Rightarrow>
         let store = (\<lambda>u. c\<lparr>c_Users := (c_Users c)[k := u]\<rparr>);
             u1 = rename_user b (c_Users c ! k) in
         if usernameTaken (store u1) (u_Username u1) i then (Some ErrDuplicateName, store u1)
         else
           let u3 = patch_user b (set_role b u1) in
           (case set_password salt b u3 of
             None \<Rightarrow> (Some (ErrMsg ''entropy source failed''), store u3)
           | Some u4 \<Rightarrow>
              if (u_Role u4 \<noteq> ''admin'' \<or> \<not> u_Enabled u4) \<and> countEnabledAdmins (store u4) i = 0
              then (Some ErrLastAdmin, store u4) else (None, store u4)))"

definition user_delete_mut :: "string \<Rightarrow> mutator" where
  "user_delete_mut i c =
     (case user_pos i (c_Users c) of None \<Rightarrow> (Some (ErrMsg ''user not found''), c)
      | Some k \<Rightarrow>
         let u = c_Users c ! k in
         if u_Role u = ''admin'' \<and> u_Enabled u \<and> countEnabledAdmins c i = 0 then (Some ErrLastAdmin, c)
         else (None, c\<lparr>c_Users := take k (c_Users c) @ drop (Suc k) (c_Users c)\<rparr>))"

definition user_password_mut :: "string \<Rightarrow> string \<Rightarrow> mutator" where
  "user_password_mut hash i c =
     (case user_pos i (c_Users c) of None \<Rightarrow> (Some (ErrMsg ''user not found''), c)
      | Some k \<Rightarrow>
         let u = c_Users c ! k in
         (None, c\<lparr>c_Users := (c_Users c)[k := u\<lparr>u_PasswordHash := hash, u_TokenEpoch := inc_int (u_TokenEpoch u)\<rparr>]\<rparr>))"

definition rules_mut :: "rulesBody \<Rightarrow> mutator" where
  "rules_mut b c = (None, c\<lparr>c_GlobalRules := b\<rparr>)"

definition settings_mut :: "ProxySettings \<Rightarrow> LogSettings \<Rightarrow> mutator" where
  "settings_mut px lg c = (None, c\<lparr>c_Proxy := px, c_Logs := lg\<rparr>)"

definition import_mut :: "configExport \<Rightarrow> mutator" where
  "import_mut x c = (None, c\<lparr>c_Version := 1, c_Proxy := cx_Proxy x, c_GlobalRules := cx_GlobalRules x,
     c_Logs := cx_Logs x, c_Users := cx_Users x\<rparr>)"

definition flush_mut :: "liveStats \<Rightarrow> mutator" where
  "flush_mut l c =
     (None, fold (\<lambda>i c. c\<lparr>c_Users := (c_Users c)[i := flush_user l (c_Users c ! i)]\<rparr>) [0..<length (c_Users c)] c)"

section \<open>The rollback restores\<close>

lemma dec_enc_config_into:
  assumes "config_fits c"
  shows "dec_struct (dec_config_into stale) (enc_config c) z = Some c"
proof -
  have "dec_slice_into (dec_struct dec_user) stale zero_user (JArr (map enc_user (c_Users c))) us = Some (c_Users c)" for us
    using assms by (auto simp: dec_slice_into_def config_fits_def list_all_iff intro!: dec_list_map dec_enc_user)
  moreover have "dec_struct dec_proxy (enc_proxy (c_Proxy c)) y = Some (c_Proxy c)"
    "dec_struct dec_logs (enc_logs (c_Logs c)) y' = Some (c_Logs c)" for y y'
    using assms by (simp_all add: config_fits_def)
  moreover have "in_int64 (c_Version c)" using assms by (simp add: config_fits_def)
  moreover have "dec_struct (dec_config_into stale) (JObj ms) z = dec_config_into stale ms z" for ms
    by (simp add: dec_struct_def)
  ultimately show ?thesis by (simp add: enc_config_def dec_config_into_def EqualFold_def tag_lower)
qed

lemma rollback_restores:
  "config_fits c \<Longrightarrow> Unmarshal (dec_struct (dec_config_into stale)) (Marshal (enc_config c)) c' = Some c"
  by (simp add: Unmarshal_Marshal [OF json_ok_enc_config] dec_enc_config_into)

text \<open>
  The interface between a function in place and the one that the handlers' model uses: the same
  error, or the same configuration. It is all that is needed for the two updates to agree.
\<close>

locale in_place =
  fixes mut :: mutator
    and fn :: "Config \<Rightarrow> error + Config"
  assumes agrees: "fn c = (case mut c of (Some e, _) \<Rightarrow> Inl e | (None, c') \<Rightarrow> Inr c')"
begin

lemma same_update:
  assumes "config_fits (s_cfg s)"
  shows "update_in_place io stale mut notify s d = store_update io fn notify s d"
proof (cases "mut (s_cfg s)")
  case (Pair e c)
  then show ?thesis
    by (cases e) (simp_all add: update_in_place_def store_update_def agrees rollback_restores [OF assms])
qed

end

interpretation create: in_place "user_create_mut u" "user_create_fn u" for u
  by unfold_locales (simp add: user_create_mut_def user_create_fn_def)

interpretation update: in_place "user_update_mut salt b i" "user_update_fn salt b i" for salt b i
  by unfold_locales (simp add: user_update_mut_def user_update_fn_def Let_def split: option.split)

interpretation delete: in_place "user_delete_mut i" "user_delete_fn i" for i
  by unfold_locales (simp add: user_delete_mut_def user_delete_fn_def Let_def split: option.split)

interpretation password: in_place "user_password_mut hash i" "user_password_fn hash i" for hash i
  by unfold_locales (simp add: user_password_mut_def user_password_fn_def Let_def split: option.split)

interpretation rules: in_place "rules_mut b" "rules_fn b" for b
  by unfold_locales (simp add: rules_mut_def rules_fn_def)

interpretation set_settings: in_place "settings_mut px lg" "settings_fn px lg" for px lg
  by unfold_locales (simp add: settings_mut_def settings_fn_def)

interpretation import_snapshot: in_place "import_mut x" "import_fn x" for x
  by unfold_locales (simp add: import_mut_def import_fn_def)

lemma flush_loop:
  assumes "k \<le> length (c_Users c)"
  shows "fold (\<lambda>i c. c\<lparr>c_Users := (c_Users c)[i := f (c_Users c ! i)]\<rparr>) [0..<k] c
    = c\<lparr>c_Users := map f (take k (c_Users c)) @ drop k (c_Users c)\<rparr>"
  using assms
proof (induction k)
  case (Suc k)
  then have k: "k < length (c_Users c)" by simp
  have "(map f (take k (c_Users c)) @ drop k (c_Users c)) [k := f (c_Users c ! k)]
      = map f (take (Suc k) (c_Users c)) @ drop (Suc k) (c_Users c)"
    using k by (simp add: list_update_append Cons_nth_drop_Suc [symmetric] take_Suc_conv_app_nth)
  with Suc k show ?case by (simp add: nth_append)
qed simp

interpretation flush_counters: in_place "flush_mut l" "flush_fn l" for l
  by unfold_locales (simp add: flush_mut_def flush_fn_def flush_loop)

text \<open>
  C26: changes are all or nothing although they are made in place. For every function that a handler
  or the flush passes to \<open>Store.Update\<close>, running it on the live configuration and, on an error, decoding the
  snapshot over what it left behind has the effect of the update that returns an error or a new
  configuration; in particular an update that fails before it is saved leaves the store as it was.
\<close>

theorem update_in_place_refines:
  assumes "config_fits (s_cfg s)"
    and "(mut, fn) \<in> {(user_create_mut u, user_create_fn u), (user_update_mut salt b i, user_update_fn salt b i),
       (user_delete_mut i, user_delete_fn i), (user_password_mut hash i, user_password_fn hash i),
       (rules_mut gr, rules_fn gr), (settings_mut px lg, settings_fn px lg), (import_mut x, import_fn x), (flush_mut l, flush_fn l)}"
  shows "update_in_place io stale mut notify s d = store_update io fn notify s d
    \<and> (\<forall>e c. mut (s_cfg s) = (Some e, c) \<longrightarrow> update_in_place io stale mut notify s d = (Some e, s, d, None))"
proof -
  have same: "update_in_place io stale mut notify s d = store_update io fn notify s d"
    using assms(2) create.same_update [OF assms(1)] update.same_update [OF assms(1)] delete.same_update [OF assms(1)]
      password.same_update [OF assms(1)] rules.same_update [OF assms(1)] set_settings.same_update [OF assms(1)]
      import_snapshot.same_update [OF assms(1)] flush_counters.same_update [OF assms(1)] by auto
  have "fn (s_cfg s) = Inl e" if "mut (s_cfg s) = (Some e, c)" for e c
    using assms(2) that create.agrees update.agrees delete.agrees password.agrees rules.agrees set_settings.agrees
      import_snapshot.agrees flush_counters.agrees by auto
  with same show ?thesis by (auto simp: store_update_def)
qed

text \<open>Demoting the last admin: the role is already changed when the check fails, and changed back.\<close>

theorem update_in_place_refines_witness:
  "let b = zero_body\<lparr>ub_Role := ''user''\<rparr>; d = \<lparr>dk_config = None, dk_bak = None, dk_tmp = None\<rparr>
   in map u_Role (c_Users (snd (user_update_mut None b ''a1'' demo_config))) = [''user'', ''user'']
     \<and> update_in_place demo_save [] (user_update_mut None b ''a1'') True demo_store d = (Some ErrLastAdmin, demo_store, d, None)
     \<and> map u_Role (c_Users (s_cfg demo_store)) = [''admin'', ''user'']"
proof -
  let ?b = "zero_body\<lparr>ub_Role := ''user''\<rparr>" and ?d = "\<lparr>dk_config = None, dk_bak = None, dk_tmp = None\<rparr>"
  have "fst (user_update_mut None ?b ''a1'' demo_config) = Some ErrLastAdmin" by code_simp
  then obtain c where m: "user_update_mut None ?b ''a1'' demo_config = (Some ErrLastAdmin, c)" by (metis prod.collapse)
  have "config_fits demo_config" "s_cfg demo_store = demo_config" by code_simp (simp add: demo_store_def)
  with update_in_place_refines [of demo_store "user_update_mut None ?b ''a1''" "user_update_fn None ?b ''a1''"
      demo_user None ?b "''a1''" "[]" zero_rules zero_proxy zero_logs zero_export newLiveStats demo_save "[]" True ?d, THEN conjunct2] m
  have "update_in_place demo_save [] (user_update_mut None ?b ''a1'') True demo_store ?d = (Some ErrLastAdmin, demo_store, ?d, None)"
    by simp
  moreover have "map u_Role (c_Users (snd (user_update_mut None ?b ''a1'' demo_config))) = [''user'', ''user'']"
    "map u_Role (c_Users (s_cfg demo_store)) = [''admin'', ''user'']" by code_simp+
  ultimately show ?thesis unfolding Let_def by blast
qed

end
