(* ===== verification/Admin.thy ===== *)
theory Admin
  imports Admin_Settings Forward
begin

text \<open>
  The rest of \<^verbatim>\<open>admin.go\<close>: login and logout, the status page, logs, audit trail and
  timeline, the routing of the admin API, the guard against cross-site requests, and the whole admin
  handler.
\<close>

section \<open>Login\<close>

definition sessionTTL :: time where "sessionTTL = 12 * hour"

record loginBody =
  lb_Username :: string
  lb_Password :: string

definition dec_login :: "(string \<times> json) list \<Rightarrow> loginBody \<Rightarrow> loginBody option" where
  "dec_login ms x = do {
     a \<leftarrow> dec_field ''username'' dec_string ms (lb_Username x);
     b \<leftarrow> dec_field ''password'' dec_string ms (lb_Password x);
     Some \<lparr>lb_Username = a, lb_Password = b\<rparr>}"

definition session_cookie :: "bool \<Rightarrow> string \<Rightarrow> Cookie" where
  "session_cookie tls tok = \<lparr>ck_Name = ''fpx_session'', ck_Value = tok, ck_Path = ''/admin'', ck_HttpOnly = True,
     ck_Secure = tls, ck_SameSiteLax = True, ck_MaxAge = go_div sessionTTL second\<rparr>"

definition login_header :: "loginBody \<Rightarrow> string" where
  "login_header b = ''Basic '' @ StdEncode (lb_Username b @ '':'' @ lb_Password b)"

text \<open>\<open>issueToken\<close> cannot fail: it marshals strings and integers.\<close>

definition login_attempt :: "Env \<Rightarrow> Request \<Rightarrow> loginBody \<Rightarrow> Proxy \<Rightarrow> Response \<times> Proxy" where
  "login_attempt env r b p =
     (let clientIP = clientAddr r
      in case checkBasicAuth (e_now env) (login_header b) (p_store p) of
           (None, s) \<Rightarrow>
             let p1 = p\<lparr>p_store := s, p_loginFails := loginFail (e_now env) clientIP (p_loginFails p),
                        p_accountFails := accountFail (e_now env) (lb_Username b) (p_accountFails p)\<rparr>;
                 p2 = equalizeAuthTiming env (lb_Username b) (lb_Password b) p1
             in (writeJSON 401 (jerror ''invalid credentials''),
                 audit_record env ''login.fail'' (lb_Username b) (''client='' @ clientIP) p2)
         | (Some u, s) \<Rightarrow>
             let p1 = p\<lparr>p_store := s\<rparr> in
             if u_Role u \<noteq> ''admin''
             then (writeJSON 403 (jerror ''admin role required to access the management interface''), p1)
             else
               let p2 = p1\<lparr>p_loginFails := loginOK clientIP (p_loginFails p1),
                           p_accountFails := accountOK (lb_Username b) (p_accountFails p1)\<rparr>;
                   tok = issueToken (e_now env) (c_SessionKey (cfg_of p2)) (u_Username u) sessionTTL (u_TokenEpoch u);
                   p3 = audit_record env ''login.ok'' (u_Username u) (''client='' @ clientIP) p2
               in ((writeJSON 200 (JObj [(''ok'', JBool True), (''username'', JStr (u_Username u))]))
                     \<lparr>rs_cookies := [session_cookie (rq_TLS r) tok]\<rparr>, p3))"

definition apiLogin :: "Env \<Rightarrow> Request \<Rightarrow> Proxy \<Rightarrow> Response \<times> Proxy" where
  "apiLogin env r p =
     (if rq_Method r \<noteq> ''POST'' then (writeJSON 405 (jerror ''method not allowed''), p)
      else
        case loginAllowed (e_now env) (clientAddr r) (p_loginFails p) of
          (False, m) \<Rightarrow> (writeJSON 429 (jerror ''too many failed login attempts, try again later''), p\<lparr>p_loginFails := m\<rparr>)
        | (True, m) \<Rightarrow>
            let p1 = p\<lparr>p_loginFails := m\<rparr> in
            (case Decode maxAdminBody (dec_struct dec_login) (rq_Body r) \<lparr>lb_Username = [], lb_Password = []\<rparr> of
               None \<Rightarrow> (writeJSON 400 (jerror ''invalid body''), p1)
             | Some b \<Rightarrow>
                (case accountAllowed (e_now env) (lb_Username b) (p_accountFails p1) of
                   (False, m2) \<Rightarrow>
                     (writeJSON 429 (jerror ''too many failed login attempts for this account, try again later''),
                      p1\<lparr>p_accountFails := m2\<rparr>)
                 | (True, m2) \<Rightarrow> login_attempt env r b (p1\<lparr>p_accountFails := m2\<rparr>))))"

definition apiLogout :: "Env \<Rightarrow> Request \<Rightarrow> Proxy \<Rightarrow> Response \<times> Proxy" where
  "apiLogout env r p =
     (if rq_Method r \<noteq> ''POST'' then (writeJSON 405 (jerror ''method not allowed''), p)
      else ((writeJSON 200 jok)\<lparr>rs_cookies := [\<lparr>ck_Name = ''fpx_session'', ck_Value = [], ck_Path = ''/admin'',
              ck_HttpOnly = False, ck_Secure = False, ck_SameSiteLax = False, ck_MaxAge = - 1\<rparr>]\<rparr>, p))"

definition apiSelf :: "Env \<Rightarrow> Request \<Rightarrow> Proxy \<Rightarrow> Response \<times> Proxy" where
  "apiSelf env r p =
     (let tok = sessionToken r in
      if tok = [] then (writeJSON 401 (jerror ''not authenticated''), p)
      else
        case verifyToken (e_now env) (c_SessionKey (cfg_of p)) tok of
          None \<Rightarrow> (writeJSON 401 (jerror ''session expired''), p)
        | Some (u, exp, epoch) \<Rightarrow>
            if unix (e_now env) \<ge> exp then (writeJSON 401 (jerror ''session expired''), p)
            else
              (case FindUserByName (p_store p) u of
                 None \<Rightarrow> (writeJSON 401 (jerror ''not authenticated''), p)
               | Some user \<Rightarrow>
                   if \<not> u_Enabled user \<or> u_Role user \<noteq> ''admin'' \<or> u_TokenEpoch user \<noteq> epoch
                   then (writeJSON 401 (jerror ''not authenticated''), p)
                   else (writeJSON 200 (JObj [(''role'', JStr (u_Role user)), (''username'', JStr (u_Username user))]), p)))"

section \<open>Status\<close>

record totalsView =
  tv_Requests :: uint64
  tv_BytesIn :: uint64
  tv_BytesOut :: uint64
  tv_ActiveConns :: int
  tv_UserCount :: int

definition enc_totals :: "totalsView \<Rightarrow> json" where
  "enc_totals t = JObj
     [(''requests'', juint (tv_Requests t)), (''bytes_in'', juint (tv_BytesIn t)), (''bytes_out'', juint (tv_BytesOut t)),
      (''active_conns'', jint (tv_ActiveConns t)), (''user_count'', jint (tv_UserCount t))]"

text \<open>One round of the loop over the users, on the totals and the flag for the default password.\<close>

fun status_loop :: "userView list \<Rightarrow> totalsView \<Rightarrow> bool \<Rightarrow> totalsView \<times> bool" where
  "status_loop [] tot defaultAdmin = (tot, defaultAdmin)"
| "status_loop (v # vs) tot defaultAdmin =
     status_loop vs
       (tot\<lparr>tv_Requests := tv_Requests tot + st_Requests (uv_Stats v), tv_BytesIn := tv_BytesIn tot + st_BytesIn (uv_Stats v),
            tv_BytesOut := tv_BytesOut tot + st_BytesOut (uv_Stats v)\<rparr>)
       (defaultAdmin \<or> uv_DefaultPassword v \<and> uv_Role v = ''admin'')"

definition apiStatus :: "Env \<Rightarrow> Request \<Rightarrow> Proxy \<Rightarrow> Response \<times> Proxy" where
  "apiStatus env r p =
     (let cfg = cfg_of p in
      case toViews (c_Users cfg) p of
        (views, p1) \<Rightarrow>
          (case status_loop views \<lparr>tv_Requests = 0, tv_BytesIn = 0, tv_BytesOut = 0, tv_ActiveConns = 0,
                  tv_UserCount = int (length (c_Users cfg))\<rparr> False of
             (tot0, defaultAdmin) \<Rightarrow>
               let tot = tot0\<lparr>tv_ActiveConns := cn_global (p_conns p1)\<rparr> in
               (writeJSON 200 (JObj
                  [(''default_admin_password'', JBool defaultAdmin),
                   (''global_rules'', enc_rules (c_GlobalRules cfg)),
                   (''logs'', enc_logs (c_Logs cfg)),
                   (''proxy'', enc_proxy (c_Proxy cfg)),
                   (''recent_logs'', JArr (map enc_entry (Recent 50 [] [] (p_logs p1)))),
                   (''totals'', enc_totals tot),
                   (''uptime_sec'', jint (go_div (e_now env - p_startedAt p1) second)),
                   (''users'', JArr (map enc_view views)),
                   (''version'', JStr Version)]), p1)))"

section \<open>Logs, audit trail and timeline\<close>

text \<open>
  The number of \<open>n, _ := strconv.Atoi(s)\<close>: on a syntax error 0, on a range error the nearest
  64-bit value.
\<close>

definition atoi_value :: "string \<Rightarrow> int" where
  "atoi_value s =
     (let neg = HasPrefix s ''-'';
          ds = (if neg \<or> HasPrefix s ''+'' then tl s else s);
          v = (if neg then - dec_val 0 ds else dec_val 0 ds)
      in if ds = [] \<or> \<not> list_all is_digit ds then 0 else max (- (2 ^ 63)) (min (2 ^ 63 - 1) v))"

definition apiLogs :: "Env \<Rightarrow> Request \<Rightarrow> Proxy \<Rightarrow> Response \<times> Proxy" where
  "apiLogs env r p =
     (writeJSON 200 (JArr (map enc_entry
        (Recent (atoi_value (query_get r ''limit'')) (query_get r ''user'') (query_get r ''q'') (p_logs p)))), p)"

definition apiLogsClear :: "Env \<Rightarrow> Request \<Rightarrow> Proxy \<Rightarrow> Response \<times> Proxy" where
  "apiLogsClear env r p =
     (let n = Count (p_logs p) in
      (writeJSON 200 jok,
       audit_record env ''logs.clear'' (adminName r) (int_dec (int n) @ '' entries removed'')
         (p\<lparr>p_logs := Clear (e_log env) (p_logs p)\<rparr>)))"

definition apiAudit :: "Env \<Rightarrow> Request \<Rightarrow> Proxy \<Rightarrow> Response \<times> Proxy" where
  "apiAudit env r p =
     (writeJSON 200 (JArr (map enc_audit (audit_Recent (e_audit env) (atoi_value (query_get r ''limit'')) (p_audit p)))), p)"

definition export_limit :: "Request \<Rightarrow> int" where
  "export_limit r = (let limit = atoi_value (query_get r ''limit'') in if limit \<le> 0 \<or> limit > 5000 then 5000 else limit)"

definition apiLogsExport :: "Env \<Rightarrow> Request \<Rightarrow> Proxy \<Rightarrow> Response \<times> Proxy" where
  "apiLogsExport env r p =
     (let entries = Recent (export_limit r) (query_get r ''user'') (query_get r ''q'') (p_logs p) in
      (\<lparr>rs_status = 200,
        rs_header = header_set ''Content-Disposition'' (''attachment; filename='' @ quote ''proxy-activity.csv'')
          (content_type ''text/csv; charset=utf-8''),
        rs_cookies = [], rs_body = CSV entries\<rparr>, p))"

definition enc_point :: "TimelinePoint \<Rightarrow> json" where
  "enc_point t = JObj
     [(''t'', jint (tp_T t)), (''requests'', jint (tp_Requests t)), (''allowed'', jint (tp_Allowed t)),
      (''denied'', jint (tp_Denied t)), (''errors'', jint (tp_Errors t)), (''bytes_in'', juint (tp_BytesIn t)),
      (''bytes_out'', juint (tp_BytesOut t))]"

definition enc_agg :: "UserAgg \<Rightarrow> json" where
  "enc_agg a = JObj
     [(''user'', JStr (ua_User a)), (''requests'', jint (ua_Requests a)), (''bytes_in'', juint (ua_BytesIn a)),
      (''bytes_out'', juint (ua_BytesOut a))]"

definition timeline_hours :: "Request \<Rightarrow> int" where
  "timeline_hours r = (let hours = atoi_value (query_get r ''hours'') in if hours \<le> 0 \<or> hours > 168 then 24 else hours)"

definition timeline_bucket :: "Request \<Rightarrow> int" where
  "timeline_bucket r =
     (let bucket0 = atoi_value (query_get r ''bucket'');
          auto = go_div (timeline_hours r * 3600 + 35) 36;
          bucket1 = (if bucket0 \<le> 0 then (if auto < 60 then 60 else auto) else bucket0);
          bucket2 = (if bucket1 < 10 then 10 else bucket1)
      in if bucket2 > 86400 then 86400 else bucket2)"

definition apiStatsTimeline :: "Env \<Rightarrow> Request \<Rightarrow> Proxy \<Rightarrow> Response \<times> Proxy" where
  "apiStatsTimeline env r p =
     (let hours = timeline_hours r; bucket = timeline_bucket r; since = e_now env - hours * hour
      in case Timeline (e_order env) (e_now env) since bucket (query_get r ''user'') (p_logs p) of
           (points, topUsers) \<Rightarrow>
             (writeJSON 200 (JObj [(''bucket_sec'', jint bucket), (''hours'', jint hours),
                (''points'', JArr (map enc_point points)), (''top_users'', JArr (map enc_agg topUsers))]), p))"

section \<open>Routing\<close>

text \<open>The routes with the handler that \<open>requireAdmin\<close> guards; the others answer at once.\<close>

definition routeUser :: "Env \<Rightarrow> string \<Rightarrow> Request \<Rightarrow> Proxy \<Rightarrow> Response \<times> Proxy" where
  "routeUser env sub r p =
     (let parts = SplitByte (TrimPrefix sub ''users/'') CHR ''/''; m = rq_Method r in
      if parts ! 0 = [] then (writeJSON 404 (jerror ''user id required''), p)
      else if length parts = 1 then
        (if m = ''GET'' then requireAdmin env (apiUserGet env) r p
         else if m = ''PUT'' then requireAdmin env (apiUserUpdate env) r p
         else if m = ''DELETE'' then requireAdmin env (apiUserDelete env) r p
         else (writeJSON 405 (jerror ''method not allowed''), p))
      else if length parts = 2 \<and> parts ! 1 = ''password'' \<and> m = ''POST'' then requireAdmin env (apiUserPassword env) r p
      else if length parts = 2 \<and> parts ! 1 = ''reset'' \<and> m = ''POST'' then requireAdmin env (apiUserReset env) r p
      else (writeJSON 404 (jerror ''not found''), p))"

definition adminAPI :: "Env \<Rightarrow> Request \<Rightarrow> Proxy \<Rightarrow> Response \<times> Proxy" where
  "adminAPI env r p =
     (let sub = TrimPrefix (ul_Path (rq_URL r)) ''/admin/api/''; m = rq_Method r in
      if sub = ''status'' \<and> m = ''GET'' then requireAdmin env (apiStatus env) r p
      else if sub = ''users'' \<and> (m = ''GET'' \<or> m = ''POST'') then requireAdmin env (apiUsers env) r p
      else if HasPrefix sub ''users/'' \<and> sub \<noteq> ''users/'' then routeUser env sub r p
      else if sub = ''global-rules'' \<and> (m = ''GET'' \<or> m = ''PUT'') then requireAdmin env (apiGlobalRules env) r p
      else if sub = ''settings'' \<and> (m = ''GET'' \<or> m = ''PUT'') then requireAdmin env (apiSettings env) r p
      else if sub = ''logs'' \<and> m = ''GET'' then requireAdmin env (apiLogs env) r p
      else if sub = ''logs'' \<and> m = ''DELETE'' then requireAdmin env (apiLogsClear env) r p
      else if sub = ''logs/export'' \<and> m = ''GET'' then requireAdmin env (apiLogsExport env) r p
      else if sub = ''audit'' \<and> m = ''GET'' then requireAdmin env (apiAudit env) r p
      else if sub = ''export'' \<and> m = ''GET'' then requireAdmin env (apiExport env) r p
      else if sub = ''import'' \<and> m = ''POST'' then requireAdmin env (apiImport env) r p
      else if sub = ''stats/timeline'' \<and> m = ''GET'' then requireAdmin env (apiStatsTimeline env) r p
      else (writeJSON 404 (jerror ''not found''), p))"

definition csrfGuard :: "Env \<Rightarrow> (Request \<Rightarrow> Proxy \<Rightarrow> Response \<times> Proxy) \<Rightarrow> Request \<Rightarrow> Proxy \<Rightarrow> Response \<times> Proxy" where
  "csrfGuard env next r p =
     (let origin = header_get (rq_Header r) ''Origin'' in
      if rq_Method r \<notin> {''GET'', ''HEAD'', ''OPTIONS''} \<and> origin \<noteq> []
         \<and> (case e_url_host env origin of None \<Rightarrow> True | Some host \<Rightarrow> \<not> EqualFold host (rq_Host r))
      then (writeJSON 403 (jerror ''cross-origin request rejected''), p)
      else next r p)"

subsection \<open>The multiplexer\<close>

text \<open>
  \<open>http.ServeMux\<close> for the patterns of \<open>AdminHandler\<close>, on paths without percent escapes:
  the longest matching pattern gets the request; a path that is not in canonical form, or that names
  the subtree \<^verbatim>\<open>/admin/api/\<close> without its slash, is redirected. A \<^verbatim>\<open>CONNECT\<close> request's
  path is taken as it is.
\<close>

fun clean_loop :: "string list \<Rightarrow> string list \<Rightarrow> string list" where
  "clean_loop [] out = rev out"
| "clean_loop (s # ss) out =
     (if s = [] \<or> s = ''.'' then clean_loop ss out
      else if s = ''..'' then clean_loop ss (tl out)
      else clean_loop ss (s # out))"

definition cleanPath :: "string \<Rightarrow> string" where
  "cleanPath p =
     (if p = [] then ''/''
      else
        let p1 = (if hd p = CHR ''/'' then p else CHR ''/'' # p);
            np = CHR ''/'' # JoinBy ''/'' (clean_loop (SplitByte (tl p1) CHR ''/'') [])
        in if last p1 = CHR ''/'' \<and> np \<noteq> ''/'' then np @ ''/'' else np)"

definition html_escape :: "string \<Rightarrow> string" where
  "html_escape s = concat (map (\<lambda>c.
     if c = CHR ''&'' then ''&amp;'' else if c = CHR ''<'' then ''&lt;'' else if c = CHR ''>'' then ''&gt;''
     else if byte_of c = 34 then ''&#34;'' else if byte_of c = 39 then ''&#39;'' else [c]) s)"

text \<open>\<open>http.Redirect\<close> to a rooted path with a query, the status text given with the code.\<close>

definition raw_query :: "Request \<Rightarrow> string" where
  "raw_query r = (case IndexByte (ul_RequestURI (rq_URL r)) CHR ''?'' of None \<Rightarrow> [] | Some i \<Rightarrow> drop i (ul_RequestURI (rq_URL r)))"

definition Redirect :: "Request \<Rightarrow> string \<Rightarrow> int \<Rightarrow> string \<Rightarrow> Response" where
  "Redirect r target code text =
     (let m = rq_Method r; html = (m = ''GET'' \<or> m = ''HEAD'');
          h = (if html then content_type ''text/html; charset=utf-8'' else fmempty)
      in \<lparr>rs_status = code, rs_header = header_set ''Location'' target h, rs_cookies = [],
          rs_body = (if m = ''GET'' then ''<a href='' @ [dquote] @ html_escape target @ [dquote] @ ''>'' @ text @ ''</a>.'' @ [newline, newline]
                     else [])\<rparr>)"

definition http_error :: "string \<Rightarrow> int \<Rightarrow> header \<Rightarrow> Response" where
  "http_error msg code h =
     \<lparr>rs_status = code,
      rs_header = header_set ''X-Content-Type-Options'' ''nosniff'' (header_set ''Content-Type'' ''text/plain; charset=utf-8'' h),
      rs_cookies = [], rs_body = msg @ [newline]\<rparr>"

definition admin_page :: "Env \<Rightarrow> Response" where
  "admin_page env =
     (let h = header_set ''Cache-Control'' ''no-store'' (content_type ''text/html; charset=utf-8'') in
      case e_ui env of None \<Rightarrow> http_error ''ui not found'' 500 h
      | Some page \<Rightarrow> \<lparr>rs_status = 200, rs_header = h, rs_cookies = [], rs_body = page\<rparr>)"

definition healthz :: Response where
  "healthz = \<lparr>rs_status = 200, rs_header = fmempty, rs_cookies = [], rs_body = ''ok''\<rparr>"

definition dispatch :: "Env \<Rightarrow> Request \<Rightarrow> string \<Rightarrow> Proxy \<Rightarrow> Response \<times> Proxy" where
  "dispatch env r path p =
     (if path = ''/admin/healthz'' then (healthz, p)
      else if path = ''/admin/api/login'' then apiLogin env r p
      else if path = ''/admin/api/logout'' then apiLogout env r p
      else if path = ''/admin/api/self'' then apiSelf env r p
      else if HasPrefix path ''/admin/api/'' then adminAPI env r p
      else if path = ''/admin'' then (Redirect r ''/admin/'' 302 ''Found'', p)
      else if HasPrefix path ''/admin/'' then (admin_page env, p)
      else (http_error ''404 page not found'' 404 fmempty, p))"

definition admin_mux :: "Env \<Rightarrow> Request \<Rightarrow> Proxy \<Rightarrow> Response \<times> Proxy" where
  "admin_mux env r p =
     (let raw = ul_Path (rq_URL r); path = (if rq_Method r = ''CONNECT'' then raw else cleanPath raw) in
      if ul_RequestURI (rq_URL r) = ''*''
      then (\<lparr>rs_status = 400, rs_header = header_set ''Connection'' ''close'' fmempty, rs_cookies = [], rs_body = []\<rparr>, p)
      else if path = ''/admin/api'' then (Redirect r (cleanPath raw @ ''/'' @ raw_query r) 301 ''Moved Permanently'', p)
      else if path \<noteq> raw then (Redirect r (path @ raw_query r) 301 ''Moved Permanently'', p)
      else dispatch env r path p)"

definition AdminHandler :: "Env \<Rightarrow> Request \<Rightarrow> Proxy \<Rightarrow> Response \<times> Proxy" where
  "AdminHandler env r p = csrfGuard env (admin_mux env) r p"

section \<open>What the handlers do to the configuration\<close>

text \<open>Reading leaves all of it alone; a login changes cached verdicts, rightly.\<close>

lemma gentle_checkBasicAuth:
  "inner p1 = inner p \<Longrightarrow> gentle p (p1\<lparr>p_store := snd (checkBasicAuth now h (p_store p1)), p_loginFails := a, p_accountFails := b\<rparr>)"
  "inner p1 = inner p \<Longrightarrow> gentle p (p1\<lparr>p_store := snd (checkBasicAuth now h (p_store p1))\<rparr>)"
proof -
  assume "inner p1 = inner p"
  then have g: "gentle p p1" by blast
  show "gentle p (p1\<lparr>p_store := snd (checkBasicAuth now h (p_store p1)), p_loginFails := a, p_accountFails := b\<rparr>)"
    "gentle p (p1\<lparr>p_store := snd (checkBasicAuth now h (p_store p1))\<rparr>)"
    by (rule gentle_trans [OF g]; simp add: gentle_def core_defs auth_ok_def checkBasicAuth_auth_ok)+
qed

lemma inner_fails [simp]: "inner (p\<lparr>p_loginFails := a, p_accountFails := b\<rparr>) = inner p"
  by (simp add: inner_def core_defs)

lemmas core_fails [simp] = inner_fails [THEN inner_core]

lemma gentle_equalize: "gentle p q \<Longrightarrow> gentle p (equalizeAuthTiming env name pw q)"
  by (erule gentle_trans) (simp add: gentle_def equalizeAuthTiming_auth_ok)

lemma gentle_audit: "gentle p q \<Longrightarrow> gentle p (audit_record env a w d q)"
  by (erule gentle_trans) auto

lemma gentle_login_attempt: "gentle p (snd (login_attempt env r b p))"
  by (auto simp: login_attempt_def Let_def split_beta option.case_distrib [of snd] split: option.split
      intro!: gentle_checkBasicAuth gentle_equalize gentle_audit)

lemma gentle_apiLogin: "gentle p (snd (apiLogin env r p))"
proof -
  have "gentle p (snd (login_attempt env r b (p\<lparr>p_loginFails := x, p_accountFails := y\<rparr>)))" for b x y
    by (rule gentle_trans [OF _ gentle_login_attempt]) auto
  then show ?thesis by (auto simp: apiLogin_def Let_def split: prod.split bool.split option.split)
qed

lemma core_login_attempt [simp]: "core (snd (login_attempt env r b p)) = core p"
  using gentle_login_attempt [of p env r b] by (simp add: gentle_def)

lemma inner_reads [simp]:
  "inner (snd (apiLogout env r p)) = inner p" "inner (snd (apiSelf env r p)) = inner p"
  "inner (snd (apiStatus env r p)) = inner p" "inner (snd (apiLogs env r p)) = inner p" "inner (snd (apiAudit env r p)) = inner p"
  "inner (snd (apiLogsClear env r p)) = inner p" "inner (snd (apiLogsExport env r p)) = inner p"
  "inner (snd (apiStatsTimeline env r p)) = inner p" "inner (snd (apiExport env r p)) = inner p"
  "inner (snd (apiUserGet env r p)) = inner p" "inner (snd (apiUserReset env r p)) = inner p"
  by (simp_all add: apiLogout_def apiSelf_def apiStatus_def apiLogs_def apiAudit_def apiLogsClear_def apiLogsExport_def
      apiStatsTimeline_def apiExport_def apiUserGet_def apiUserReset_def Let_def split_beta split: option.split)

lemmas core_reads [simp] = inner_reads [THEN inner_core]

lemma inner_gets:
  "rq_Method r = ''GET'' \<Longrightarrow> inner (snd (apiUsers env r p)) = inner p"
  "rq_Method r = ''GET'' \<Longrightarrow> inner (snd (apiGlobalRules env r p)) = inner p"
  "rq_Method r = ''GET'' \<Longrightarrow> inner (snd (apiSettings env r p)) = inner p"
  by (simp_all add: apiUsers_def apiGlobalRules_def apiSettings_def split_beta)

lemmas core_gets = inner_gets [THEN inner_core]

lemmas handler_moves = list_or_create.contract get_user.contract reset_user.contract update_user.contract
  delete_user.contract change_password.contract global_rules.contract settings.contract export.contract restore.contract

text \<open>
  A request is handled by a guarded handler or leaves the configuration alone. A handler that is
  reached by a reading method changes nothing either.
\<close>

definition guarded :: "Env \<Rightarrow> Request \<Rightarrow> (Request \<Rightarrow> Proxy \<Rightarrow> Response \<times> Proxy) \<Rightarrow> bool" where
  "guarded env r h \<longleftrightarrow> (\<forall>r' p. moves env p (snd (h r' p)))
     \<and> (rq_Method r \<in> {''GET'', ''HEAD'', ''OPTIONS''} \<longrightarrow> (\<forall>u p. core (snd (h (as_admin u r) p)) = core p))"

lemma as_admin_method [simp]: "rq_Method (as_admin u r) = rq_Method r"
  by (simp add: as_admin_def)

lemma guarded_reads:
  "guarded env r (apiStatus env)" "guarded env r (apiLogs env)" "guarded env r (apiLogsClear env)"
  "guarded env r (apiLogsExport env)" "guarded env r (apiAudit env)" "guarded env r (apiExport env)"
  "guarded env r (apiStatsTimeline env)" "guarded env r (apiUserGet env)" "guarded env r (apiUserReset env)"
  by (auto simp: guarded_def)

lemma guarded_writes:
  "rq_Method r \<in> {''PUT'', ''POST'', ''DELETE''} \<Longrightarrow> guarded env r (apiUserUpdate env)"
  "rq_Method r \<in> {''PUT'', ''POST'', ''DELETE''} \<Longrightarrow> guarded env r (apiUserDelete env)"
  "rq_Method r \<in> {''PUT'', ''POST'', ''DELETE''} \<Longrightarrow> guarded env r (apiUserPassword env)"
  "rq_Method r \<in> {''PUT'', ''POST'', ''DELETE''} \<Longrightarrow> guarded env r (apiImport env)"
  by (auto simp: guarded_def handler_moves)

lemma guarded_both:
  assumes "rq_Method r \<in> {''GET'', ''PUT'', ''POST'', ''DELETE''}"
  shows "guarded env r (apiUsers env)" "guarded env r (apiGlobalRules env)" "guarded env r (apiSettings env)"
  using assms by (auto simp: guarded_def handler_moves core_gets)

definition served :: "Env \<Rightarrow> Request \<Rightarrow> Proxy \<Rightarrow> Response \<times> Proxy \<Rightarrow> bool" where
  "served env r p res \<longleftrightarrow> gentle p (snd res) \<or> (\<exists>h. guarded env r h \<and> res = requireAdmin env h r p)"

lemma servedI [intro]: "gentle p (snd res) \<Longrightarrow> served env r p res" "guarded env r h \<Longrightarrow> served env r p (requireAdmin env h r p)"
  by (auto simp: served_def)

lemma served_if: "(b \<Longrightarrow> served env r p x) \<Longrightarrow> (\<not> b \<Longrightarrow> served env r p y) \<Longrightarrow> served env r p (if b then x else y)"
  by simp

lemma served_answer [simp]: "served env r p (resp, p)"
  by (auto simp: served_def)

lemma routeUser_served: "served env r p (routeUser env sub r p)"
  unfolding routeUser_def Let_def
  by (intro served_if servedI(2) guarded_reads guarded_writes served_answer) simp_all

lemma adminAPI_served: "served env r p (adminAPI env r p)"
  unfolding adminAPI_def Let_def
  by (intro served_if routeUser_served servedI(2) guarded_reads guarded_both served_answer guarded_writes(4); simp; elim conjE disjE; simp)

lemma dispatch_served: "served env r p (dispatch env r path p)"
  unfolding dispatch_def by (intro served_if adminAPI_served served_answer servedI(1) gentle_apiLogin gentle_inner; simp)

definition same_origin :: "Env \<Rightarrow> Request \<Rightarrow> bool" where
  "same_origin env r \<longleftrightarrow> (let origin = header_get (rq_Header r) ''Origin'' in
     origin = [] \<or> (\<exists>host. e_url_host env origin = Some host \<and> EqualFold host (rq_Host r)))"

lemma AdminHandler_served:
  "served env r p (AdminHandler env r p)"
  "\<not> same_origin env r \<Longrightarrow> rq_Method r \<notin> {''GET'', ''HEAD'', ''OPTIONS''} \<Longrightarrow>
     AdminHandler env r p = (writeJSON 403 (jerror ''cross-origin request rejected''), p)"
proof -
  have "served env r p (admin_mux env r p)"
    unfolding admin_mux_def Let_def by (intro served_if dispatch_served served_answer)
  then show "served env r p (AdminHandler env r p)"
    unfolding AdminHandler_def csrfGuard_def Let_def by (intro served_if served_answer)
  show "AdminHandler env r p = (writeJSON 403 (jerror ''cross-origin request rejected''), p)"
    if "\<not> same_origin env r" "rq_Method r \<notin> {''GET'', ''HEAD'', ''OPTIONS''}"
    using that unfolding AdminHandler_def csrfGuard_def Let_def same_origin_def
    by (cases "e_url_host env (header_get (rq_Header r) ''Origin'')") simp_all
qed

lemma AdminHandler_moves: "moves env p (snd (AdminHandler env r p))"
  using AdminHandler_served(1) [of env r p] requireAdmin_moves [of env _ r p] by (auto simp: served_def guarded_def intro: moves_gentle)

interpretation admin_port: admin_handler AdminHandler
  by unfold_locales (rule AdminHandler_moves)

lemma requireAdmin_passed:
  assumes "auth_ok p" "core (snd (requireAdmin env h r p)) \<noteq> core p"
  obtains u p' where "admin_credential (e_now env) r (p_store p) u" "core p' = core p"
    "requireAdmin env h r p = h (as_admin u r) p'"
proof -
  have thr: "\<not> admin_throttled (e_now env) r p" using assms(2) by (auto simp: requireAdmin_throttled)
  obtain u where u: "fst (validAdminFromRequest (e_now env) r (p_store p)) = Some u"
    using assms(2) by (cases "fst (validAdminFromRequest (e_now env) r (p_store p))") (auto simp: requireAdmin_admitted [OF thr] core_checked)
  have "admin_credential (e_now env) r (p_store p) u"
    using assms(1) u validAdminFromRequest_sound by (simp add: auth_ok_def)
  with that [of u "admin_accepted r u (checked env r p)"] show thesis
    by (simp add: requireAdmin_admitted [OF thr] u core_checked)
qed

section \<open>Properties of the admin interface\<close>

text \<open>
  C4: only an admin changes the configuration, and not from another site. When a request to the
  admin port changes the configuration, the rules in force, the indexes or the configuration file,
  the request carries the present session token or the password of an enabled admin, its method is
  none of \<^verbatim>\<open>GET\<close>, \<^verbatim>\<open>HEAD\<close> and \<^verbatim>\<open>OPTIONS\<close>, and its \<^verbatim>\<open>Origin\<close>, if it has one, is
  the host it was sent to. (The state is one in which the password cache agrees with the configuration.)
\<close>

theorem only_admins_change_config:
  assumes "auth_ok p" "core (snd (AdminHandler env r p)) \<noteq> core p"
  shows "(\<exists>u. admin_credential (e_now env) r (p_store p) u)
    \<and> rq_Method r \<notin> {''GET'', ''HEAD'', ''OPTIONS''} \<and> same_origin env r"
proof -
  obtain h where h: "guarded env r h" "AdminHandler env r p = requireAdmin env h r p"
    using AdminHandler_served(1) [of env r p] assms(2) by (auto simp: served_def gentle_def)
  obtain u p' where u: "admin_credential (e_now env) r (p_store p) u" "core p' = core p"
    "requireAdmin env h r p = h (as_admin u r) p'"
    using requireAdmin_passed [OF assms(1), of env h r] assms(2) h(2) by auto
  have m: "rq_Method r \<notin> {''GET'', ''HEAD'', ''OPTIONS''}"
    using h u assms(2) unfolding guarded_def by metis
  moreover have "same_origin env r" using AdminHandler_served(2) [OF _ m, of env p] assms(2) by (metis snd_conv)
  ultimately show ?thesis using u(1) by blast
qed

text \<open>The example's admin imports the snapshot, with a session cookie.\<close>

definition demo_admin_import :: Request where
  "demo_admin_import = demo_import_request\<lparr>rq_URL := (rq_URL demo_request)\<lparr>ul_Path := ''/admin/api/import''\<rparr>,
     rq_Cookies := [(''fpx_session'', demo_token ''root'' 3)]\<rparr>"

lemma demo_admin_import_sel:
  "rq_Method demo_admin_import = ''POST''" "rq_URL demo_admin_import = (rq_URL demo_request)\<lparr>ul_Path := ''/admin/api/import''\<rparr>"
  "header_get (rq_Header demo_admin_import) k = []" "rq_Body (as_admin u demo_admin_import) = rq_Body demo_import_request"
  "sessionTokens demo_admin_import = [demo_token ''root'' 3]"
proof -
  show h: "header_get (rq_Header demo_admin_import) k = []" for k
    by (simp add: demo_admin_import_def demo_import_request_def demo_request_def header_get_def)
  show "sessionTokens demo_admin_import = [demo_token ''root'' 3]"
    by (simp add: sessionTokens_def h HasPrefix_def cookie_def Let_def) (simp add: demo_admin_import_def)
qed (simp_all add: demo_admin_import_def demo_import_request_def as_admin_def)

lemma demo_admin_import_routed:
  "AdminHandler demo_env demo_admin_import demo_proxy = requireAdmin demo_env (apiImport demo_env) demo_admin_import demo_proxy"
proof -
  have "cleanPath ''/admin/api/import'' = ''/admin/api/import''" "TrimPrefix ''/admin/api/import'' ''/admin/api/'' = ''import''"
    "HasPrefix ''/admin/api/import'' ''/admin/api/''" "\<not> HasPrefix ''import'' ''users/''" by code_simp+
  then show ?thesis
    unfolding AdminHandler_def csrfGuard_def admin_mux_def dispatch_def adminAPI_def Let_def
    by (simp add: demo_admin_import_sel) (simp add: demo_request_def)
qed

lemma demo_admin_import_done:
  "cfg_of (snd (AdminHandler demo_env demo_admin_import demo_proxy)) = cfg_of demo_restored"
proof -
  have nt: "\<not> admin_throttled (e_now demo_env) demo_admin_import demo_proxy"
    by (simp add: admin_throttled_def isBasicAuth_def demo_admin_import_sel HasPrefix_def)
  have "FindUserByName demo_store ''root'' = Some demo_admin"
    using FindUserByName_iff [of demo_store "''root''" demo_admin] demo_distinct
    by (simp add: users_distinct_def) (simp add: demo_admin_def EqualFold_def)
  moreover have "u_Enabled demo_admin" "u_Role demo_admin = ''admin''" "u_TokenEpoch demo_admin = 3" by (simp_all add: demo_admin_def)
  ultimately have "fst (validAdminFromRequest (e_now demo_env) demo_admin_import (p_store demo_proxy)) = Some demo_admin"
    by (simp add: validAdminFromRequest_def demo_admin_import_sel in_int64_def)
  then show ?thesis
    unfolding demo_admin_import_routed requireAdmin_admitted [OF nt]
    by (simp add: apiImport_accepted(2) [where x = demo_snapshot] demo_admin_import_sel demo_import_decodes update_config_cfg
        checked_keeps import_fn_def del: demo_restored_cfg) (simp add: demo_config_def)
qed

theorem only_admins_change_config_witness:
  "\<exists>u. is_admin demo_config u \<and> cfg_of (snd (AdminHandler demo_env demo_admin_import demo_proxy)) \<noteq> demo_config"
proof -
  have c: "cfg_of (snd (AdminHandler demo_env demo_admin_import demo_proxy)) \<noteq> demo_config"
    unfolding demo_admin_import_done by (simp add: demo_config_def zero_config_def)
  then have "core (snd (AdminHandler demo_env demo_admin_import demo_proxy)) \<noteq> core demo_proxy" by (auto simp: core_defs)
  from only_admins_change_config [OF demo_auth_ok(1) this] c show ?thesis by (auto simp: admin_credential_def)
qed

section \<open>Properties of login and timeline\<close>

lemma IndexByte_first: "c \<notin> set s \<Longrightarrow> IndexByte (s @ c # t) c = Some (length s)"
  by (induction s) auto

lemma basic_cred_login:
  assumes "CHR '':'' \<notin> set n"
  shows "basic_cred (login_header \<lparr>lb_Username = n, lb_Password = pw\<rparr>) = Some (n, pw)"
  using assms IndexByte_first [OF assms, of pw] by (simp add: basic_cred_def login_header_def HasPrefix_def TrimPrefix_def)

lemma presents_login:
  assumes "lb_Username b @ '':'' @ lb_Password b = n @ '':'' @ pw" "CHR '':'' \<notin> set n"
  shows "presents_password (login_header b) u \<longleftrightarrow> EqualFold (u_Username u) n \<and> VerifyPassword (u_PasswordHash u) pw"
proof -
  have "login_header b = login_header \<lparr>lb_Username = n, lb_Password = pw\<rparr>" using assms(1) by (simp add: login_header_def)
  then show ?thesis using basic_cred_login [OF assms(2), of pw] by (simp add: presents_password_def)
qed

lemma login_attempt_wrong:
  "fst (checkBasicAuth (e_now env) (login_header b) (p_store p)) = None \<Longrightarrow>
     rs_status (fst (login_attempt env r b p)) = 401 \<and> rs_cookies (fst (login_attempt env r b p)) = []"
  by (simp add: login_attempt_def Let_def split_beta writeJSON_def)

lemma login_attempt_other:
  "fst (checkBasicAuth (e_now env) (login_header b) (p_store p)) = Some u \<Longrightarrow> u_Role u \<noteq> ''admin'' \<Longrightarrow>
     rs_status (fst (login_attempt env r b p)) = 403 \<and> rs_cookies (fst (login_attempt env r b p)) = []"
  by (simp add: login_attempt_def Let_def split_beta writeJSON_def)

lemma login_attempt_admin:
  "fst (checkBasicAuth (e_now env) (login_header b) (p_store p)) = Some u \<Longrightarrow> u_Role u = ''admin'' \<Longrightarrow>
     rs_status (fst (login_attempt env r b p)) = 200 \<and> rs_cookies (fst (login_attempt env r b p)) =
       [session_cookie (rq_TLS r) (issueToken (e_now env) (c_SessionKey (cfg_of p)) (u_Username u) sessionTTL (u_TokenEpoch u))]"
  by (simp add: login_attempt_def Let_def split_beta writeJSON_def)

text \<open>What the stored names and epochs must be for a token to carry them.\<close>

definition tokens_fit :: "time \<Rightarrow> Config \<Rightarrow> bool" where
  "tokens_fit now c \<longleftrightarrow> in_int64 (unix (now + sessionTTL)) \<and> list_all (\<lambda>u. u_Username u \<noteq> [] \<and> in_int64 (u_TokenEpoch u)) (c_Users c)"

lemma issued_token_accepted:
  assumes "index_ok s" "users_distinct (s_cfg s)" "is_admin (s_cfg s) u" "tokens_fit now (s_cfg s)"
    and "unix t \<le> unix (now + sessionTTL)"
  shows "token_loop t s [issueToken now (c_SessionKey (s_cfg s)) (u_Username u) sessionTTL (u_TokenEpoch u)] = Some u"
proof -
  have u: "u \<in> set (c_Users (s_cfg s))" "u_Enabled u" "u_Role u = ''admin''" using assms(3) by (simp_all add: is_admin_def)
  then have "u_Username u \<noteq> []" "in_int64 (u_TokenEpoch u)" using assms(4) by (auto simp: tokens_fit_def list_all_iff)
  moreover have "FindUserByName s (u_Username u) = Some u"
    using FindUserByName_iff [OF assms(1)] assms(2) u(1) by (simp add: users_distinct_def EqualFold_def)
  ultimately show ?thesis
    using u assms(4,5) by (simp add: tokens_fit_def verifyToken_issueToken)
qed

lemma apiLogin_attempt:
  assumes "rq_Method r = ''POST''" "fst (loginAllowed (e_now env) (clientAddr r) (p_loginFails p))"
    and "Decode maxAdminBody (dec_struct dec_login) (rq_Body r) \<lparr>lb_Username = [], lb_Password = []\<rparr> = Some b"
    and "fst (accountAllowed (e_now env) (lb_Username b) (p_accountFails p))"
  shows "\<exists>m m2. apiLogin env r p = login_attempt env r b (p\<lparr>p_loginFails := m, p_accountFails := m2\<rparr>)"
  using assms by (auto simp: apiLogin_def Let_def split: prod.split bool.split)

text \<open>
  C10: login admits exactly the admins, and opens a session that works. Take a \<^verbatim>\<open>POST\<close> that no
  limiter refuses, with names unique, and let \<open>n\<close> and \<open>pw\<close> be what stands before and after
  the first colon of the name sent, a colon and the password sent: the name and the password themselves, if
  the name has no colon. The answer is 200 if there is an enabled admin whose name is \<open>n\<close>, up to case, and whose
  password is \<open>pw\<close>, 403 if they are those of another enabled user, 401 otherwise; only the first
  sets a cookie, and its token is accepted as that admin's session until it expires 12 hours later.
  (The state is one in which the indexes and caches agree with the configuration, and names and epochs fit
  a token.)
\<close>

theorem login_exact:
  assumes "rq_Method r = ''POST''" "fst (loginAllowed (e_now env) (clientAddr r) (p_loginFails p))"
    and "Decode maxAdminBody (dec_struct dec_login) (rq_Body r) \<lparr>lb_Username = [], lb_Password = []\<rparr> = Some b"
    and "fst (accountAllowed (e_now env) (lb_Username b) (p_accountFails p))"
    and "auth_ok p" "index_ok (p_store p)" "users_distinct (cfg_of p)" "tokens_fit (e_now env) (cfg_of p)"
    and "lb_Username b @ '':'' @ lb_Password b = n @ '':'' @ pw" "CHR '':'' \<notin> set n"
  shows "case find (\<lambda>u. u_Enabled u \<and> EqualFold (u_Username u) n \<and> VerifyPassword (u_PasswordHash u) pw) (c_Users (cfg_of p)) of
      None \<Rightarrow> rs_status (fst (apiLogin env r p)) = 401 \<and> rs_cookies (fst (apiLogin env r p)) = []
    | Some u \<Rightarrow>
       if u_Role u = ''admin''
       then rs_status (fst (apiLogin env r p)) = 200
         \<and> (\<exists>tok. rs_cookies (fst (apiLogin env r p)) = [session_cookie (rq_TLS r) tok]
             \<and> (\<forall>t. unix t \<le> unix (e_now env) + 43200 \<longrightarrow> token_loop t (p_store (snd (apiLogin env r p))) [tok] = Some u))
       else rs_status (fst (apiLogin env r p)) = 403 \<and> rs_cookies (fst (apiLogin env r p)) = []"
proof -
  obtain m m2 where run: "apiLogin env r p = login_attempt env r b (p\<lparr>p_loginFails := m, p_accountFails := m2\<rparr>)"
    using apiLogin_attempt [OF assms(1-4)] by blast
  let ?p = "p\<lparr>p_loginFails := m, p_accountFails := m2\<rparr>"
  let ?f = "find (\<lambda>u. u_Enabled u \<and> EqualFold (u_Username u) n \<and> VerifyPassword (u_PasswordHash u) pw) (c_Users (cfg_of p))"
  note ok = assms(5) [unfolded auth_ok_def, THEN conjunct1]
  have f: "fst (checkBasicAuth (e_now env) (login_header b) (p_store p)) = ?f"
    using checkBasicAuth_find [OF ok assms(6,7)] by (simp add: presents_login [OF assms(9,10)])
  have c: "core (snd (login_attempt env r b ?p)) = core p" by simp
  then have st: "index_ok (p_store (snd (login_attempt env r b ?p)))" "cfg_of (snd (login_attempt env r b ?p)) = cfg_of p"
    using assms(6) by (simp_all add: core_defs index_ok_def)
  have ttl: "unix (e_now env + sessionTTL) = unix (e_now env) + 43200"
    by (simp add: unix_def sessionTTL_def hour_def minute_def second_def)
  show ?thesis
  proof (cases ?f)
    case None
    with login_attempt_wrong [of env b ?p r] f show ?thesis unfolding run by simp
  next
    case (Some u)
    then have u: "u \<in> set (c_Users (cfg_of p))" "u_Enabled u" by (auto simp: find_Some_iff)
    show ?thesis
    proof (cases "u_Role u = ''admin''")
      case True
      with u have "is_admin (cfg_of p) u" by (simp add: is_admin_def)
      with issued_token_accepted [OF st(1), of u "e_now env"] assms(7,8) st(2) ttl
      have "token_loop t (p_store (snd (login_attempt env r b ?p)))
          [issueToken (e_now env) (c_SessionKey (cfg_of p)) (u_Username u) sessionTTL (u_TokenEpoch u)] = Some u"
        if "unix t \<le> unix (e_now env) + 43200" for t using that by simp
      with login_attempt_admin [of env b ?p u r] f Some True show ?thesis
        unfolding run by (auto simp del: token_loop.simps)
    qed (use login_attempt_other [of env b ?p u r] f Some in \<open>simp add: run\<close>)
  qed
qed

definition demo_login_request :: Request where
  "demo_login_request = demo_request\<lparr>rq_Method := ''POST'',
     rq_Body := Marshal (JObj [(''username'', JStr ''root''), (''password'', JStr ''x'')])\<rparr>"

lemma demo_login_body:
  "Decode maxAdminBody (dec_struct dec_login) (rq_Body demo_login_request) \<lparr>lb_Username = [], lb_Password = []\<rparr>
   = Some \<lparr>lb_Username = ''root'', lb_Password = ''x''\<rparr>"
proof -
  let ?v = "JObj [(''username'', JStr ''root''), (''password'', JStr ''x'')]"
  have "length (Marshal ?v @ []) \<le> 100" by code_simp
  then have "length (Marshal ?v @ []) \<le> maxAdminBody" by (rule order_trans) (simp add: maxAdminBody_def)
  moreover have "dec_struct dec_login ?v \<lparr>lb_Username = [], lb_Password = []\<rparr> = Some \<lparr>lb_Username = ''root'', lb_Password = ''x''\<rparr>"
    by code_simp
  moreover have "json_ok ?v" by (rule json_okI) simp_all
  ultimately show ?thesis
    using Decode_Marshal [of ?v "[]" maxAdminBody "dec_struct dec_login"] by (simp add: demo_login_request_def num_end_def)
qed

theorem login_exact_witness:
  "rs_status (fst (apiLogin demo_env demo_login_request demo_proxy)) = 200
   \<and> (\<exists>tok. rs_cookies (fst (apiLogin demo_env demo_login_request demo_proxy)) = [session_cookie False tok])"
proof -
  let ?b = "\<lparr>lb_Username = ''root'', lb_Password = ''x''\<rparr>"
  have "EqualFold (u_Username demo_admin) ''root''" "VerifyPassword (u_PasswordHash demo_admin) ''x''" "u_Enabled demo_admin"
    using demo_hash_verifies [of "''x''"] by (simp_all add: demo_admin_def EqualFold_def)
  then have f: "find (\<lambda>u. u_Enabled u \<and> EqualFold (u_Username u) ''root'' \<and> VerifyPassword (u_PasswordHash u) ''x'')
      (c_Users demo_config) = Some demo_admin" by simp
  have "rq_Method demo_login_request = ''POST''" "rq_TLS demo_login_request = False" "u_Role demo_admin = ''admin''"
    by (simp_all add: demo_login_request_def demo_request_def demo_admin_def)
  moreover have "tokens_fit 0 demo_config"
    by (simp add: tokens_fit_def in_int64_def unix_def sessionTTL_def hour_def minute_def second_def) (simp add: demo_admin_def demo_user_def zero_user_def)
  ultimately show ?thesis
    using login_exact [OF _ _ demo_login_body, of demo_env demo_proxy "''root''" "''x''"] f
    by (auto simp: loginAllowed_def accountAllowed_def simp del: token_loop.simps)
qed

text \<open>
  The account limiter of the login looks at another name than the check. When the user name sent
  contains a colon, the credentials checked are those of the part before it, with the rest of the name
  as the start of the password; a failure is counted under the name as sent and leaves the count of the
  account under attack as it was.
\<close>

theorem login_colon_shifts_account:
  assumes "CHR '':'' \<notin> set n"
  shows "basic_cred (login_header \<lparr>lb_Username = n @ '':'' @ x, lb_Password = y\<rparr>) = Some (n, x @ '':'' @ y)
    \<and> fmlookup (accountFail now (n @ '':'' @ x) m) (ToLower n) = fmlookup m (ToLower n)
    \<and> (fmlookup m (ToLower (n @ '':'' @ x)) = None \<longrightarrow> fst (accountAllowed now (n @ '':'' @ x) m))"
proof -
  have "length (ToLower (n @ '':'' @ x)) \<noteq> length (ToLower n)" by (simp add: ToLower_def)
  then have "ToLower (n @ '':'' @ x) \<noteq> ToLower n" by metis
  moreover have "login_header \<lparr>lb_Username = n @ '':'' @ x, lb_Password = y\<rparr> = login_header \<lparr>lb_Username = n, lb_Password = x @ '':'' @ y\<rparr>"
    by (simp add: login_header_def)
  ultimately show ?thesis
    using basic_cred_login [OF assms, of "x @ '':'' @ y"] by (simp add: accountFail_def accountAllowed_def Let_def)
qed

theorem login_colon_shifts_account_witness:
  "basic_cred (login_header \<lparr>lb_Username = ''root:a'', lb_Password = ''b''\<rparr>) = Some (''root'', ''a:b'')"
  using login_colon_shifts_account [of "''root''" "''a''" "''b''" 0 fmempty] by simp

text \<open>
  Login requests handled one after another, with ticks of \<open>FlushStats\<close> (a pair without a
  request) in between: the account each names, in lower case, and the status of its answer.
\<close>

definition login_name :: "Request \<Rightarrow> string option" where
  "login_name r = map_option (\<lambda>b. ToLower (lb_Username b))
     (Decode maxAdminBody (dec_struct dec_login) (rq_Body r) \<lparr>lb_Username = [], lb_Password = []\<rparr>)"

fun login_run :: "(Env \<times> Request option) list \<Rightarrow> Proxy \<Rightarrow> (string option \<times> int) list" where
  "login_run [] p = []"
| "login_run ((env, None) # es) p = login_run es (FlushStats env p)"
| "login_run ((env, Some r) # es) p =
     (login_name r, rs_status (fst (apiLogin env r p))) # login_run es (snd (apiLogin env r p))"

abbreviation account_budget :: "time \<Rightarrow> string \<Rightarrow> Proxy \<Rightarrow> int" where
  "account_budget a j p \<equiv> account.budget a (fmlookup (p_accountFails p) j)"

lemma account_map_ok: "login_fails_ok m \<Longrightarrow> \<forall>j f. fmlookup m j = Some f \<longrightarrow> entry_ok loginMaxFails loginLockoutTime f"
  by (simp add: fails_ok_iff loginMaxFails_def loginLockoutTime_def)

lemma audit_record_accounts [simp]: "p_accountFails (audit_record env a w d p) = p_accountFails p"
  by (simp add: audit_record_def)

text \<open>What a login does to the account limiter, and when its answer is 401 or 200.\<close>

lemma apiLogin_accounts:
  obtains "p_accountFails (snd (apiLogin env r p)) = p_accountFails p" "rs_status (fst (apiLogin env r p)) \<notin> {200, 401}"
  | b m where "Decode maxAdminBody (dec_struct dec_login) (rq_Body r) \<lparr>lb_Username = [], lb_Password = []\<rparr> = Some b"
      "m = snd (accountAllowed (e_now env) (lb_Username b) (p_accountFails p))"
      "p_accountFails (snd (apiLogin env r p)) = m" "rs_status (fst (apiLogin env r p)) \<notin> {200, 401}"
  | b m where "Decode maxAdminBody (dec_struct dec_login) (rq_Body r) \<lparr>lb_Username = [], lb_Password = []\<rparr> = Some b"
      "m = snd (accountAllowed (e_now env) (lb_Username b) (p_accountFails p))"
      "fst (accountAllowed (e_now env) (lb_Username b) (p_accountFails p))"
      "p_accountFails (snd (apiLogin env r p)) = accountFail (e_now env) (lb_Username b) m" "rs_status (fst (apiLogin env r p)) = 401"
  | b m where "Decode maxAdminBody (dec_struct dec_login) (rq_Body r) \<lparr>lb_Username = [], lb_Password = []\<rparr> = Some b"
      "m = snd (accountAllowed (e_now env) (lb_Username b) (p_accountFails p))"
      "p_accountFails (snd (apiLogin env r p)) = accountOK (lb_Username b) m" "rs_status (fst (apiLogin env r p)) = 200"
proof -
  let ?D = "Decode maxAdminBody (dec_struct dec_login) (rq_Body r) \<lparr>lb_Username = [], lb_Password = []\<rparr>"
  let ?q = "p\<lparr>p_loginFails := snd (loginAllowed (e_now env) (clientAddr r) (p_loginFails p))\<rparr>"
  show thesis
  proof (cases "rq_Method r = ''POST'' \<and> fst (loginAllowed (e_now env) (clientAddr r) (p_loginFails p)) \<and> ?D \<noteq> None")
    case False
    then show thesis
      by (intro that(1)) (auto simp: apiLogin_def writeJSON_def Let_def split: prod.split bool.split option.split)
  next
    case True
    then obtain b where b: "?D = Some b" by auto
    let ?A = "accountAllowed (e_now env) (lb_Username b) (p_accountFails p)"
    let ?p = "?q\<lparr>p_accountFails := snd ?A\<rparr>"
    show thesis
    proof (cases "fst ?A")
      case no: False
      then show thesis using True b by (intro that(2) [OF b refl]) (auto simp: apiLogin_def writeJSON_def Let_def split: prod.split bool.split)
    next
      case yes: True
      have run: "apiLogin env r p = login_attempt env r b ?p"
        using True yes b by (auto simp: apiLogin_def Let_def split: prod.split bool.split)
      show thesis
      proof (cases "fst (checkBasicAuth (e_now env) (login_header b) (p_store p))")
        case None
        then show thesis by (intro that(3) [OF b refl yes]) (simp_all add: run login_attempt_def writeJSON_def Let_def split_beta)
      next
        case (Some u)
        then show thesis
          by (cases "u_Role u = ''admin''"; intro that(2) [OF b refl] that(4) [OF b refl])
            (simp_all add: run login_attempt_def writeJSON_def Let_def split_beta)
      qed
    qed
  qed
qed

lemma login_spends:
  assumes ok: "login_fails_ok (p_accountFails p)" and t: "a \<le> e_now env" "e_now env < a + loginLockoutTime" and j: "j \<noteq> []"
    and ns: "\<not> (login_name r = Some j \<and> rs_status (fst (apiLogin env r p)) = 200)"
  shows "(if login_name r = Some j \<and> rs_status (fst (apiLogin env r p)) = 401 then 1 else 0)
      + account_budget a j (snd (apiLogin env r p)) \<le> account_budget a j p
    \<and> login_fails_ok (p_accountFails (snd (apiLogin env r p)))"
proof -
  note inv = accountFails_invariant [OF ok] accountFails_invariant [OF accountFails_invariant(1) [OF ok]]
  note m = account_map_ok [OF ok]
  have e: "accountAllowed now [] q = (True, q)" "accountFail now [] q = q" "accountOK [] q = q" for now q
    by (simp_all add: accountAllowed_def accountFail_def accountOK_def)
  have l: "ToLower [] \<noteq> j" using j by (simp add: ToLower_def)
  show ?thesis
  proof (cases rule: apiLogin_accounts [of env r p])
    case 1
    then show ?thesis using ok by simp
  next
    case (2 b m')
    then show ?thesis using inv(1) [of "e_now env" "lb_Username b"] account.spend_check [OF m _ t, of "lb_Username b" j]
      by (cases "lb_Username b = []") (auto simp: e)
  next
    case (3 b m')
    then show ?thesis using ok inv account.spend_fail [OF m _ t, of "lb_Username b" j] l
      by (cases "lb_Username b = []") (auto simp: e login_name_def)
  next
    case (4 b m')
    then have "ToLower (lb_Username b) \<noteq> j" using ns by (simp add: login_name_def)
    then show ?thesis using ok 4 inv account.spend_succeed [OF m _ t, of "lb_Username b" j]
      by (cases "lb_Username b = []") (auto simp: e)
  qed
qed

lemma login_run_spends:
  assumes "login_fails_ok (p_accountFails p)" "\<forall>(env, x) \<in> set es. a \<le> e_now env \<and> e_now env < a + loginLockoutTime"
    "j \<noteq> []" "(Some j, 200) \<notin> set (login_run es p)"
  shows "int (count_list (login_run es p) (Some j, 401)) \<le> account_budget a j p"
  using assms
proof (induction es p rule: login_run.induct)
  case (1 p)
  then show ?case using account.budget_initial [OF account_map_ok, of "p_accountFails p" a j] by simp
next
  case (2 env es p)
  have "account_budget a j (FlushStats env p) \<le> account_budget a j p"
    unfolding FlushStats_fails using 2(2,3) by (intro account.spend_prune [OF account_map_ok]) auto
  moreover have "login_fails_ok (p_accountFails (FlushStats env p))"
    unfolding FlushStats_fails by (rule loginFails_invariant [OF 2(2)])
  ultimately show ?case using 2 by simp
next
  case (3 env r es p)
  have t: "a \<le> e_now env" "e_now env < a + loginLockoutTime" using 3(3) by auto
  have "\<not> (login_name r = Some j \<and> rs_status (fst (apiLogin env r p)) = 200)" using 3(5) by auto
  from login_spends [OF 3(2) t 3(4) this] 3(1,3-5) show ?case by auto
qed

text \<open>
  C24: a bound on password guessing by login that no choice of times or addresses defeats. Login requests are
  handled one after another, naming any accounts and coming from any addresses, with pruning ticks in between, all
  within ten minutes. If none that names the account \<open>j\<close> (up to case) succeeds, which would clear its
  count, then at most 19 of those that name it are answered 401, that is, have a password tried and found wrong;
  this holds whatever (well-formed) record of failures there is at the start. (The account is the one named in
  the request. A name with a colon is another account, and the Basic header of other requests is another way
  to try passwords: both are findings.)
\<close>

theorem account_guess_bound:
  assumes "login_fails_ok (p_accountFails p)"
    and "\<forall>(env, x) \<in> set es. a \<le> e_now env \<and> e_now env < a + 10 * minute"
    and "j \<noteq> []" "(Some j, 200) \<notin> set (login_run es p)"
  shows "count_list (login_run es p) (Some j, 401) \<le> 19"
proof -
  have "account_budget a j p \<le> 19"
    using account.budget_initial [OF account_map_ok [OF assms(1)], of a j] by (simp add: loginMaxFails_def)
  moreover have "int (count_list (login_run es p) (Some j, 401)) \<le> account_budget a j p"
    by (rule login_run_spends) (use assms in \<open>simp_all add: loginLockoutTime_def\<close>)
  ultimately show ?thesis by linarith
qed

text \<open>A login under a name nobody has.\<close>

definition demo_wrong_login :: Request where
  "demo_wrong_login = demo_request\<lparr>rq_Method := ''POST'',
     rq_Body := Marshal (JObj [(''username'', JStr ''Eve''), (''password'', JStr ''x'')])\<rparr>"

lemma demo_wrong_body:
  "Decode maxAdminBody (dec_struct dec_login) (rq_Body demo_wrong_login) \<lparr>lb_Username = [], lb_Password = []\<rparr>
   = Some \<lparr>lb_Username = ''Eve'', lb_Password = ''x''\<rparr>"
proof -
  let ?v = "JObj [(''username'', JStr ''Eve''), (''password'', JStr ''x'')]"
  have "length (Marshal ?v @ []) \<le> 100" by code_simp
  then have "length (Marshal ?v @ []) \<le> maxAdminBody" by (rule order_trans) (simp add: maxAdminBody_def)
  moreover have "dec_struct dec_login ?v \<lparr>lb_Username = [], lb_Password = []\<rparr> = Some \<lparr>lb_Username = ''Eve'', lb_Password = ''x''\<rparr>"
    by code_simp
  moreover have "json_ok ?v" by (rule json_okI) simp_all
  ultimately show ?thesis
    using Decode_Marshal [of ?v "[]" maxAdminBody "dec_struct dec_login"] by (simp add: demo_wrong_login_def num_end_def)
qed

theorem account_guess_bound_witness:
  "login_run [(demo_env, Some demo_wrong_login)] demo_proxy = [(Some ''eve'', 401)]
    \<and> count_list (login_run [(demo_env, Some demo_wrong_login)] demo_proxy) (Some ''eve'', 401) \<le> 19"
proof -
  let ?b = "\<lparr>lb_Username = ''Eve'', lb_Password = ''x''\<rparr>"
  have "ToLower ''Eve'' = ''eve''" by code_simp
  then have n: "login_name demo_wrong_login = Some ''eve''" by (simp add: login_name_def demo_wrong_body)
  have "rq_Method demo_wrong_login = ''POST''" by (simp add: demo_wrong_login_def)
  then obtain m m2 where run: "apiLogin demo_env demo_wrong_login demo_proxy =
      login_attempt demo_env demo_wrong_login ?b (demo_proxy\<lparr>p_loginFails := m, p_accountFails := m2\<rparr>)"
    using apiLogin_attempt [OF _ _ demo_wrong_body, of demo_env demo_proxy] by (auto simp: loginAllowed_def accountAllowed_def)
  have "FindUserByName demo_store ''Eve'' = None"
    by (simp add: FindUserByName_def) code_simp
  then have "fst (checkBasicAuth 0 (login_header ?b) demo_store) = None"
    using basic_cred_login [of "''Eve''" "''x''"] by (simp add: checkBasicAuth_def)
  then have "login_run [(demo_env, Some demo_wrong_login)] demo_proxy = [(Some ''eve'', 401)]"
    using login_attempt_wrong [of demo_env ?b "demo_proxy\<lparr>p_loginFails := m, p_accountFails := m2\<rparr>" demo_wrong_login]
    by (simp add: run n)
  with account_guess_bound [of demo_proxy "[(demo_env, Some demo_wrong_login)]" 0 "''eve''"] show ?thesis
    by (simp add: minute_def second_def)
qed

lemma go_div_bounds: "0 < b \<Longrightarrow> a - b < go_div a b * b \<and> go_div a b * b < a + b"
proof (cases "0 \<le> a")
  case True
  assume b: "0 < b"
  have "go_div a b * b = a div b * b" using True b by (simp add: go_div_nonneg)
  then show ?thesis using b div_mult_mod_eq [of a b] pos_mod_bound [of b a] pos_mod_sign [of b a] by linarith
next
  case False
  assume b: "0 < b"
  have "go_div a b * b = - ((- a) div b * b)" using False b by (simp add: go_div_def)
  then show ?thesis using b div_mult_mod_eq [of "- a" b] pos_mod_bound [of b "- a"] pos_mod_sign [of b "- a"] by linarith
qed

lemma bucket_loop_length: "0 < bk \<Longrightarrow> int (length (bucket_loop bk lo hi)) * bk \<le> max 0 (hi - lo + bk)"
proof (induction bk lo hi rule: bucket_loop.induct)
  case (1 bk lo hi)
  show ?case
  proof (cases "hi < lo")
    case False
    with 1 have "int (length (bucket_loop bk (lo + bk) hi)) * bk \<le> max 0 (hi - lo)" by simp
    with False 1(2) show ?thesis by (subst bucket_loop.simps) (simp add: distrib_right)
  qed (simp add: bucket_loop.simps)
qed

text \<open>
  No query makes the timeline large. Whatever the query holds, numbers out of range and
  garbage included, the window is between 1 and 168 hours, a bucket between 10 seconds and a day,
  and the answer has at most 60483 points and 10 users.
\<close>

theorem timeline_bounded:
  "let h = timeline_hours r; bk = timeline_bucket r; res = Timeline order now (now - h * hour) bk user l
   in 1 \<le> h \<and> h \<le> 168 \<and> 10 \<le> bk \<and> bk \<le> 86400 \<and> length (fst res) \<le> 60483 \<and> length (snd res) \<le> 10"
proof -
  let ?h = "timeline_hours r" and ?bk = "timeline_bucket r"
  have h: "1 \<le> ?h" "?h \<le> 168" by (simp_all add: timeline_hours_def Let_def)
  have bk: "10 \<le> ?bk" "?bk \<le> 86400" by (simp_all add: timeline_bucket_def Let_def)
  let ?lo = "go_div (unix (now - ?h * hour)) ?bk * ?bk" and ?hi = "go_div (unix now) ?bk * ?bk"
  have "unix (now - ?h * hour) = unix now - ?h * 3600"
    using div_mult_self1 [of second now "- ?h * 3600"] by (simp add: unix_def hour_def minute_def second_def algebra_simps)
  then have "?hi - ?lo < ?h * 3600 + 2 * ?bk"
    using go_div_bounds [of ?bk "unix now"] go_div_bounds [of ?bk "unix (now - ?h * hour)"] bk by linarith
  moreover have "int (length (bucket_loop ?bk ?lo ?hi)) * ?bk \<le> max 0 (?hi - ?lo + ?bk)"
    using bk by (intro bucket_loop_length) simp
  ultimately have n: "int (length (bucket_loop ?bk ?lo ?hi)) * ?bk \<le> 604800 + 3 * ?bk" using h bk by linarith
  have "int (length (bucket_loop ?bk ?lo ?hi)) \<le> 60483"
  proof (rule ccontr)
    assume "\<not> ?thesis"
    then have "60484 * ?bk \<le> int (length (bucket_loop ?bk ?lo ?hi)) * ?bk" using bk by (intro mult_right_mono) simp_all
    with n bk show False by linarith
  qed
  with h bk show ?thesis by (simp add: Let_def Timeline_def split_beta top_users_def)
qed

end
