(* ===== verification/Program.thy ===== *)
theory Program
  imports Forward Admin In_Place
begin

text \<open>
  The program of \<^verbatim>\<open>main.go\<close>: its start, the states it can reach by serving requests on both
  ports and flushing counters, and its end. The three kinds of step interpret the interface
  \<open>proxy_step\<close>; from that, one induction gives every invariant.
\<close>

section \<open>The program\<close>

text \<open>
  \<open>main\<close> of \<^verbatim>\<open>main.go\<close> up to the point where both servers run: \<^const>\<open>None\<close> is a panic,
  \<open>Inl\<close> the message of an exit with status 1, \<open>Inr\<close> the running proxy and whether the
  notice about default credentials was printed.
\<close>

definition default_notice :: "Config \<Rightarrow> bool" where
  "default_notice cfg = list_ex (\<lambda>u. u_Username u = ''admin'' \<and> IsDefaultPassword (u_PasswordHash u)) (c_Users cfg)"

definition main_start ::
  "string option \<Rightarrow> (string \<Rightarrow> string) \<Rightarrow> (string \<Rightarrow> string \<Rightarrow> string option) \<Rightarrow> bool \<Rightarrow> bool \<Rightarrow> string option \<Rightarrow> string option \<Rightarrow> Env \<Rightarrow> Disk
   \<Rightarrow> (string + bool \<times> Proxy) option"
where
  "main_start mkdir getenv load read_fails mkdir_fails activity auditfile env d =
     (let fail = (\<lambda>e. Some (Inl (''forward-proxy: '' @ error_message e @ [newline]))) in
      case NewStore mkdir (e_entropy env) (e_now env) getenv read_fails (e_save env) d of
        None \<Rightarrow> None
      | Some (Inl e) \<Rightarrow> fail e
      | Some (Inr (store, d')) \<Rightarrow>
          (let p = NewProxy (loadAdminTLS getenv load) mkdir_fails (e_log env) (e_audit env) (e_now env) store d' activity auditfile
           in case start_proxy env (s_cfg store) p of
                (Some e, _) \<Rightarrow> fail e
              | (None, p1) \<Rightarrow> Some (Inr (default_notice (s_cfg store), p1))))"

text \<open>
  The whole of \<open>main\<close>: after the start it prints where it listens, serves requests on both
  ports while a ticker flushes the counters, and shuts down on a signal. Which request or tick comes
  next, and in which environment it runs, is the list of events; the result is the output and the
  state at the end.
\<close>

definition data_dir :: "(string \<Rightarrow> string) \<Rightarrow> string option \<Rightarrow> string" where
  "data_dir getenv flag = (case flag of None \<Rightarrow> envOr getenv ''DATA_DIR'' ''/data'' | Some d \<Rightarrow> d)"

definition main_banner :: "string \<Rightarrow> Config \<Rightarrow> bool \<Rightarrow> string" where
  "main_banner dir cfg notice =
     ''forward-proxy v'' @ Version @ '' started'' @ [newline]
     @ ''  proxy  : http'' @ px_ListenAddr (c_Proxy cfg) @ ''/  (forward proxy for HTTP + CONNECT)'' @ [newline]
     @ ''  admin  : http'' @ px_AdminListenAddr (c_Proxy cfg) @ ''/admin'' @ [newline]
     @ (if notice then ''  NOTICE : default admin credentials admin/admin123 are active ''
          @ map char_of [226 :: nat, 128, 148] @ '' change them in the admin UI'' @ [newline] else [])
     @ ''  data   : '' @ dir @ [newline]"

datatype event = Tick Env | OnAdmin Env Request | OnProxy Env Net Request

primrec main_step :: "event \<Rightarrow> Proxy \<Rightarrow> Proxy" where
  "main_step (Tick env) p = FlushStats env p"
| "main_step (OnAdmin env r) p = snd (AdminHandler env r p)"
| "main_step (OnProxy env net r) p = snd (snd (ServeHTTP env net r p))"

definition main_run ::
  "string option \<Rightarrow> string option \<Rightarrow> (string \<Rightarrow> string) \<Rightarrow> (string \<Rightarrow> string \<Rightarrow> string option) \<Rightarrow> bool \<Rightarrow> bool
   \<Rightarrow> string option \<Rightarrow> string option \<Rightarrow> Env \<Rightarrow> event list \<Rightarrow> Env \<Rightarrow> Disk \<Rightarrow> (string + string \<times> Proxy) option"
where
  "main_run flag mkdir getenv load read_fails mkdir_fails activity auditfile env events env_end d =
     (case main_start mkdir getenv load read_fails mkdir_fails activity auditfile env d of
        None \<Rightarrow> None
      | Some (Inl msg) \<Rightarrow> Some (Inl msg)
      | Some (Inr (notice, p)) \<Rightarrow>
          Some (Inr (main_banner (data_dir getenv flag) (cfg_of p) notice @ [newline] @ ''shutting down...'' @ [newline],
                     shutdown_proxy env_end (fold main_step events p))))"

section \<open>The running program\<close>

text \<open>
  The states of the program: requests to the two ports and the periodic flush, in any order, each
  run as one step, with any environment and new state that the first argument admits. A user
  identifier drawn is fresh.
\<close>

inductive reachable :: "(Env \<Rightarrow> Proxy \<Rightarrow> bool) \<Rightarrow> Proxy \<Rightarrow> Proxy \<Rightarrow> bool" for ok p0 where
  start: "reachable ok p0 p0"
| admin: "reachable ok p0 p \<Longrightarrow> fresh_id env p \<Longrightarrow> AdminHandler env r p = (resp, q) \<Longrightarrow> ok env q \<Longrightarrow> reachable ok p0 q"
| serve: "reachable ok p0 p \<Longrightarrow> ServeHTTP env net r p = (ans, acts, q) \<Longrightarrow> ok env q \<Longrightarrow> reachable ok p0 q"
| flush: "reachable ok p0 p \<Longrightarrow> FlushStats env p = q \<Longrightarrow> ok env q \<Longrightarrow> reachable ok p0 q"

text \<open>These states are those that lists of events lead to.\<close>

fun event_env :: "event \<Rightarrow> Env" where
  "event_env (Tick env) = env" | "event_env (OnAdmin env _) = env" | "event_env (OnProxy env _ _) = env"

fun admissible :: "(Env \<Rightarrow> Proxy \<Rightarrow> bool) \<Rightarrow> event list \<Rightarrow> Proxy \<Rightarrow> bool" where
  "admissible ok [] p = True"
| "admissible ok (e # es) p \<longleftrightarrow> (case e of OnAdmin env r \<Rightarrow> fresh_id env p | _ \<Rightarrow> True)
     \<and> ok (event_env e) (main_step e p) \<and> admissible ok es (main_step e p)"

lemma admissible_append: "admissible ok (es @ fs) p \<longleftrightarrow> admissible ok es p \<and> admissible ok fs (fold main_step es p)"
  by (induction es arbitrary: p) auto

lemma reachable_step:
  assumes "reachable ok p0 p" "admissible ok [e] p"
  shows "reachable ok p0 (main_step e p)"
  using assms
proof (cases e)
  case (OnAdmin env r)
  with assms show ?thesis by (auto intro: reachable.admin [OF _ _ prod.collapse [symmetric]])
next
  case (OnProxy env net r)
  obtain ans acts q where "ServeHTTP env net r p = (ans, acts, q)" by (cases "ServeHTTP env net r p")
  with OnProxy assms show ?thesis by (auto intro: reachable.serve)
qed (auto intro: reachable.flush)

lemma admissible_reachable: "reachable ok p0 p \<Longrightarrow> admissible ok es p \<Longrightarrow> reachable ok p0 (fold main_step es p)"
  using reachable_step by (induction es arbitrary: p) auto

lemma reachable_events: "reachable ok p0 p \<Longrightarrow> \<exists>es. admissible ok es p0 \<and> fold main_step es p0 = p"
proof (induction rule: reachable.induct)
  case start
  show ?case by (rule exI [of _ "[]"]) simp
next
  case (admin p env r resp q)
  then obtain es where "admissible ok es p0" "fold main_step es p0 = p" by blast
  with admin show ?case by (intro exI [of _ "es @ [OnAdmin env r]"]) (simp add: admissible_append)
next
  case (serve p env net r ans acts q)
  then obtain es where "admissible ok es p0" "fold main_step es p0 = p" by blast
  with serve show ?case by (intro exI [of _ "es @ [OnProxy env net r]"]) (simp add: admissible_append)
next
  case (flush p env q)
  then obtain es where "admissible ok es p0" "fold main_step es p0 = p" by blast
  with flush show ?case by (intro exI [of _ "es @ [Tick env]"]) (simp add: admissible_append)
qed

lemma reachable_iff: "reachable ok p0 p \<longleftrightarrow> (\<exists>es. admissible ok es p0 \<and> fold main_step es p0 = p)"
  using reachable_events admissible_reachable [OF reachable.start] by metis

section \<open>Serving proxy requests\<close>

text \<open>
  A request on the proxy port leaves configuration and listeners alone; of the state of
  authentication, only its own authorization changes something.
\<close>

definition calm where
  "calm p = (conf p, listeners p, s_authCache (p_store p), p_dummyHash p)"

lemmas calm_defs = calm_def conf_def listeners_def

lemma authorize_gentle: "gentle p (snd (authorize env r ip p))"
proof -
  have "gentle p (p\<lparr>p_store := snd (checkBasicAuth now h (p_store p)), p_proxyAuthFails := x\<rparr>)"
    "gentle p (p\<lparr>p_proxyAuthFails := x\<rparr>)" for now h x
    by (simp_all add: gentle_def core_defs auth_ok_def checkBasicAuth_auth_ok)
  moreover have "gentle p p" by blast
  ultimately show ?thesis by (auto simp: authorize_eq Let_def intro: gentle_equalize split: option.split)
qed

lemma calm_work [simp]:
  "calm (log_add env e p) = calm p" "calm (account now uid i o' p) = calm p" "calm (snd (enter user cfg p)) = calm p"
  "calm (leave uid p) = calm p"
  by (simp_all add: calm_defs log_add_def account_def enter_def leave_def split_beta)

lemma live_work [simp]:
  "p_live (snd (enter user cfg p)) = p_live p" "live_ok (p_live p) \<Longrightarrow> live_ok (p_live (account now uid i o' p))"
  by (simp_all add: log_add_def account_def enter_def leave_def split_beta)

lemma calm_refuse [simp]: "calm (snd (snd (refuse env user r st reason p))) = calm p" "calm (snd (denyAs env user r st reason p)) = calm p"
  by (simp_all add: refuse_def denyAs_def Let_def)

lemma calm_do_work [simp]: "calm (snd (snd (do_work env net u r p))) = calm p"
  by (simp add: do_work_def connect_reserved_def forward_reserved_def connect_hijacked_def Let_def split_beta
      split: option.split sum.split)

lemma live_do_work [simp]: "live_ok (p_live p) \<Longrightarrow> live_ok (p_live (snd (snd (do_work env net u r p))))"
  by (simp add: do_work_def connect_reserved_def forward_reserved_def connect_hijacked_def Let_def split_beta refuse_sel
      split: option.split sum.split)

lemma calm_with_slot:
  "(\<And>q. calm (snd (snd (work q))) = calm q) \<Longrightarrow> calm (snd (snd (with_slot env user cfg host r work p))) = calm p"
  "(\<And>q. live_ok (p_live q) \<Longrightarrow> live_ok (p_live (snd (snd (work q))))) \<Longrightarrow> live_ok (p_live p)
     \<Longrightarrow> live_ok (p_live (snd (snd (with_slot env user cfg host r work p))))"
  by (simp_all add: with_slot_def split_beta refuse_sel)

lemma ServeHTTP_calm:
  obtains p1 where "gentle p p1" "calm (snd (snd (ServeHTTP env net r p))) = calm p1"
    "live_ok (p_live p1) \<Longrightarrow> live_ok (p_live (snd (snd (ServeHTTP env net r p))))"
proof (cases "switched_on (cfg_of p) r")
  case True
  obtain x p1 where run: "authorize env r (clientAddr r) p = (x, p1)" by fastforce
  show thesis
  proof (rule that [of p1])
    show "gentle p p1" using authorize_gentle [of p env r "clientAddr r"] run by simp
    show "calm (snd (snd (ServeHTTP env net r p))) = calm p1"
      "live_ok (p_live p1) \<Longrightarrow> live_ok (p_live (snd (snd (ServeHTTP env net r p))))"
      unfolding ServeHTTP_on [OF True] run by (simp_all add: calm_with_slot refuse_sel split: sum.split)
  qed
next
  case False
  show thesis by (rule that [of p]) (use ServeHTTP_off [OF False, of env net] in \<open>auto simp: refuse_sel\<close>)
qed

section \<open>Flushing\<close>

text \<open>A flush: what a user is, and what the rules are compiled from, is as before.\<close>

lemma flush_user_lists [simp]:
  "u_Whitelist (flush_user l u) = u_Whitelist u" "u_Blacklist (flush_user l u) = u_Blacklist u"
  by (auto simp: flush_user_def Let_def split: option.split)

lemma config_ok_flush: "config_ok (c\<lparr>c_Users := map (flush_user l) (c_Users c)\<rparr>) = config_ok c"
  by (simp add: config_ok_def users_distinct_def has_admin_def list_ex_iff list_all_iff comp_def)

lemma config_fits_flush: "config_fits c \<Longrightarrow> config_fits (c\<lparr>c_Users := map (flush_user l) (c_Users c)\<rparr>)"
proof -
  have "u_MaxConns (flush_user l u) = u_MaxConns u" "u_DailyTrafficMB (flush_user l u) = u_DailyTrafficMB u" for u
    by (auto simp: flush_user_def Let_def split: option.split)
  then show "config_fits c \<Longrightarrow> ?thesis" by (auto simp: config_fits_parts user_fits_def list_all_iff)
qed

lemma Rebuild_flush: "Rebuild e (c\<lparr>c_Users := map (flush_user l) (c_Users c)\<rparr>) = Rebuild e c"
proof -
  have "foldl rebuild_user m (map (flush_user l) us) = foldl rebuild_user m us" for m us
    by (induction us arbitrary: m) (simp_all add: rebuild_user_def)
  then show ?thesis by (simp add: Rebuild_def)
qed


lemma update_silent_rest [simp]:
  "listeners (snd (update_silent env fn p)) = listeners p" "p_live (snd (update_silent env fn p)) = p_live p"
  by (simp_all add: update_silent_def listeners_def split: prod.split)

lemma update_silent_auth [simp]:
  "s_authCache (p_store (snd (update_silent env fn p))) = s_authCache (p_store p)"
  "p_dummyHash (snd (update_silent env fn p)) = p_dummyHash p"
  by (auto simp: update_silent_def UpdateSilent_def store_update_def rebuildIndex_def split: sum.split prod.split option.split)

lemma update_silent_cfg:
  "cfg_of (snd (update_silent env fn p)) = (case fn (cfg_of p) of Inl _ \<Rightarrow> cfg_of p | Inr c \<Rightarrow> c)"
  by (auto simp: update_silent_def UpdateSilent_def store_update_def split: sum.splits prod.splits option.splits)

text \<open>The state on which the flush function runs.\<close>

lemma FlushStats_cases:
  obtains q where "conf q = conf p" "listeners q = listeners p" "p_live q = newLiveStats"
    "s_authCache (p_store q) = s_authCache (p_store p)" "p_dummyHash q = p_dummyHash p"
    "FlushStats env p = (if lv_requests (p_live p) = fmempty \<and> lv_lastUsed (p_live p) = fmempty then q
       else snd (update_silent env (flush_fn (p_live p)) q))"
proof -
  obtain a b c where pr: "pruneAuthFailures (e_now env) (p_loginFails p, p_accountFails p, p_proxyAuthFails p) = (a, b, c)"
    by (cases "pruneAuthFailures (e_now env) (p_loginFails p, p_accountFails p, p_proxyAuthFails p)")
  let ?q = "p\<lparr>p_loginFails := a, p_accountFails := b, p_proxyAuthFails := c, p_logs := Flush (p_logs p),
     p_daily := prune_daily (e_now env) (p_daily p), p_live := newLiveStats\<rparr>"
  show thesis by (rule that [of ?q]) (simp_all add: conf_def listeners_def FlushStats_def pr Let_def)
qed

lemma FlushStats_rest [simp]: "listeners (FlushStats env p) = listeners p" "p_live (FlushStats env p) = newLiveStats"
  "s_authCache (p_store (FlushStats env p)) = s_authCache (p_store p)" "p_dummyHash (FlushStats env p) = p_dummyHash p"
  by (rule FlushStats_cases [of p env]; simp)+

lemma FlushStats_cfg:
  "cfg_of (FlushStats env p) = (if lv_requests (p_live p) = fmempty \<and> lv_lastUsed (p_live p) = fmempty then cfg_of p
     else (cfg_of p)\<lparr>c_Users := map (flush_user (p_live p)) (c_Users (cfg_of p))\<rparr>)"
  by (rule FlushStats_cases [of p env]) (simp add: conf_def update_silent_cfg flush_fn_def)

lemma FlushStats_config_ok: "config_ok (cfg_of (FlushStats env p)) = config_ok (cfg_of p)"
  by (simp add: FlushStats_cfg config_ok_flush)

lemma FlushStats_fits: "config_fits (cfg_of p) \<Longrightarrow> config_fits (cfg_of (FlushStats env p))"
  by (simp add: FlushStats_cfg config_fits_flush)

lemma FlushStats_TLS: "p_adminTLS (FlushStats env p) = p_adminTLS p"
  using FlushStats_rest(1) [of env p] by (simp add: listeners_def)

lemma FlushStats_clean: "clean_hashes (cfg_of (FlushStats env p)) = clean_hashes (cfg_of p)"
  by (simp add: FlushStats_cfg clean_hashes_def list_all_iff)

lemma FlushStats_bound: "bound_as_configured (FlushStats env p) = bound_as_configured p"
  using FlushStats_rest(1) [of env p] by (simp add: bound_as_configured_def listeners_def FlushStats_cfg connect_timeout_def)

text \<open>
  What there is to say of a user apart from the time of the last request: the account, with the
  totals that the interface shows, those of the configuration and the live ones.
\<close>

definition ledger :: "liveStats \<Rightarrow> User \<Rightarrow> User" where
  "ledger l u = u\<lparr>u_Stats := MergedStats l u, u_LastUsedAt := []\<rparr>"

lemma ledger_flush_user: "ledger newLiveStats (flush_user l u) = ledger l u"
proof -
  have "(flush_user l u)\<lparr>u_Stats := s, u_LastUsedAt := []\<rparr> = u\<lparr>u_Stats := s, u_LastUsedAt := []\<rparr>" for s
    by (simp add: flush_user_def Let_def split: option.split)
  moreover have "MergedStats newLiveStats v = u_Stats v" for v by (simp add: MergedStats_def newLiveStats_def)
  ultimately show ?thesis by (simp add: ledger_def)
qed

lemma FlushStats_ledger:
  assumes "live_ok (p_live p)"
  shows "map (ledger newLiveStats) (c_Users (cfg_of (FlushStats env p))) = map (ledger (p_live p)) (c_Users (cfg_of p))"
proof (cases "lv_requests (p_live p) = fmempty \<and> lv_lastUsed (p_live p) = fmempty")
  case True
  with live_ok_empty [OF assms] show ?thesis by (simp add: FlushStats_cfg ledger_def)
next
  case False
  show ?thesis unfolding FlushStats_cfg if_not_P [OF False] by (simp add: comp_def ledger_flush_user)
qed

lemma FlushStats_synced:
  assumes "synced p" "config_fits (cfg_of p)" "save_succeeds env"
  shows "synced (FlushStats env p)"
proof (rule FlushStats_cases [of p env])
  fix q assume q: "conf q = conf p" and run: "FlushStats env p = (if lv_requests (p_live p) = fmempty \<and> lv_lastUsed (p_live p) = fmempty
    then q else snd (update_silent env (flush_fn (p_live p)) q))"
  have sq: "synced q" using synced_conf [OF q] assms(1) by simp
  let ?c = "(cfg_of q)\<lparr>c_Users := map (flush_user (p_live p)) (c_Users (cfg_of q))\<rparr>"
  have fits: "config_fits ?c" using assms(2) q by (intro config_fits_flush) (simp add: conf_def)
  obtain e d' where sv: "saveLocked (e_save env) (p_disk q) ?c = (e, d')" by fastforce
  with assms(3) have "e = None" by (auto simp: saveLocked_def save_succeeds_def)
  with sv saveLocked_ok [of "e_save env" "p_disk q" ?c d'] sq dec_doc_enc_doc [OF fits]
  have "synced (snd (update_silent env (flush_fn (p_live p)) q))"
    by (auto simp: update_silent_def UpdateSilent_def store_update_def flush_fn_def synced_def Rebuild_flush)
  with sq run show ?thesis by simp
qed

section \<open>Invariants of the running program\<close>

text \<open>All three kinds of step meet the interface; the admin port does in \<^verbatim>\<open>Admin\<close>.\<close>

interpretation proxy_port: core_keeping "\<lambda>env (net, r) p. snd (snd (ServeHTTP env net r p))"
proof -
  have "conf q = conf p \<and> listeners q = listeners p \<and> (live_ok (p_live p) \<longrightarrow> live_ok (p_live q)) \<and> (auth_ok p \<longrightarrow> auth_ok q)"
    if q: "q = snd (snd (ServeHTTP env net r p))" for env net r p q
  proof (rule ServeHTTP_calm [of p env net r, folded q])
    fix p1 assume g: "gentle p p1" and c: "calm q = calm p1" and l: "live_ok (p_live p1) \<Longrightarrow> live_ok (p_live q)"
    have "auth_ok q" if "auth_ok p"
      by (rule auth_okI [of p1]) (use that g c auth_ok_clean [of p1] in \<open>simp_all add: gentle_def calm_defs\<close>)
    with g c l show ?thesis by (simp add: gentle_def core_parts calm_def)
  qed
  then show "core_keeping (\<lambda>env (net, r) p. snd (snd (ServeHTTP env net r p)))"
    by unfold_locales (simp_all add: split_beta)
qed

interpretation flush: proxy_step "\<lambda>env (_ :: unit). FlushStats env"
proof (unfold_locales, goal_cases)
  case (8 p env x)
  show ?case by (rule auth_okI [of p]) (use 8 in simp_all)
qed (simp_all add: FlushStats_config_ok FlushStats_TLS FlushStats_fits FlushStats_synced FlushStats_bound
    listening_cong [OF FlushStats_rest(1)])

text \<open>The facts of the interface about a request on the proxy port, its two arguments apart.\<close>

lemmas serve_keeps =
  proxy_port.keeps_config [where x = "(net, r)" for net r, unfolded prod.case]
  proxy_port.keeps_fits [where x = "(net, r)" for net r, unfolded prod.case]
  proxy_port.keeps_live [where x = "(net, r)" for net r, unfolded prod.case]
  proxy_port.keeps_listening [where x = "(net, r)" for net r, unfolded prod.case]
  proxy_port.keeps_sync [where x = "(net, r)" for net r, unfolded prod.case]
  proxy_port.keeps_bound [where x = "(net, r)" for net r, unfolded prod.case]
  proxy_port.keeps_auth [where x = "(net, r)" for net r, unfolded prod.case]
  proxy_port.quiet_cfg [where x = "(net, r)" for net r, unfolded prod.case]

lemma reachable_invariant:
  assumes "reachable ok p0 p" "I p0"
    and "\<And>env r p. I p \<Longrightarrow> ok env (snd (AdminHandler env r p)) \<Longrightarrow> fresh_id env p \<Longrightarrow> I (snd (AdminHandler env r p))"
    and "\<And>env net r p. I p \<Longrightarrow> ok env (snd (snd (ServeHTTP env net r p))) \<Longrightarrow> I (snd (snd (ServeHTTP env net r p)))"
    and "\<And>env p. I p \<Longrightarrow> ok env (FlushStats env p) \<Longrightarrow> I (FlushStats env p)"
  shows "I p"
  using assms(1,2)
proof induction
  case (admin p env r resp q)
  then show ?case using assms(3) [of p env r] by simp
next
  case (serve p env net r ans acts q)
  then show ?case using assms(4) [of p env net r] by simp
next
  case (flush p env q)
  then show ?case using assms(5) [of p env] by simp
qed

lemma reachable_config_ok:
  assumes "reachable ok p0 p" "config_ok (cfg_of p0)"
  shows "config_ok (cfg_of p)"
  using assms
proof (rule reachable_invariant [where I = "\<lambda>p. config_ok (cfg_of p)"])
  show "config_ok (cfg_of (snd (AdminHandler env r p)))" if "config_ok (cfg_of p)" "fresh_id env p" for env r p
    using that by (rule admin_port.keeps_config)
qed (simp_all add: FlushStats_config_ok serve_keeps(8))

lemma reachable_fits:
  assumes "reachable ok p0 p" "config_fits (cfg_of p0)"
  shows "config_fits (cfg_of p)"
  using assms by (rule reachable_invariant [where I = "\<lambda>p. config_fits (cfg_of p)"])
    (simp_all add: admin_port.keeps_fits serve_keeps(2) flush.keeps_fits)

lemma reachable_live:
  assumes "reachable ok p0 p" "live_ok (p_live p0)"
  shows "live_ok (p_live p)"
  using assms by (rule reachable_invariant [where I = "\<lambda>p. live_ok (p_live p)"])
    (simp_all add: admin_port.keeps_live serve_keeps(3))

lemma reachable_listening:
  assumes "reachable ok p0 p" "listening p0"
  shows "listening p"
  using assms by (rule reachable_invariant) (simp_all add: admin_port.keeps_listening serve_keeps(4) flush.keeps_listening)

lemma reachable_TLS: "reachable ok p0 p \<Longrightarrow> p_adminTLS p = p_adminTLS p0"
  by (erule reachable_invariant [where I = "\<lambda>p. p_adminTLS p = p_adminTLS p0"])
    (simp_all add: admin_port.keeps_TLS proxy_port.keeps_TLS [where x = "(net, r)" for net r, unfolded prod.case] flush.keeps_TLS)

lemma reachable_auth:
  assumes "reachable ok p0 p" "\<And>env q. ok env q \<Longrightarrow> clean_hashes (cfg_of q)" "auth_ok p0"
  shows "auth_ok p"
  using assms(1,3) by (rule reachable_invariant)
    (simp_all add: assms(2) admin_port.keeps_auth serve_keeps(7) flush.keeps_auth)

lemma reachable_synced:
  assumes "reachable ok p0 p" "\<And>env q. ok env q \<Longrightarrow> save_succeeds env" "synced p0" "config_fits (cfg_of p0)"
  shows "synced p"
proof -
  have "synced p \<and> config_fits (cfg_of p)"
    by (rule reachable_invariant [where I = "\<lambda>p. synced p \<and> config_fits (cfg_of p)", OF assms(1)])
      (auto simp: assms(3,4) dest!: assms(2)
        intro: admin_port.keeps_sync admin_port.keeps_fits serve_keeps(2,5) flush.keeps_sync flush.keeps_fits)
  then show ?thesis by blast
qed

lemma reachable_bound:
  assumes "reachable ok p0 p" "\<And>env q. ok env q \<Longrightarrow> save_succeeds env \<and> (\<forall>a. e_listen env a = None)" "bound_as_configured p0"
  shows "bound_as_configured p"
  using assms(1,3) by (rule reachable_invariant)
    (auto dest!: assms(2) intro: admin_port.keeps_bound serve_keeps(6) flush.keeps_bound)

section \<open>Start and end\<close>

text \<open>A start on a directory brings every invariant about, whatever the configuration file says.\<close>

lemma migrate_sel:
  "c_Users (migrate en c) = c_Users c" "c_GlobalRules (migrate en c) = c_GlobalRules c"
  "c_SessionKey (migrate en c) = randomHex (en_key en)"
  "c_Version (migrate en c) = (if c_Version c < 1 then 1 else c_Version c)"
  "c_Logs (migrate en c) = (if logsNeverWritten (c_Logs c) then \<lparr>lg_RingSize = 20000, lg_FileMaxMB = 10, lg_ToFile = True\<rparr> else c_Logs c)"
  by (simp_all add: migrate_def Let_def)

lemma migrate_proxy:
  "c_Proxy (migrate en c) = (c_Proxy c)
     \<lparr>px_ConnectTimeoutSec := (if px_ConnectTimeoutSec (c_Proxy c) = 0 then 15 else px_ConnectTimeoutSec (c_Proxy c)),
      px_ReadTimeoutSec := (if px_ReadTimeoutSec (c_Proxy c) = 0 then 300 else px_ReadTimeoutSec (c_Proxy c))\<rparr>"
  by (simp add: migrate_def Let_def)

lemma migrate_again: "migrate en (migrate en' c) = migrate en c"
  by (rule Config.equality) (simp_all add: migrate_sel migrate_proxy logsNeverWritten_def)

lemma migrate_fits: "config_fits c \<Longrightarrow> config_fits (migrate en c)"
  by (simp add: config_fits_parts migrate_sel migrate_proxy proxy_fits_def logs_fit_def in_int64_def)

lemma Rebuild_cong: "c_Users c = c_Users d \<Longrightarrow> c_GlobalRules c = c_GlobalRules d \<Longrightarrow> Rebuild e c = Rebuild e d"
  by (simp add: Rebuild_def)

lemma defaultConfig_fits:
  assumes "defaultConfig en now env = Some c"
  shows "config_fits c"
proof (cases "NewUser en now ''admin'' ''admin123'' ''admin''")
  case (Inr u)
  have "c_Users c = [u]" "c_Version c = 1" "proxy_fits (c_Proxy c)" "logs_fit (c_Logs c)"
    using assms [unfolded defaultConfig_def Inr sum.case option.inject, symmetric]
    by (simp_all add: proxy_fits_def logs_fit_def in_int64_def)
  with NewUser_fits [OF Inr] show ?thesis by (simp add: config_fits_parts in_int64_def)
qed (use assms in \<open>simp add: defaultConfig_def\<close>)

lemma NewStore_fits:
  assumes "NewStore mkdir en now env rf io d = Some (Inr (s, d'))"
  shows "config_fits (s_cfg s) \<and> index_ok s
    \<and> (\<exists>t c. dk_config d' = Some t \<and> dec_doc t zero_config = Some c \<and> (\<forall>en. migrate en c = migrate en (s_cfg s)))"
proof -
  have mk: "mkdir = None" using assms by (cases mkdir) (auto simp: NewStore_def)
  define raw where "raw = (if rf then None else dk_config d)"
  show ?thesis
  proof (cases "raw \<noteq> None \<and> raw \<noteq> Some []")
    case True
    then obtain t where t: "raw = Some t" "t \<noteq> []" "dk_config d = Some t" by (auto simp: raw_def split: if_splits)
    obtain c where c: "dec_doc t zero_config = Some c" "s_cfg s = migrate en c" "index_ok s" "d' = d"
      using assms mk t by (auto simp: NewStore_def raw_def [symmetric] Let_def split: option.splits)
    with t dec_doc_fits [OF c(1)] show ?thesis by (auto simp: migrate_again migrate_fits)
  next
    case False
    obtain c where c: "defaultConfig en now env = Some c" "saveLocked io d c = (None, d')" "s_cfg s = c" "index_ok s"
      using assms mk False by (auto simp: NewStore_def raw_def [symmetric] Let_def Save_def split: option.splits prod.splits)
    note fits = defaultConfig_fits [OF c(1)]
    from c saveLocked_ok [OF c(2)] fits dec_doc_enc_doc [OF fits] show ?thesis by auto
  qed
qed

lemma start_proxy_conf:
  assumes "start_proxy env cfg p = (e, q)"
  shows "conf q = conf p" "p_live q = p_live p" "p_store q = p_store p" "p_dummyHash q = p_dummyHash p"
  using assms by (auto simp: start_proxy_def bind_def conf_def split: option.splits)

lemma NewProxy_listeners [simp]:
  "p_running (NewProxy tls mk lio aio now st d act af) = []"
  "p_transport (NewProxy tls mk lio aio now st d act af) = Some (connect_timeout (s_cfg st))"
  "p_adminTLS (NewProxy tls mk lio aio now st d act af) = tls"
  by (simp_all add: NewProxy_def applyTransport_def connect_timeout_def Let_def)

lemma main_start_Inr:
  assumes "main_start mkdir getenv load rf mk act af env d = Some (Inr (notice, p))"
  obtains s d' where "NewStore mkdir (e_entropy env) (e_now env) getenv rf (e_save env) d = Some (Inr (s, d'))"
    "notice = default_notice (s_cfg s)"
    "start_proxy env (s_cfg s) (NewProxy (loadAdminTLS getenv load) mk (e_log env) (e_audit env) (e_now env) s d' act af) = (None, p)"
  using assms by (auto simp: main_start_def Let_def split: option.splits sum.splits prod.splits)

lemma started:
  assumes "main_start mkdir getenv load rf mk act af env d = Some (Inr (notice, p))"
  shows "config_fits (cfg_of p)" "synced p" "live_ok (p_live p)" "listening p" "bound_as_configured p"
    "clean_hashes (cfg_of p) \<Longrightarrow> auth_ok p" "p_adminTLS p = loadAdminTLS getenv load"
proof -
  obtain s d' where s: "NewStore mkdir (e_entropy env) (e_now env) getenv rf (e_save env) d = Some (Inr (s, d'))"
    "start_proxy env (s_cfg s) (NewProxy (loadAdminTLS getenv load) mk (e_log env) (e_audit env) (e_now env) s d' act af) = (None, p)"
    using main_start_Inr [OF assms] by metis
  note c = start_proxy_conf [OF s(2)] and l = start_proxy_listening [OF s(2)]
  have cfg: "cfg_of p = s_cfg s" using c(1) by (simp add: conf_def)
  with NewStore_fits [OF s(1)] show "config_fits (cfg_of p)" by simp
  show "synced p" using NewStore_fits [OF s(1)] by (subst synced_conf [OF c(1)]) (simp add: synced_def)
  show "live_ok (p_live p)" using c(2) by simp
  show "listening p" "bound_as_configured p" "p_adminTLS p = loadAdminTLS getenv load"
    using l cfg by (simp_all add: bound_as_configured_def)
  have "s_authCache s = fmempty" using s(1)
    by (auto simp: NewStore_def rebuildIndex_def Let_def split: option.splits prod.splits if_splits)
  with c(3,4) have a: "cached_verdict (p_store p) k = None" "p_dummyHash p = None" for k by (simp_all add: cached_verdict_def)
  have "verify.sound (p_store p)" by (rule verify.soundI_empty) (rule a)
  with a(2) show "clean_hashes (cfg_of p) \<Longrightarrow> auth_ok p"
    by (simp add: auth_ok_def store_auth_ok_def clean_hashes_def list_all_iff)
qed

text \<open>The end: the counters are in the file. From there the program starts again.\<close>

lemma shutdownServer_sel [simp]: "conf (shutdownServer s p) = conf p" "p_live (shutdownServer s p) = p_live p"
  by (simp_all add: shutdownServer_def conf_def split: option.split)

lemma shutdown_conf:
  obtains q where "conf (shutdown_proxy env p) = conf (FlushStats env q)" "conf q = conf p" "p_live q = p_live p"
proof -
  have "conf (p\<lparr>p_logs := l\<rparr>) = conf p" for p l by (simp add: conf_def)
  with that [of "shutdownServer (p_adminSrv p) (shutdownServer (p_proxySrv p) p)"] show thesis
    by (simp add: shutdown_proxy_def Let_def)
qed

lemma shutdown_kept:
  assumes "synced p" "config_fits (cfg_of p)" "live_ok (p_live p)" "save_succeeds env"
  shows "synced (shutdown_proxy env p)"
    "map (ledger newLiveStats) (c_Users (cfg_of (shutdown_proxy env p))) = map (ledger (p_live p)) (c_Users (cfg_of p))"
    "c_GlobalRules (cfg_of (shutdown_proxy env p)) = c_GlobalRules (cfg_of p)"
    "c_Proxy (cfg_of (shutdown_proxy env p)) = c_Proxy (cfg_of p)"
    "p_rules (shutdown_proxy env p) = p_rules p"
proof -
  obtain q where q: "conf (shutdown_proxy env p) = conf (FlushStats env q)" "conf q = conf p" "p_live q = p_live p"
    by (rule shutdown_conf)
  have cfg: "cfg_of (shutdown_proxy env p) = cfg_of (FlushStats env q)" "cfg_of q = cfg_of p" using q(1,2) by (simp_all add: conf_def)
  have "synced (FlushStats env q)" by (rule FlushStats_synced) (use assms q synced_conf [OF q(2)] cfg in simp_all)
  then show s: "synced (shutdown_proxy env p)" using synced_conf [OF q(1)] by simp
  show "map (ledger newLiveStats) (c_Users (cfg_of (shutdown_proxy env p))) = map (ledger (p_live p)) (c_Users (cfg_of p))"
    using FlushStats_ledger [of q env] assms(3) q(3) cfg by simp
  show "c_GlobalRules (cfg_of (shutdown_proxy env p)) = c_GlobalRules (cfg_of p)"
    "c_Proxy (cfg_of (shutdown_proxy env p)) = c_Proxy (cfg_of p)" using cfg by (simp_all add: FlushStats_cfg)
  have "Rebuild NewRulesEngine (cfg_of (shutdown_proxy env p)) = Rebuild NewRulesEngine (cfg_of p)"
    using cfg by (simp add: FlushStats_cfg Rebuild_flush)
  with s assms(1) show "p_rules (shutdown_proxy env p) = p_rules p" by (simp add: synced_def)
qed

lemma dec_doc_empty [simp]: "dec_doc [] z = None"
  by (simp add: dec_doc_def Unmarshal_def Parse_def skip_ws_def)

lemma main_start_again:
  assumes "synced p" "\<And>a. e_listen env a = None"
  obtains notice p' where "main_start None getenv load False mk act af env (p_disk p) = Some (Inr (notice, p'))"
    "cfg_of p' = migrate (e_entropy env) (cfg_of p)" "p_live p' = newLiveStats"
proof -
  obtain t c where t: "dk_config (p_disk p) = Some t" "dec_doc t zero_config = Some c" "migrate (e_entropy env) c = migrate (e_entropy env) (cfg_of p)"
    using assms(1) by (auto simp: synced_def)
  then have "t \<noteq> []" by auto
  with t obtain s where s: "NewStore None (e_entropy env) (e_now env) getenv False (e_save env) (p_disk p) = Some (Inr (s, p_disk p))"
    "s_cfg s = migrate (e_entropy env) (cfg_of p)" by (auto simp: NewStore_def Let_def)
  obtain p' where p': "start_proxy env (s_cfg s) (NewProxy (loadAdminTLS getenv load) mk (e_log env) (e_audit env) (e_now env) s (p_disk p) act af) = (None, p')"
    by (auto simp: start_proxy_def bind_def assms(2))
  show thesis
    by (rule that [of "default_notice (s_cfg s)" p']) (use s p' start_proxy_conf [OF p'] in \<open>simp_all add: main_start_def conf_def\<close>)
qed

text \<open>A start on an empty directory that succeeds.\<close>

definition demo_empty_disk :: Disk where
  "demo_empty_disk = \<lparr>dk_config = None, dk_bak = None, dk_tmp = None\<rparr>"

lemma demo_listen [simp]: "e_listen demo_env a = None" "e_listen demo_salted a = None"
  by (simp_all add: demo_salted_def demo_env_def)

lemma demo_start_on:
  assumes "dk_config d = None \<or> dk_config d = Some []"
  obtains notice p where "main_start None (\<lambda>_. []) (\<lambda>_ _. None) False False None None demo_salted d = Some (Inr (notice, p))"
    "clean_hashes (cfg_of p)"
proof -
  have env: "e_save demo_salted = demo_save" by (simp add: demo_salted_def demo_env_def)
  obtain h where h: "HashPassword (en_salt (e_entropy demo_salted)) ''admin123'' = Some h"
    by (simp add: HashPassword_def demo_salted_def)
  then obtain c where c: "defaultConfig (e_entropy demo_salted) (e_now demo_salted) (\<lambda>_. []) = Some c" "map u_PasswordHash (c_Users c) = [h]"
    by (simp add: defaultConfig_def NewUser_def)
  then obtain notice p where run: "main_start None (\<lambda>_. []) (\<lambda>_ _. None) False False None None demo_salted d = Some (Inr (notice, p))"
    and p: "cfg_of p = c"
    using assms by (auto simp: main_start_def NewStore_def Save_def saveLocked_def save_states_def Let_def env demo_save_def
        start_proxy_def bind_def)
  have "clean_hashes (cfg_of p)" using c(2) HashPassword_no_nul [OF h, folded nul_def] by (auto simp: clean_hashes_def p)
  with run that show thesis by blast
qed

lemma demo_start:
  obtains notice p where "main_start None (\<lambda>_. []) (\<lambda>_ _. None) False False None None demo_salted demo_empty_disk = Some (Inr (notice, p))"
    "clean_hashes (cfg_of p)"
  by (rule demo_start_on [of demo_empty_disk]) (simp_all add: demo_empty_disk_def)

end
