(* ===== verification/Spec2Isabelle.thy ===== *)
theory Spec2Isabelle
  imports Rules Config_Json Credentials Proxy_State Auth Forward Contract Admin_Users Admin_Settings In_Place Admin Program
begin

text \<open>
  A verification library for \<^verbatim>\<open>forward-proxy\<close>, a forward HTTP and CONNECT proxy with user
  accounts, access rules, quotas, an activity log and a web administration interface, written in Go
  (\<^verbatim>\<open>src/*.go\<close>). The definitions translate the Go functions one by one, keep their names where
  Isabelle allows it, and are executable.

  \<^bold>\<open>How the program works.\<close> \<^verbatim>\<open>main.go\<close> loads the configuration (\<open>NewStore\<close>),
  builds a \<open>Proxy\<close>, registers \<open>OnConfigChanged\<close> and starts two servers. The proxy port
  (\<open>ServeHTTP\<close>, \<^verbatim>\<open>proxy.go\<close>) authenticates the caller, asks the rules engine, checks quota
  and connection limits, then forwards the request or opens a tunnel, counts the bytes and logs. The
  admin port (\<open>AdminHandler\<close>, \<^verbatim>\<open>admin.go\<close>) guards an API with sessions or passwords; its
  handlers change the configuration through \<open>Store.Update\<close>, which saves the file, rebuilds the
  indexes and notifies the proxy, which recompiles the rules and rebinds its listeners. A ticker
  flushes live counters into the configuration.

  \<^bold>\<open>The library.\<close> Each theory begins with what it holds.

  \<^item> Foundations: \<^verbatim>\<open>Go_Prelude\<close> (strings, numbers, errors, shared lemmas), \<^verbatim>\<open>Net_Addr\<close>
    (IP addresses, CIDR, host and port), \<^verbatim>\<open>Go_Time\<close> (calendar, RFC 3339), \<^verbatim>\<open>Json\<close>
    (printer, parser, struct decoding, with the locale \<open>json_layout\<close> for both layouts),
    \<^verbatim>\<open>Go_Crypto\<close> (SHA-256, HMAC, hex, base64).
  \<^item> \<^verbatim>\<open>Rules\<close> models \<^verbatim>\<open>rules.go\<close>: a decision is the one of a declarative policy over the
    configuration; a wildcard pattern matches, character by character, what an independent definition
    of matching says; the host that is checked for a CONNECT is the one that is dialled.
  \<^item> \<^verbatim>\<open>Config_Data\<close>, \<^verbatim>\<open>Config_Json\<close>, \<^verbatim>\<open>Store\<close> model \<^verbatim>\<open>config.go\<close>: updates are all
    or nothing, a restart restores what was saved; whatever decodes has numbers of Go's ranges, and every such configuration survives the round trip. The
    locale \<open>user_index\<close> states what a lookup through an index promises. \<^verbatim>\<open>In_Place\<close> models
    \<open>Store.update\<close> as it runs, with functions that change the configuration in place and a
    snapshot decoded over it after an error, and shows that it is the update that the other theories
    use (locale \<open>in_place\<close>, interpreted for the function of every handler and of the flush).
  \<^item> \<^verbatim>\<open>Credentials\<close> and \<^verbatim>\<open>Auth\<close> model \<^verbatim>\<open>auth.go\<close>: the key derivation is that of
    RFC 2898, tokens are accepted only when signed, caches never change an answer (locale
    \<open>memo_cache\<close>), and the two gates (admin API, proxy port) admit exactly who holds a
    credential.
  \<^item> \<^verbatim>\<open>Throttle\<close> models the limiters (one locale, interpreted for all three); its budget lemmas
    give the bounds on guessing of \<^verbatim>\<open>Auth\<close> (proxy port) and \<^verbatim>\<open>Admin\<close> (login), for requests
    handled one after another.
  \<^item> \<^verbatim>\<open>Conns\<close> models connection accounting, as functions and as the atomic steps of handlers
    that run at the same time, in 32-bit arithmetic and with the lock of the counter table: limits
    hold in every reachable state, without new arrivals everything drains, and the functions are runs of the
    steps. Fewer than \<open>2^31\<close> handlers are taken to be in progress at any moment, so that no counter
    wraps. \<^verbatim>\<open>Traffic\<close> models the counters.
  \<^item> \<^verbatim>\<open>LogStore\<close> and \<^verbatim>\<open>Audit_Trail\<close> model \<^verbatim>\<open>logstore.go\<close> and \<^verbatim>\<open>audit.go\<close>: what
    a search returns, what survives a restart, how large a file gets, that an export reads back.
  \<^item> \<^verbatim>\<open>Proxy_State\<close> and \<^verbatim>\<open>Forward\<close> model \<^verbatim>\<open>proxy.go\<close>: nothing leaves the proxy that the
    policy does not allow, headers are filtered, traffic is accounted and logged, no connection slot
    leaks except for an empty user identifier, tunnels are transparent.
  \<^item> \<^verbatim>\<open>Contract\<close> holds the invariants of the running proxy and its interfaces: \<open>moves\<close> says
    what an admin handler may do to the configuration; the locales \<open>admin_handler\<close> and
    \<open>proxy_step\<close> state what a handler and a step of the program keep.
  \<^item> \<^verbatim>\<open>Admin_Users\<close>, \<^verbatim>\<open>Admin_Settings\<close> and \<^verbatim>\<open>Admin\<close> model \<^verbatim>\<open>admin.go\<close>: every
    handler, its validation and its error answers, the routing and the guards. Every handler, and the
    whole admin port, interprets \<open>admin_handler\<close>.
  \<^item> \<^verbatim>\<open>Program\<close> models \<^verbatim>\<open>main.go\<close>: \<open>main_run\<close> is the whole of it, start, output, a list of
    events and the end; \<open>reachable\<close> is the relation of the states that events lead to. Each
    kind of step interprets \<open>proxy_step\<close>, and one induction gives the invariants.
  \<^item> This theory holds the properties that span all of it: from any start on any data directory,
    through any sequence of requests and flushes, to the end and the next start.

  \<^bold>\<open>State, errors, environment.\<close> Structs are records, a Go map is a finite map, an operation
  that changes state returns the new state. Errors are values (\<open>error\<close>, options, HTTP
  responses). What the program reads from outside is an argument: time, random bytes, the outcome of
  every file operation, the transport and the connections, name lookup, listening, URL parsing, and
  the order in which a map is visited. Counters that can wrap are words or reduced as Go does.

  \<^bold>\<open>Termination and fuel.\<close> All functions are total. The JSON parser has fuel, one more than the
  length of the text; the lemma \<open>fuel_enough\<close> of \<^verbatim>\<open>Json\<close> shows that the length already is
  enough, so that more fuel never changes an answer. Loops that are not structural (decimal printing,
  calendar, buckets) have termination proofs.

  \<^bold>\<open>Not modelled.\<close> Locks and goroutines, except in \<^verbatim>\<open>Conns\<close>: elsewhere an operation is one
  step. In particular a server that a rebinding replaces is stopped in the same step, where the program
  does it in a goroutine with five seconds of grace, and the check of a limiter and the
  failure recorded after it are not interrupted. The difference between a nil and an empty slice: both
  are the empty list, printed as \<open>[]\<close> where Go prints \<open>null\<close> for the first. What a power loss does to
  files that were not synced, except that a start on an empty configuration file is a property here. \<open>WithConfig\<close> (a read access that nothing uses) and the list behind \<open>AddOnChange\<close>
  (\<open>main\<close> registers the one listener there is). The TLS handshake, the flag parser. Case mapping
  and white space outside ASCII, percent escapes in admin paths, the text of system and JSON errors.
  The web page is a parameter. Timing itself: equalisation is modelled by the work it does. The
  session key and password hash functions are the real ones; no cryptographic hardness is assumed or
  claimed.
\<close>

section \<open>Invariants of the running program\<close>

text \<open>
  C3: whatever happens, there is an enabled admin. Starting from a configuration with unique names,
  unique identifiers and an enabled admin, every configuration that is in force at any later time is
  such a one: after any sequence of requests to either port and flushes, refused or failed ones
  included, whatever the files, the clock and the clients do, as long as new identifiers are fresh.
\<close>

theorem always_an_admin:
  assumes "reachable (\<lambda>_ _. True) p0 p" "config_ok (cfg_of p0)"
  shows "config_ok (cfg_of p)"
  using assms by (rule reachable_config_ok)

theorem always_an_admin_witness:
  "has_admin (cfg_of (snd (AdminHandler demo_env demo_request demo_proxy)))"
proof -
  have "fresh_id demo_env demo_proxy" by (simp add: fresh_id_def) (code_simp)
  then have "reachable (\<lambda>_ _. True) demo_proxy (snd (AdminHandler demo_env demo_request demo_proxy))"
    by (intro reachable.admin [OF reachable.start _ prod.collapse [symmetric]]) simp_all
  from always_an_admin [OF this] have "config_ok (cfg_of (snd (AdminHandler demo_env demo_request demo_proxy)))" by simp
  then show ?thesis by (simp add: config_ok_def)
qed

text \<open>
  C2: the policy in force is the configured one. However the program was started, as long as saves
  succeed and no configuration in force has a password hash with a zero byte, at every later time the
  lookup indexes are those of the configuration, the file on disk is one from which a restart makes
  the same configuration (up to the fields that every start sets), and whenever serving a request
  makes the proxy contact anyone, the requester is one whom the present configuration accepts, and
  the present configuration allows this requester the host.
\<close>

theorem policy_in_force:
  assumes "main_start mkdir getenv load rf mk act af env0 d = Some (Inr (notice, p0))" "clean_hashes (cfg_of p0)"
    and "reachable (\<lambda>env q. save_succeeds env \<and> clean_hashes (cfg_of q)) p0 p"
  shows "index_ok (p_store p)
    \<and> (\<exists>t c. dk_config (p_disk p) = Some t \<and> dec_doc t zero_config = Some c \<and> (\<forall>en. migrate en c = migrate en (cfg_of p)))
    \<and> (fst (snd (ServeHTTP env net r p)) \<noteq> [] \<longrightarrow>
        (\<exists>user. identified (cfg_of p) r user \<and> config_allows (cfg_of p) user (normalizeHost (normalizeHost (target_of r)))))"
proof -
  note st = started [OF assms(1)]
  have s: "synced p" using reachable_synced [OF assms(3)] st(1,2) by blast
  have a: "auth_ok p" using reachable_auth [OF assms(3)] st(6) assms(2) by blast
  have "\<exists>user. identified (cfg_of p) r user \<and> config_allows (cfg_of p) user (normalizeHost (normalizeHost (target_of r)))"
    if acts: "fst (snd (ServeHTTP env net r p)) \<noteq> []"
  proof (cases rule: ServeHTTP_cases [of env net r p])
    case (refused user st reason q)
    with acts refuse_sel(1) [of env user r st reason q] show ?thesis by simp
  next
    case (worked user p2 ans acts' p3)
    with admitted_allowed [OF worked(2) a] s show ?thesis by (auto simp: synced_def Evaluate_policy)
  qed (use acts in simp)
  with s show ?thesis by (auto simp: synced_def)
qed

theorem policy_in_force_witness:
  "\<exists>notice p. main_start None (\<lambda>_. []) (\<lambda>_ _. None) False False None None demo_salted demo_empty_disk = Some (Inr (notice, p))
     \<and> (\<exists>t c. dk_config (p_disk (FlushStats demo_env p)) = Some t \<and> dec_doc t zero_config = Some c)"
proof (rule demo_start)
  fix notice p assume run: "main_start None (\<lambda>_. []) (\<lambda>_ _. None) False False None None demo_salted demo_empty_disk = Some (Inr (notice, p))"
    and c: "clean_hashes (cfg_of p)"
  have "reachable (\<lambda>env q. save_succeeds env \<and> clean_hashes (cfg_of q)) p (FlushStats demo_env p)"
    using c by (intro reachable.flush [OF reachable.start refl]) (simp add: FlushStats_clean)
  from policy_in_force [OF run c this] run show ?thesis by blast
qed

text \<open>
  C27: the configuration keeps its type. However the program was started, whatever a configuration
  file or a request said, every number of the configuration in force is one that its Go type holds,
  and the configuration survives being written and read: the text that a save writes decodes to it,
  over whatever it is decoded.
\<close>

theorem config_stays_typed:
  assumes "main_start mkdir getenv load rf mk act af env0 d = Some (Inr (notice, p0))" "reachable (\<lambda>_ _. True) p0 p"
  shows "config_fits (cfg_of p) \<and> dec_doc (enc_doc (cfg_of p)) z = Some (cfg_of p)"
proof -
  have "config_fits (cfg_of p)" using reachable_fits [OF assms(2)] started(1) [OF assms(1)] by blast
  with dec_doc_enc_doc [OF this] show ?thesis by blast
qed

theorem config_stays_typed_witness:
  "\<exists>notice p. main_start None (\<lambda>_. []) (\<lambda>_ _. None) False False None None demo_salted demo_empty_disk = Some (Inr (notice, p))
     \<and> dec_doc (enc_doc (cfg_of (FlushStats demo_env p))) demo_config = Some (cfg_of (FlushStats demo_env p))"
proof (rule demo_start)
  fix notice p assume run: "main_start None (\<lambda>_. []) (\<lambda>_ _. None) False False None None demo_salted demo_empty_disk = Some (Inr (notice, p))"
  have "reachable (\<lambda>_ _. True) p (FlushStats demo_env p)" by (intro reachable.flush [OF reachable.start refl]) simp
  from config_stays_typed [OF run this] run show ?thesis by blast
qed

text \<open>
  C28: the listeners follow the configuration. At every time after a start exactly two servers run,
  the proxy and the admin port, on the addresses that are recorded for them: a change of the address
  stops the old server and never leaves the program without one. The admin port speaks TLS if and
  only if the start found a certificate, also after a change of its address, and the proxy port never
  does. As long as saves succeed and addresses can be bound, the addresses and the timeout of the
  transport are the configured ones.
\<close>

theorem listeners_follow_config:
  assumes "main_start mkdir getenv load rf mk act af env0 d = Some (Inr (notice, p0))" "reachable ok p0 p"
  shows "p_proxySrv p = Some (p_proxyAddr p) \<and> p_adminSrv p = Some (p_adminAddr p)
    \<and> mset (p_running p) = {#p_proxyAddr p, p_adminAddr p#}
    \<and> map_option ln_TLS (p_proxyLn p) = Some None \<and> map_option ln_TLS (p_adminLn p) = Some (loadAdminTLS getenv load)
    \<and> ((\<forall>env q. ok env q \<longrightarrow> save_succeeds env \<and> (\<forall>a. e_listen env a = None)) \<longrightarrow> bound_as_configured p)"
proof -
  note st = started [OF assms(1)]
  have "listening p" "p_adminTLS p = loadAdminTLS getenv load"
    using reachable_listening [OF assms(2) st(4)] reachable_TLS [OF assms(2)] st(7) by simp_all
  moreover have "bound_as_configured p" if "\<forall>env q. ok env q \<longrightarrow> save_succeeds env \<and> (\<forall>a. e_listen env a = None)"
    using reachable_bound [OF assms(2) _ st(5)] that by blast
  ultimately show ?thesis by (simp add: listening_def)
qed

theorem listeners_follow_config_witness:
  "\<exists>notice p. main_start None (\<lambda>_. []) (\<lambda>_ _. None) False False None None demo_salted demo_empty_disk = Some (Inr (notice, p))
     \<and> map_option ln_TLS (p_adminLn (FlushStats demo_env p)) = Some None \<and> bound_as_configured (FlushStats demo_env p)"
proof (rule demo_start)
  fix notice p assume run: "main_start None (\<lambda>_. []) (\<lambda>_ _. None) False False None None demo_salted demo_empty_disk = Some (Inr (notice, p))"
  have "reachable (\<lambda>env _. env = demo_env) p (FlushStats demo_env p)" by (intro reachable.flush [OF reachable.start refl]) simp
  from listeners_follow_config [OF run this] run demo_saved demo_listen show ?thesis
    by (auto simp: loadAdminTLS_def)
qed

section \<open>Traffic totals\<close>

text \<open>The totals the interface shows: of every user, those of the configuration and the live ones.\<close>

definition totals :: "Proxy \<Rightarrow> (string \<times> UserStats) list" where
  "totals p = map (\<lambda>u. (u_ID u, MergedStats (p_live p) u)) (c_Users (cfg_of p))"

lemma totals_ledger: "totals p = map (\<lambda>u. (u_ID u, u_Stats u)) (map (ledger (p_live p)) (c_Users (cfg_of p)))"
  by (simp add: totals_def ledger_def)



section \<open>Start and restart\<close>

lemma NewUser_default:
  assumes "NewUser en now ''admin'' ''admin123'' ''admin'' = Inr u"
  shows "u_Username u = ''admin''" "u_Role u = ''admin''" "u_Enabled u" "VerifyPassword (u_PasswordHash u) ''admin123''"
proof -
  obtain h where h: "HashPassword (en_salt en) ''admin123'' = Some h" using assms by (auto simp: NewUser_def split: option.splits)
  have "TrimSpace ''admin'' = ''admin''" by code_simp
  with h assms HashPassword_own [OF h]
  show "u_Username u = ''admin''" "u_Role u = ''admin''" "u_Enabled u" "VerifyPassword (u_PasswordHash u) ''admin123''"
    by (auto simp: NewUser_def)
qed

lemma NewStore_fresh:
  assumes "dk_config d = None \<or> dk_config d = Some []" "NewStore None en now env rf io d = Some (Inr (s, d'))" "en_id en \<noteq> []"
  obtains u where "c_Users (s_cfg s) = [u]" "u_Username u = ''admin''" "VerifyPassword (u_PasswordHash u) ''admin123''"
    "config_ok (s_cfg s)"
proof -
  have none: "\<not> ((if rf then None else dk_config d) \<noteq> None \<and> (if rf then None else dk_config d) \<noteq> Some [])" using assms(1) by auto
  obtain c where c: "defaultConfig en now env = Some c" "s_cfg s = c"
    using assms(2) none by (auto simp: NewStore_def Let_def split: option.splits prod.splits)
  obtain u where u: "NewUser en now ''admin'' ''admin123'' ''admin'' = Inr u" "c_Users c = [u]"
    using c(1) by (auto simp: defaultConfig_def split: sum.splits)
  have "u_ID u \<noteq> []" using NewUser_id [OF u(1)] randomHex_nonempty [OF assms(3)] by simp
  then have "config_ok c" using u(2) NewUser_default(2,3) [OF u(1)] by (simp add: config_ok_def users_distinct_def has_admin_def)
  with that [of u] c u(2) NewUser_default [OF u(1)] show thesis by simp
qed

text \<open>
  C32: the first start. When the program starts on an empty data directory, it runs with one
  enabled admin, named \<^verbatim>\<open>admin\<close> with the documented password, prints the notice about it, and
  satisfies the invariants: names and identifiers are unique, an admin exists, rules, indexes and the
  file on disk agree with the configuration, and both servers run where it says.
\<close>

theorem first_start_ok:
  assumes "dk_config d = None" "en_id (e_entropy env) \<noteq> []"
    and "main_start None getenv load rf mk act af env d = Some (Inr (notice, p))"
  shows "config_ok (cfg_of p) \<and> synced p \<and> listening p \<and> bound_as_configured p \<and> notice
    \<and> (\<exists>u. c_Users (cfg_of p) = [u] \<and> u_Username u = ''admin'' \<and> VerifyPassword (u_PasswordHash u) ''admin123'')"
proof -
  obtain s d' where s: "NewStore None (e_entropy env) (e_now env) getenv rf (e_save env) d = Some (Inr (s, d'))"
    "notice = default_notice (s_cfg s)"
    "start_proxy env (s_cfg s) (NewProxy (loadAdminTLS getenv load) mk (e_log env) (e_audit env) (e_now env) s d' act af) = (None, p)"
    using assms(3) by (rule main_start_Inr)
  obtain u where u: "c_Users (s_cfg s) = [u]" "u_Username u = ''admin''" "VerifyPassword (u_PasswordHash u) ''admin123''"
    "config_ok (s_cfg s)"
    using NewStore_fresh [OF _ s(1) assms(2)] assms(1) by blast
  have "cfg_of p = s_cfg s" using start_proxy_conf [OF s(3)] by (simp add: conf_def)
  with u s(2) started [OF assms(3)] show ?thesis by (simp add: default_notice_def IsDefaultPassword_def)
qed

theorem first_start_ok_witness:
  "\<exists>p. main_start None (\<lambda>_. []) (\<lambda>_ _. None) False False None None demo_salted demo_empty_disk = Some (Inr (True, p)) \<and> config_ok (cfg_of p)"
proof (rule demo_start)
  fix notice p assume run: "main_start None (\<lambda>_. []) (\<lambda>_ _. None) False False None None demo_salted demo_empty_disk = Some (Inr (notice, p))"
  have "en_id (e_entropy demo_salted) \<noteq> []" "dk_config demo_empty_disk = None" by (simp_all add: demo_salted_def demo_empty_disk_def)
  with first_start_ok [OF _ _ run] run show ?thesis by auto
qed

text \<open>
  C31: an empty configuration file is taken for a first start, and the backup goes with it. When the program
  starts on a directory whose \<^verbatim>\<open>config.json\<close> is empty, as a power loss soon after a save may leave it, and can
  read it, then whatever users the backup held, it runs with the single default admin and the documented
  password, and the backup has been overwritten with the empty file.
\<close>

theorem empty_config_resets:
  assumes "dk_config d = Some []" "en_id (e_entropy env) \<noteq> []"
    and "\<not> io_read_fails (e_save env)" "io_bak_partial (e_save env) = None"
    and "main_start None getenv load rf mk act af env d = Some (Inr (notice, p))"
  shows "dk_bak (p_disk p) = Some [] \<and> notice
    \<and> (\<exists>u. c_Users (cfg_of p) = [u] \<and> u_Username u = ''admin'' \<and> VerifyPassword (u_PasswordHash u) ''admin123'')"
proof -
  obtain s d' where s: "NewStore None (e_entropy env) (e_now env) getenv rf (e_save env) d = Some (Inr (s, d'))"
    "notice = default_notice (s_cfg s)"
    "start_proxy env (s_cfg s) (NewProxy (loadAdminTLS getenv load) mk (e_log env) (e_audit env) (e_now env) s d' act af) = (None, p)"
    using assms(5) by (rule main_start_Inr)
  obtain u where u: "c_Users (s_cfg s) = [u]" "u_Username u = ''admin''" "VerifyPassword (u_PasswordHash u) ''admin123''"
    using NewStore_fresh [OF _ s(1) assms(2)] assms(1) by blast
  have "\<not> ((if rf then None else dk_config d) \<noteq> None \<and> (if rf then None else dk_config d) \<noteq> Some [])" using assms(1) by auto
  then obtain c where "saveLocked (e_save env) d c = (None, d')"
    using s(1) by (auto simp: NewStore_def Save_def Let_def split: option.splits prod.splits)
  then have "dk_bak d' = dk_bak (save_bak (e_save env) d)" by (auto simp: saveLocked_def save_states_def Let_def split: if_splits)
  then have "dk_bak d' = Some []" using assms(1,3,4) by (simp add: save_bak_def)
  moreover have "cfg_of p = s_cfg s" "p_disk p = d'" using start_proxy_conf(1) [OF s(3)] by (simp_all add: conf_def)
  ultimately show ?thesis using u s(2) by (simp add: default_notice_def IsDefaultPassword_def)
qed

theorem empty_config_resets_witness:
  "\<exists>p. main_start None (\<lambda>_. []) (\<lambda>_ _. None) False False None None demo_salted
       \<lparr>dk_config = Some [], dk_bak = Some (enc_doc demo_config), dk_tmp = None\<rparr> = Some (Inr (True, p)) \<and> dk_bak (p_disk p) = Some []"
proof -
  let ?d = "\<lparr>dk_config = Some [], dk_bak = Some (enc_doc demo_config), dk_tmp = None\<rparr>"
  obtain notice p where run: "main_start None (\<lambda>_. []) (\<lambda>_ _. None) False False None None demo_salted ?d = Some (Inr (notice, p))"
    by (rule demo_start_on [of ?d]) simp_all
  have "en_id (e_entropy demo_salted) \<noteq> []" "\<not> io_read_fails (e_save demo_salted)" "io_bak_partial (e_save demo_salted) = None"
    by (simp_all add: demo_salted_def demo_env_def demo_save_def)
  with empty_config_resets [OF _ _ _ _ run] run show ?thesis by auto
qed

text \<open>
  C29: an orderly end loses nothing. When the program has started, has seen any requests and ticks,
  and is shut down, all saves having succeeded, the next start on that directory succeeds if the
  addresses can be bound; it runs with the same accounts, whose totals include the traffic that was
  still in the live counters, the same rules, compiled and configured, the same addresses, and a
  configuration that is the saved one with the fields that every start sets. (New user identifiers are fresh; the
  daily counters are in memory only and start anew.)
\<close>

theorem shutdown_restart:
  assumes "main_start mkdir getenv load rf mk act af env0 d = Some (Inr (notice0, p0))"
    and "admissible (\<lambda>env _. save_succeeds env) events p0" "p = fold main_step events p0"
    and "save_succeeds env" "\<forall>a. e_listen env' a = None"
  shows "\<exists>out q notice p'. main_run flag mkdir getenv load rf mk act af env0 events env d = Some (Inr (out, q))
    \<and> main_start None getenv' load' False mk' act' af' env' (p_disk q) = Some (Inr (notice, p'))
    \<and> cfg_of p' = migrate (e_entropy env') (cfg_of q)
    \<and> map (ledger (p_live p')) (c_Users (cfg_of p')) = map (ledger (p_live p)) (c_Users (cfg_of p))
    \<and> c_GlobalRules (cfg_of p') = c_GlobalRules (cfg_of p) \<and> p_rules p' = p_rules p
    \<and> px_ListenAddr (c_Proxy (cfg_of p')) = px_ListenAddr (c_Proxy (cfg_of p))
    \<and> px_AdminListenAddr (c_Proxy (cfg_of p')) = px_AdminListenAddr (c_Proxy (cfg_of p))
    \<and> listening p' \<and> bound_as_configured p'"
proof -
  note st = started [OF assms(1)]
  have r: "reachable (\<lambda>env _. save_succeeds env) p0 p" unfolding assms(3) by (rule admissible_reachable [OF reachable.start assms(2)])
  have s: "synced p" using reachable_synced [OF r] st by blast
  have fit: "config_fits (cfg_of p)" "live_ok (p_live p)" using reachable_fits [OF r st(1)] reachable_live [OF r st(3)] .
  note kept = shutdown_kept [OF s fit assms(4)]
  obtain notice p' where run: "main_start None getenv' load' False mk' act' af' env' (p_disk (shutdown_proxy env p)) = Some (Inr (notice, p'))"
    and cfg: "cfg_of p' = migrate (e_entropy env') (cfg_of (shutdown_proxy env p))" and live: "p_live p' = newLiveStats"
    using main_start_again [OF kept(1)] assms(5) by blast
  obtain out where "main_run flag mkdir getenv load rf mk act af env0 events env d = Some (Inr (out, shutdown_proxy env p))"
    by (simp add: main_run_def assms(1,3))
  moreover have "p_rules p' = p_rules p" using started(2) [OF run] kept(1,5) cfg
      Rebuild_cong [of "cfg_of p'" "cfg_of (shutdown_proxy env p)" NewRulesEngine] by (simp add: synced_def migrate_sel)
  moreover have "map (ledger (p_live p')) (c_Users (cfg_of p')) = map (ledger (p_live p)) (c_Users (cfg_of p))"
    "c_GlobalRules (cfg_of p') = c_GlobalRules (cfg_of p)"
    "px_ListenAddr (c_Proxy (cfg_of p')) = px_ListenAddr (c_Proxy (cfg_of p))"
    "px_AdminListenAddr (c_Proxy (cfg_of p')) = px_AdminListenAddr (c_Proxy (cfg_of p))"
    using kept(2-4) by (simp_all add: cfg live migrate_sel migrate_proxy)
  ultimately show ?thesis using run cfg started(4,5) [OF run] by blast
qed

theorem shutdown_restart_witness:
  "\<exists>out q notice p'. main_run None None (\<lambda>_. []) (\<lambda>_ _. None) False False None None demo_salted [Tick demo_env] demo_env demo_empty_disk
       = Some (Inr (out, q))
     \<and> main_start None (\<lambda>_. []) (\<lambda>_ _. None) False False None None demo_salted (p_disk q) = Some (Inr (notice, p'))
     \<and> listening p' \<and> bound_as_configured p'"
proof (rule demo_start)
  fix n p assume run: "main_start None (\<lambda>_. []) (\<lambda>_ _. None) False False None None demo_salted demo_empty_disk = Some (Inr (n, p))"
  have "admissible (\<lambda>env _. save_succeeds env) [Tick demo_env] p" by simp
  from shutdown_restart [OF run this refl demo_saved(1), of demo_salted None "\<lambda>_. []" "\<lambda>_ _. None" False None None] demo_listen
  show ?thesis by fast
qed

end
